(* ===== verification/Prelude.thy ===== *)
theory Prelude
  imports Main "HOL-Library.Word" "HOL-Library.List_Lexorder" "HOL-Library.Char_ord"
begin

text \<open>
  What every theory of the development shares: the collections of rewrite rules, the machine
  types of the C sources, and generic lemmas on lists, options and words.

  A C string is a \<open>string\<close> (its bytes without the terminating NUL), so a pointer into a
  string is the list of the bytes from the pointer on, and \<^verbatim>\<open>*p == '\0'\<close> is
  \<open>p = []\<close>.
\<close>

named_theorems mode_bits "the mode constants of the C library, unfolded"
named_theorems cstr "facts on the C string functions"

subsection \<open>Machine types\<close>

type_synonym mode_t = "32 word"
type_synonym uid_t = "32 word"
type_synonym gid_t = "32 word"
type_synonym uintmax_t = "64 word"

text \<open>
  A function of the sources that may call \<^verbatim>\<open>error_exit\<close> returns \<open>Inl message\<close> there: the
  message is printed to standard error and the process exits with \<^verbatim>\<open>EXIT_FAILURE\<close>.
\<close>

type_synonym 'a or_exit = "string + 'a"

definition nl :: string where
  "nl = [CHR 0x0A]"

definition quoted :: "string \<Rightarrow> string" where
  "quoted s = CHR 0x27 # s @ [CHR 0x27]"

subsection \<open>Lists\<close>

lemma takeWhile_dropWhile_split:
  assumes "s = xs @ ys" and "\<forall>x \<in> set xs. P x" and "ys = [] \<or> \<not> P (hd ys)"
  shows "takeWhile P s = xs" and "dropWhile P s = ys"
proof -
  have *: "takeWhile P ys = []" and **: "dropWhile P ys = ys"
    using assms(3) by (cases ys; auto)+
  show "takeWhile P s = xs"
    using assms(1,2) * by (simp add: takeWhile_append2)
  show "dropWhile P s = ys"
    using assms(1,2) ** by (simp add: dropWhile_append2)
qed

lemma hd_dropWhile_not: "dropWhile P s = [] \<or> \<not> P (hd (dropWhile P s))"
  by (induction s) auto

lemma all_takeWhile: "\<forall>x \<in> set (takeWhile P s). P x"
  by (meson set_takeWhileD)

lemma dropWhile_Nil_iff: "dropWhile P s = [] \<longleftrightarrow> list_all P s"
  by (induction s) auto

lemma list_all_takeWhile_self: "list_all P (takeWhile P s)"
  by (induction s) auto

lemma list_all_takeWhile: "list_all P s \<Longrightarrow> takeWhile P s = s"
  by (induction s) auto

lemma append_Cons_first:
  "x \<notin> set xs \<Longrightarrow> x \<notin> set xs' \<Longrightarrow> xs @ x # ys = xs' @ x # ys' \<longleftrightarrow> xs = xs' \<and> ys = ys'"
proof (induction xs arbitrary: xs')
  case Nil
  then show ?case by (cases xs') auto
next
  case (Cons a xs)
  then show ?case by (cases xs') auto
qed

lemma int_div_less:
  assumes "0 < (k :: int)"
  shows "a div k < v \<longleftrightarrow> a < v * k"
proof
  assume "a div k < v"
  then have "(a div k + 1) * k \<le> v * k" using assms by (intro mult_right_mono) auto
  moreover have "a < (a div k + 1) * k"
    using div_mult_mod_eq [of a k] pos_mod_bound [OF assms, of a] by (simp only: distrib_right)
  ultimately show "a < v * k" by linarith
next
  assume a: "a < v * k"
  show "a div k < v"
  proof (rule ccontr)
    assume "\<not> a div k < v"
    then have "v * k \<le> a div k * k" using assms by (intro mult_right_mono) auto
    also have "\<dots> \<le> a" using assms div_mult_mod_eq [of a k] pos_mod_sign [OF assms, of a] by linarith
    finally show False using a by simp
  qed
qed

lemma ucast_uint_32: "uint (ucast (x :: 32 word) :: 64 word) = uint x"
proof -
  have "uint x < 2 ^ 64" by (rule less_trans [OF uint_lt2p]) simp
  then show ?thesis by (simp add: unsigned_ucast_eq take_bit_int_eq_self)
qed

lemma uint_minus_one_32: "uint (-1 :: 32 word) = 0xFFFFFFFF"
  by (simp add: unsigned_minus_1_eq_mask mask_eq_exp_minus_1)

end
