(* ===== verification/Cstd.thy ===== *)
theory Cstd
  imports Prelude
begin

text \<open>
  The functions of the C library that the sources call on strings: comparison, search,
  classification in the C locale (the program never calls \<^verbatim>\<open>setlocale\<close>) and the
  \<^verbatim>\<open>strto*\<close> conversions, on a machine where \<^verbatim>\<open>unsigned long\<close> and \<^verbatim>\<open>uintmax_t\<close> have 64 bits.
\<close>

subsection \<open>strcmp\<close>

text \<open>The sign of the first difference, bytes compared as \<^verbatim>\<open>unsigned char\<close>.\<close>

fun strcmp :: "string \<Rightarrow> string \<Rightarrow> int" where
  "strcmp [] [] = 0"
| "strcmp [] (_ # _) = -1"
| "strcmp (_ # _) [] = 1"
| "strcmp (x # xs) (y # ys) =
     (if (of_char x :: int) < of_char y then -1
      else if (of_char y :: int) < of_char x then 1
      else strcmp xs ys)"

lemma of_char_int: "(of_char c :: int) = int (of_char c)"
  by (simp add: of_nat_of_char)

lemma of_char_less [cstr]: "(of_char x :: int) < of_char y \<longleftrightarrow> x < (y :: char)"
  by (simp add: less_char_def of_char_int)

lemma of_char_le [cstr]: "(of_char x :: int) \<le> of_char y \<longleftrightarrow> x \<le> (y :: char)"
  by (simp add: less_eq_char_def of_char_int)

lemma strcmp_eq_0 [simp]: "strcmp a b = 0 \<longleftrightarrow> a = b"
  by (induction a b rule: strcmp.induct) (auto simp: of_char_less)

lemma strcmp_gt_0: "0 < strcmp a b \<longleftrightarrow> b < a"
  by (induction a b rule: strcmp.induct) (auto simp: of_char_less not_less)

lemma strcmp_lt_0: "strcmp a b < 0 \<longleftrightarrow> a < b"
  by (induction a b rule: strcmp.induct) (auto simp: of_char_less not_less)

lemmas strcmp_order [cstr] = strcmp_eq_0 strcmp_gt_0 strcmp_lt_0

subsection \<open>Classification\<close>

definition isdigit :: "char \<Rightarrow> bool" where
  "isdigit c \<longleftrightarrow> 48 \<le> (of_char c :: int) \<and> (of_char c :: int) \<le> 57"

definition isspace :: "char \<Rightarrow> bool" where
  "isspace c \<longleftrightarrow> (of_char c :: int) = 32 \<or> (9 \<le> (of_char c :: int) \<and> (of_char c :: int) \<le> 13)"

definition toupper :: "char \<Rightarrow> char" where
  "toupper c =
     (if 97 \<le> (of_char c :: int) \<and> (of_char c :: int) \<le> 122 then char_of (of_char c - 32 :: int) else c)"

definition digit_val :: "char \<Rightarrow> int" where
  "digit_val c = of_char c - 48"

lemma digit_val_bounds: "isdigit c \<Longrightarrow> 0 \<le> digit_val c \<and> digit_val c < 10"
  by (simp add: isdigit_def digit_val_def)

lemma isdigit_range: "isdigit c \<longleftrightarrow> CHR ''0'' \<le> c \<and> c \<le> CHR ''9''"
  by (simp add: isdigit_def flip: of_char_le)

subsection \<open>strtoul and strtoumax\<close>

text \<open>
  \<open>strtou base s\<close> is \<^verbatim>\<open>strtoul(s, &endptr, base)\<close> for base 8 or 10 (neither takes a
  prefix): leading white space, an optional sign, the longest run of digits of the base. The
  results are the value, the text at \<^verbatim>\<open>endptr\<close> (all of \<open>s\<close> when there are no digits) and
  whether \<^verbatim>\<open>errno\<close> is set to \<^verbatim>\<open>ERANGE\<close>, where the value is the largest one.
\<close>

definition uint_max :: int where
  "uint_max = 0xFFFFFFFFFFFFFFFF"

definition in_base :: "int \<Rightarrow> char \<Rightarrow> bool" where
  "in_base b c \<longleftrightarrow> isdigit c \<and> digit_val c < b"

definition digits_val :: "int \<Rightarrow> string \<Rightarrow> int" where
  "digits_val b ds = foldl (\<lambda>v c. v * b + digit_val c) 0 ds"

definition strip_sign :: "string \<Rightarrow> bool \<times> string" where
  "strip_sign s = (case s of
       c # cs \<Rightarrow> if c = CHR ''-'' then (True, cs) else if c = CHR ''+'' then (False, cs) else (False, s)
     | [] \<Rightarrow> (False, s))"

definition strtou :: "int \<Rightarrow> string \<Rightarrow> uintmax_t \<times> string \<times> bool" where
  "strtou b s =
     (let (neg, t) = strip_sign (dropWhile isspace s);
          ds = takeWhile (in_base b) t;
          v = digits_val b ds
      in if ds = [] then (0, s, False)
         else if uint_max < v then (of_int uint_max, dropWhile (in_base b) t, True)
         else ((if neg then - of_int v else of_int v), dropWhile (in_base b) t, False))"

text \<open>\<^verbatim>\<open>strtol\<close>, likewise; the value is clipped to the range of \<^verbatim>\<open>long\<close>.\<close>

definition strtol :: "int \<Rightarrow> string \<Rightarrow> int \<times> string \<times> bool" where
  "strtol b s =
     (let (neg, t) = strip_sign (dropWhile isspace s);
          ds = takeWhile (in_base b) t;
          v = (if neg then - digits_val b ds else digits_val b ds)
      in if ds = [] then (0, s, False)
         else if v < -0x8000000000000000 then (-0x8000000000000000, dropWhile (in_base b) t, True)
         else if 0x7FFFFFFFFFFFFFFF < v then (0x7FFFFFFFFFFFFFFF, dropWhile (in_base b) t, True)
         else (v, dropWhile (in_base b) t, False))"

lemma digits_val_Nil [simp]: "digits_val b [] = 0"
  by (simp add: digits_val_def)

lemma digits_val_snoc [simp]: "digits_val b (ds @ [c]) = digits_val b ds * b + digit_val c"
  by (simp add: digits_val_def)

lemma isdigit_not_space: "isdigit c \<Longrightarrow> \<not> isspace c"
  by (auto simp: isdigit_def isspace_def)

lemma isdigit_not_sign: "isdigit c \<Longrightarrow> c \<noteq> CHR ''-'' \<and> c \<noteq> CHR ''+''"
  by (auto simp: isdigit_def)

text \<open>On a text that starts with a digit there is neither white space nor a sign.\<close>

lemma strtou_digit:
  assumes "isdigit c"
  shows "strtou b (c # s) =
     (let ds = takeWhile (in_base b) (c # s); v = digits_val b ds
      in if ds = [] then (0, c # s, False)
         else if uint_max < v then (of_int uint_max, dropWhile (in_base b) (c # s), True)
         else (of_int v, dropWhile (in_base b) (c # s), False))"
  using isdigit_not_space [OF assms] isdigit_not_sign [OF assms]
  by (simp add: strtou_def strip_sign_def Let_def)

lemma digits_val_nonneg: "0 \<le> b \<Longrightarrow> list_all (in_base b) ds \<Longrightarrow> 0 \<le> digits_val b ds"
  by (induction ds rule: rev_induct) (auto simp: in_base_def dest: digit_val_bounds)

lemma uint_of_int_small: "0 \<le> v \<Longrightarrow> v \<le> uint_max \<Longrightarrow> uint (of_int v :: 64 word) = v"
  by (simp add: uint_word_of_int uint_max_def)

lemma strtou_end:
  assumes "isdigit c" and "in_base b c"
  shows "\<exists>x y. strtou b (c # s) = (x, dropWhile (in_base b) (c # s), y)"
  using assms by (cases "uint_max < digits_val b (c # takeWhile (in_base b) s)")
    (auto simp: strtou_digit Let_def)

lemma in_base_10 [simp]: "in_base 10 = isdigit"
  by (auto simp: in_base_def fun_eq_iff dest: digit_val_bounds)

subsection \<open>strchr and strrchr\<close>

text \<open>The position of the first, and of the last, occurrence.\<close>

fun strchr :: "string \<Rightarrow> char \<Rightarrow> nat option" where
  "strchr [] c = None"
| "strchr (x # xs) c = (if x = c then Some 0 else map_option Suc (strchr xs c))"

fun strrchr :: "string \<Rightarrow> char \<Rightarrow> nat option" where
  "strrchr [] c = None"
| "strrchr (x # xs) c =
     (case strrchr xs c of
        Some i \<Rightarrow> Some (Suc i)
      | None \<Rightarrow> if x = c then Some 0 else None)"

lemma strchr_None [cstr]: "strchr s c = None \<longleftrightarrow> c \<notin> set s"
  by (induction s) auto

lemma strrchr_None [cstr]: "strrchr s c = None \<longleftrightarrow> c \<notin> set s"
  by (induction s) (auto split: option.splits)

lemma strchr_Some:
  "strchr s c = Some i \<longleftrightarrow> i < length s \<and> s ! i = c \<and> c \<notin> set (take i s)"
proof (induction s arbitrary: i)
  case (Cons x xs)
  then show ?case by (cases i) auto
qed simp

lemma strrchr_Some:
  "strrchr s c = Some i \<longleftrightarrow> i < length s \<and> s ! i = c \<and> c \<notin> set (drop (Suc i) s)"
proof (induction s arbitrary: i)
  case (Cons x xs)
  show ?case
  proof (cases "strrchr xs c")
    case None
    then have "c \<notin> set xs" by (simp add: strrchr_None)
    then show ?thesis using None by (cases i) auto
  next
    case (Some j)
    have j: "j < length xs \<and> xs ! j = c \<and> c \<notin> set (drop (Suc j) xs)"
      using Some Cons.IH [of j] by simp
    then have c: "c \<in> set xs" by auto
    show ?thesis
    proof (cases i)
      case 0
      then show ?thesis using Some c by simp
    next
      case (Suc k)
      then show ?thesis using Some Cons.IH [of k] by simp
    qed
  qed
qed simp

end
