(* ===== verification/Optparse.thy ===== *)
theory Optparse
  imports Cstd
begin

text \<open>
  \<^verbatim>\<open>src/optparse.c\<close>: the option parser.

  The file's variables, static and global, are the fields of \<open>optstate\<close>; \<^verbatim>\<open>argv\<close> is one of them
  because \<^verbatim>\<open>permute\<close> reorders it, and \<^verbatim>\<open>argc\<close> is its length. A pointer into an argument is the
  rest of the argument, a NULL pointer is \<open>None\<close>. \<^verbatim>\<open>opt_ind\<close> only grows from 1, so it is a natural
  number. Characters are returned as their codes, as the \<^verbatim>\<open>int\<close> results of the source are.
\<close>

datatype arg_kind = OPT_NONE | OPT_REQUIRED | OPT_OPTIONAL

record opt_option =
  lo_name :: string
  lo_flag :: "nat option"
  lo_has_arg :: arg_kind
  lo_val :: int

record optstate =
  os_argv :: "string list"
  opt_arg :: "string option"
  opt_ind :: nat
  opt_opt :: int
  opt_name :: "string option"
  nextchar :: "string option"
  started :: bool
  flag_store :: "nat \<Rightarrow> int"
  longindex :: int

definition ret_unknown :: int where "ret_unknown = 63"

definition ret_missing :: int where "ret_missing = 58"

definition ret_excess :: int where "ret_excess = 61"

definition char_at :: "string \<Rightarrow> nat \<Rightarrow> char option" where
  "char_at s i = (if i < length s then Some (s ! i) else None)"

subsection \<open>reverse and rotate\<close>

function reverse_loop :: "string list \<Rightarrow> int \<Rightarrow> int \<Rightarrow> string list" where
  "reverse_loop argv first lst =
     (if first < lst then
        (let held = argv ! nat first
         in reverse_loop ((argv[nat first := argv ! nat lst])[nat lst := held]) (first + 1) (lst - 1))
      else argv)"
  by pat_completeness auto
termination
  by (relation "measure (\<lambda>(argv, first, lst). nat (lst - first))") auto

declare reverse_loop.simps [simp del]

definition reverse_argv :: "string list \<Rightarrow> int \<Rightarrow> int \<Rightarrow> string list" where
  "reverse_argv argv first lst = reverse_loop argv first (lst - 1)"

definition rotate_argv :: "string list \<Rightarrow> int \<Rightarrow> int \<Rightarrow> int \<Rightarrow> string list" where
  "rotate_argv argv first middle lst =
     reverse_argv (reverse_argv (reverse_argv argv first middle) middle lst) first lst"

subsection \<open>Looking ahead\<close>

definition long_takes_arg :: "string \<Rightarrow> opt_option list option \<Rightarrow> bool" where
  "long_takes_arg arg longopts =
     (case longopts of
        None \<Rightarrow> False
      | Some los \<Rightarrow>
          if strchr arg (CHR ''='') \<noteq> None then False
          else (case find (\<lambda>lo. lo_name lo = arg) los of
                  None \<Rightarrow> False
                | Some lo \<Rightarrow> lo_has_arg lo = OPT_REQUIRED))"

fun cluster_takes_arg :: "string \<Rightarrow> string \<Rightarrow> bool" where
  "cluster_takes_arg [] optstring = False"
| "cluster_takes_arg (c # chars) optstring =
     (if c = CHR '':'' then False
      else case strchr optstring c of
          None \<Rightarrow> cluster_takes_arg chars optstring
        | Some i \<Rightarrow>
            if char_at optstring (i + 1) \<noteq> Some (CHR '':'') then cluster_takes_arg chars optstring
            else if char_at optstring (i + 2) = Some (CHR '':'') then False
            else chars = [])"

subsection \<open>permute\<close>

text \<open>An argument that does not start an option: it lacks the dash or is the dash alone.\<close>

definition is_operand :: "string \<Rightarrow> bool" where
  "is_operand arg \<longleftrightarrow> arg = [] \<or> hd arg \<noteq> CHR ''-'' \<or> tl arg = []"

definition takes_next :: "string \<Rightarrow> opt_option list option \<Rightarrow> string \<Rightarrow> bool" where
  "takes_next optstring longopts arg =
     (if char_at arg 1 = Some (CHR ''-'') then long_takes_arg (drop 2 arg) longopts
      else cluster_takes_arg (drop 1 arg) optstring)"

text \<open>The loop of \<^verbatim>\<open>permute\<close>, with its variables \<^verbatim>\<open>end\<close> and \<^verbatim>\<open>i\<close>.\<close>

function permute_loop ::
  "string \<Rightarrow> opt_option list option \<Rightarrow> string list \<Rightarrow> nat \<Rightarrow> nat \<Rightarrow> string list" where
  "permute_loop optstring longopts argv e i =
     (if i < length argv then
        (let arg = argv ! i; start = i; i1 = i + 1 in
         if arg = ''--'' then rotate_argv argv (int e) (int start) (int i1)
         else if is_operand arg then permute_loop optstring longopts argv e i1
         else
           (let i2 = (if takes_next optstring longopts arg \<and> i1 < length argv then i1 + 1 else i1)
            in permute_loop optstring longopts (rotate_argv argv (int e) (int start) (int i2))
                 (e + (i2 - start)) i2))
      else argv)"
  by pat_completeness auto

lemma length_reverse_loop [simp]: "length (reverse_loop argv f l) = length argv"
  by (induction argv f l rule: reverse_loop.induct) (subst reverse_loop.simps, simp add: Let_def)

lemma length_reverse_argv [simp]: "length (reverse_argv argv f l) = length argv"
  by (simp add: reverse_argv_def)

lemma length_rotate_argv [simp]: "length (rotate_argv argv f m l) = length argv"
  by (simp add: rotate_argv_def)

termination permute_loop
  by (relation "measure (\<lambda>(os, lo, argv, e, i). length argv - i)") auto

declare permute_loop.simps [simp del]

definition permute :: "string \<Rightarrow> opt_option list option \<Rightarrow> string list \<Rightarrow> string list" where
  "permute optstring longopts argv = permute_loop optstring longopts argv 1 1"

subsection \<open>One option\<close>

fun find_index :: "('a \<Rightarrow> bool) \<Rightarrow> 'a list \<Rightarrow> nat option" where
  "find_index P [] = None"
| "find_index P (x # xs) = (if P x then Some 0 else map_option Suc (find_index P xs))"

text \<open>The search of \<^verbatim>\<open>parse_long\<close>: the name ends at the first \<^verbatim>\<open>=\<close>.\<close>

definition long_find :: "opt_option list option \<Rightarrow> string \<Rightarrow> nat option" where
  "long_find longopts name =
     (case longopts of
        None \<Rightarrow> None
      | Some los \<Rightarrow>
          (let len = (case strchr name (CHR ''='') of Some k \<Rightarrow> k | None \<Rightarrow> length name)
           in find_index (\<lambda>lo. length (lo_name lo) = len \<and> lo_name lo = take len name) los))"

text \<open>Its last lines: a flag entry stores its value and reads as 0.\<close>

definition long_finish :: "opt_option \<Rightarrow> optstate \<Rightarrow> int \<times> optstate" where
  "long_finish lo s =
     (case lo_flag lo of
        None \<Rightarrow> (lo_val lo, s)
      | Some p \<Rightarrow> (0, s\<lparr>flag_store := (flag_store s)(p := lo_val lo)\<rparr>))"

text \<open>Its \<^verbatim>\<open>switch\<close>; \<open>eq\<close> is the text behind the \<^verbatim>\<open>=\<close>, if there is one.\<close>

definition long_value :: "opt_option \<Rightarrow> string option \<Rightarrow> optstate \<Rightarrow> int \<times> optstate" where
  "long_value lo eq s =
     (case lo_has_arg lo of
        OPT_REQUIRED \<Rightarrow>
          (case eq of
             Some v \<Rightarrow> long_finish lo (s\<lparr>opt_arg := Some v\<rparr>)
           | None \<Rightarrow>
               if opt_ind s < length (os_argv s)
               then long_finish lo (s\<lparr>opt_arg := Some (os_argv s ! opt_ind s), opt_ind := opt_ind s + 1\<rparr>)
               else (ret_missing, s))
      | OPT_OPTIONAL \<Rightarrow> long_finish lo (s\<lparr>opt_arg := eq\<rparr>)
      | OPT_NONE \<Rightarrow> if eq \<noteq> None then (ret_excess, s) else long_finish lo s)"

definition parse_long :: "opt_option list option \<Rightarrow> optstate \<Rightarrow> int \<times> optstate" where
  "parse_long longopts s =
     (let arg = os_argv s ! opt_ind s;
          name = drop 2 arg;
          eq = map_option (\<lambda>k. drop (k + 1) name) (strchr name (CHR ''=''))
      in case long_find longopts name of
           None \<Rightarrow> (ret_unknown, s\<lparr>opt_name := Some arg, opt_ind := opt_ind s + 1, opt_opt := 0\<rparr>)
         | Some k \<Rightarrow>
             (let lo = the longopts ! k
              in long_value lo eq (s\<lparr>opt_name := Some (lo_name lo), opt_ind := opt_ind s + 1, longindex := int k\<rparr>)))"

text \<open>
  \<open>parse_short optstring c rest s\<close> is \<^verbatim>\<open>parse_short\<close> where \<^verbatim>\<open>nextchar\<close> points at the character
  \<open>c\<close>, followed by \<open>rest\<close>: both callers check that the character is there.
\<close>

definition parse_short :: "string \<Rightarrow> char \<Rightarrow> string \<Rightarrow> optstate \<Rightarrow> int \<times> optstate" where
  "parse_short optstring c rest s =
     (case (if c = CHR '':'' then None else strchr optstring c) of
        None \<Rightarrow>
          (ret_unknown,
           (if rest = [] then s\<lparr>nextchar := None, opt_ind := opt_ind s + 1, opt_opt := of_char c\<rparr>
            else s\<lparr>nextchar := Some rest, opt_opt := of_char c\<rparr>))
      | Some i \<Rightarrow>
          if char_at optstring (i + 1) \<noteq> Some (CHR '':'') then
            (of_char c,
             (if rest = [] then s\<lparr>nextchar := None, opt_ind := opt_ind s + 1\<rparr>
              else s\<lparr>nextchar := Some rest\<rparr>))
          else if rest \<noteq> [] then
            (of_char c, s\<lparr>opt_arg := Some rest, nextchar := None, opt_ind := opt_ind s + 1\<rparr>)
          else if char_at optstring (i + 2) = Some (CHR '':'') then
            (of_char c, s\<lparr>nextchar := None, opt_ind := opt_ind s + 1\<rparr>)
          else if opt_ind s + 1 < length (os_argv s) then
            (of_char c, s\<lparr>nextchar := None, opt_arg := Some (os_argv s ! (opt_ind s + 1)),
               opt_ind := opt_ind s + 2\<rparr>)
          else (ret_missing, s\<lparr>nextchar := None, opt_opt := of_char c, opt_ind := opt_ind s + 1\<rparr>))"

definition opt_reset :: "optstate \<Rightarrow> optstate" where
  "opt_reset s =
     (if opt_ind s = 0 then s\<lparr>opt_ind := 1, nextchar := None, started := False\<rparr> else s)"

definition opt_start :: "string \<Rightarrow> opt_option list option \<Rightarrow> optstate \<Rightarrow> optstate" where
  "opt_start optstring longopts s =
     (if \<not> started s then s\<lparr>os_argv := permute optstring longopts (os_argv s), started := True\<rparr> else s)"

definition optparse_long :: "string \<Rightarrow> opt_option list option \<Rightarrow> optstate \<Rightarrow> int \<times> optstate" where
  "optparse_long optstring longopts s0 =
     (let s = opt_start optstring longopts (opt_reset (s0\<lparr>opt_arg := None, opt_name := None\<rparr>)) in
      case nextchar s of
        Some (c # rest) \<Rightarrow> parse_short optstring c rest s
      | _ \<Rightarrow>
        (let t = s\<lparr>nextchar := None\<rparr> in
         if length (os_argv t) \<le> opt_ind t then (-1, t)
         else
           (let arg = os_argv t ! opt_ind t in
            if is_operand arg then (-1, t)
            else if char_at arg 1 = Some (CHR ''-'') then
              (if length arg = 2 then (-1, t\<lparr>opt_ind := opt_ind t + 1\<rparr>)
               else parse_long longopts t)
            else parse_short optstring (arg ! 1) (drop 2 arg) t)))"

text \<open>The file's variables when the program starts.\<close>

definition opt_init :: "string list \<Rightarrow> optstate" where
  "opt_init argv =
     \<lparr>os_argv = argv, opt_arg = None, opt_ind = 1, opt_opt = 0, opt_name = None, nextchar = None,
      started = False, flag_store = (\<lambda>_. 0), longindex = 0\<rparr>"

subsection \<open>What permute does\<close>

lemma reverse_loop_seg:
  "reverse_loop (pre @ xs @ post) (int (length pre)) (int (length pre + length xs) - 1) = pre @ rev xs @ post"
proof (induction xs arbitrary: pre post rule: length_induct)
  case (1 xs)
  show ?case
  proof (cases xs)
    case Nil
    then show ?thesis by (simp add: reverse_loop.simps)
  next
    case (Cons x ys)
    show ?thesis
    proof (cases ys rule: rev_cases)
      case Nil
      with Cons show ?thesis by (simp add: reverse_loop.simps)
    next
      case (snoc zs z)
      let ?f = "length pre" and ?l = "length pre + length zs + 1"
      have "reverse_loop (pre @ xs @ post) (int ?f) (int (length pre + length xs) - 1) =
          reverse_loop ((pre @ [z]) @ zs @ (x # post)) (int ?f + 1) (int ?l - 1)"
        by (subst reverse_loop.simps) (simp add: Cons snoc nth_append list_update_append Let_def nat_add_distrib)
      also have "\<dots> = (pre @ [z]) @ rev zs @ (x # post)"
        using "1.IH" [rule_format, of zs "pre @ [z]" "x # post"] Cons snoc by (simp add: add.commute)
      finally show ?thesis using Cons snoc by simp
    qed
  qed
qed

lemma reverse_argv_seg:
  assumes "f = int (length pre)" and "l = int (length pre + length xs)"
  shows "reverse_argv (pre @ xs @ post) f l = pre @ rev xs @ post"
  using assms reverse_loop_seg [of pre xs post] by (simp add: reverse_argv_def)

lemma rotate_argv_seg:
  assumes "f = int (length pre)" and "m = int (length pre + length xs)"
    and "l = int (length pre + length xs + length ys)"
  shows "rotate_argv (pre @ xs @ ys @ post) f m l = pre @ ys @ xs @ post"
proof -
  have "reverse_argv (pre @ xs @ ys @ post) f m = pre @ rev xs @ ys @ post"
    using assms by (intro reverse_argv_seg) auto
  moreover have "reverse_argv (pre @ rev xs @ ys @ post) m l = (pre @ rev xs) @ rev ys @ post"
    using assms reverse_argv_seg [of m "pre @ rev xs" l ys post] by simp
  moreover have "reverse_argv (pre @ (rev xs @ rev ys) @ post) f l = pre @ rev (rev xs @ rev ys) @ post"
    using assms by (intro reverse_argv_seg) auto
  ultimately show ?thesis by (simp add: rotate_argv_def)
qed

text \<open>
  The arguments split into those that belong to options, up to and with \<^verbatim>\<open>--\<close>, and the operands,
  each in the order they were given.
\<close>

fun split_args :: "string \<Rightarrow> opt_option list option \<Rightarrow> string list \<Rightarrow> string list \<times> string list" where
  "split_args optstring longopts [] = ([], [])"
| "split_args optstring longopts (a # as) =
     (if a = ''--'' then ([a], as)
      else if is_operand a then apsnd ((#) a) (split_args optstring longopts as)
      else if takes_next optstring longopts a \<and> as \<noteq> []
      then apfst (\<lambda>os. a # hd as # os) (split_args optstring longopts (tl as))
      else apfst ((#) a) (split_args optstring longopts as))"

lemma permute_loop_split:
  "permute_loop optstring longopts (xs @ ops @ rest) (length xs) (length xs + length ops) =
     xs @ fst (split_args optstring longopts rest) @ ops @ snd (split_args optstring longopts rest)"
proof (induction optstring longopts rest arbitrary: xs ops rule: split_args.induct)
  case (1 optstring longopts)
  then show ?case by (subst permute_loop.simps) simp
next
  case (2 optstring longopts a as)
  let ?argv = "xs @ ops @ a # as" and ?i = "length xs + length ops"
  have arg: "?argv ! ?i = a" by (simp add: nth_append)
  consider (dashes) "a = ''--''" | (operand) "a \<noteq> ''--''" "is_operand a"
    | (one) "a \<noteq> ''--''" "\<not> is_operand a" "\<not> (takes_next optstring longopts a \<and> as \<noteq> [])"
    | (two) b bs where "a \<noteq> ''--''" "\<not> is_operand a" "takes_next optstring longopts a" "as = b # bs"
    by (cases as) auto
  then show ?case
  proof cases
    case dashes
    have "rotate_argv (xs @ ops @ [a] @ as) (int (length xs)) (int ?i) (int (?i + 1)) = xs @ [a] @ ops @ as"
      by (rule rotate_argv_seg) auto
    with dashes show ?thesis by (subst permute_loop.simps) (simp add: nth_append)
  next
    case operand
    with "2.IH"(1) [of xs "ops @ [a]"] show ?thesis
      by (subst permute_loop.simps) (simp add: nth_append Let_def)
  next
    case one
    have "rotate_argv (xs @ ops @ [a] @ as) (int (length xs)) (int ?i) (int (?i + 1)) = xs @ [a] @ ops @ as"
      by (rule rotate_argv_seg) auto
    with one "2.IH"(3) [of "xs @ [a]" ops] show ?thesis
      by (subst permute_loop.simps) (auto simp: nth_append Let_def)
  next
    case (two b bs)
    have "rotate_argv (xs @ ops @ [a, b] @ bs) (int (length xs)) (int ?i) (int (?i + 2)) = xs @ [a, b] @ ops @ bs"
      by (rule rotate_argv_seg) auto
    with two "2.IH"(2) [of "xs @ [a, b]" ops] show ?thesis
      by (subst permute_loop.simps) (simp add: nth_append Let_def)
  qed
qed

text \<open>
  C21. \<^verbatim>\<open>permute\<close> moves every option, with the argument it takes from the next word,
  in front of the operands; options and operands each keep their order, a \<^verbatim>\<open>--\<close> comes after the options and
  in front of the operands, and whatever follows it stays an operand.
\<close>

theorem permute_split:
  "permute optstring longopts (prog # args) =
     prog # fst (split_args optstring longopts args) @ snd (split_args optstring longopts args)"
  using permute_loop_split [of optstring longopts "[prog]" "[]" args] by (simp add: permute_def)

subsection \<open>Progress: the parse of the whole command line ends\<close>

definition opt_rank :: "optstate \<Rightarrow> nat \<times> nat \<times> nat" where
  "opt_rank s =
     (if opt_ind s = 0 \<or> \<not> started s then 1 else 0,
      length (os_argv s) - opt_ind s,
      case nextchar s of
        Some (c # cs) \<Rightarrow> length (c # cs)
      | _ \<Rightarrow> if opt_ind s < length (os_argv s) then length (os_argv s ! opt_ind s) else 0)"

definition opt_less :: "(optstate \<times> optstate) set" where
  "opt_less = inv_image (less_than <*lex*> less_than <*lex*> less_than) opt_rank"

lemma wf_opt_less [simp]: "wf opt_less"
  by (auto simp: opt_less_def)

text \<open>Every result but \<^verbatim>\<open>-1\<close> consumes a character of a cluster or an argument.\<close>

lemma parse_short_frame:
  "parse_short optstring c rest s = (r, s') \<Longrightarrow>
     os_argv s' = os_argv s \<and> started s' = started s \<and>
     (opt_ind s < opt_ind s' \<and> nextchar s' = None \<or> opt_ind s' = opt_ind s \<and> nextchar s' = Some rest \<and> rest \<noteq> [])"
  by (auto simp: parse_short_def split: option.splits if_splits)

lemma parse_long_frame:
  "parse_long longopts s = (r, s') \<Longrightarrow>
     os_argv s' = os_argv s \<and> started s' = started s \<and> opt_ind s < opt_ind s' \<and> nextchar s' = nextchar s"
  by (auto simp: parse_long_def long_value_def long_finish_def Let_def split: option.splits if_splits arg_kind.splits)

lemma optparse_long_progress:
  assumes "optparse_long optstring longopts s = (r, s')" and "r \<noteq> -1"
  shows "(s', s) \<in> opt_less"
proof -
  define t where "t = opt_start optstring longopts (opt_reset (s\<lparr>opt_arg := None, opt_name := None\<rparr>))"
  have t: "started t" "opt_ind t \<noteq> 0"
    by (simp_all add: t_def opt_start_def opt_reset_def)
  have r: "opt_rank t = opt_rank s \<or> (opt_ind s = 0 \<or> \<not> started s)"
    by (auto simp: t_def opt_start_def opt_reset_def opt_rank_def split: option.splits list.splits)
  have "(s', t) \<in> opt_less \<and> started s' \<and> opt_ind s' \<noteq> 0"
  proof (cases "\<exists>c rest. nextchar t = Some (c # rest)")
    case True
    then obtain c rest where n: "nextchar t = Some (c # rest)" by blast
    with assms have p: "parse_short optstring c rest t = (r, s')"
      by (simp add: optparse_long_def t_def Let_def)
    show ?thesis
      using parse_short_frame [OF p] n t by (auto simp: opt_less_def opt_rank_def neq_Nil_conv)
  next
    case False
    define u where "u = t\<lparr>nextchar := None\<rparr>"
    let ?arg = "os_argv u ! opt_ind u"
    have n: "(case nextchar t of Some (c # rest) \<Rightarrow> A c rest | _ \<Rightarrow> B) = B" for A :: "char \<Rightarrow> string \<Rightarrow> int \<times> optstate" and B
      using False by (auto split: option.splits list.splits)
    from assms have l: "opt_ind u < length (os_argv u)" and
      p: "parse_long longopts u = (r, s') \<or>
          parse_short optstring (?arg ! 1) (drop 2 ?arg) u = (r, s') \<and> \<not> is_operand ?arg"
      by (auto simp: optparse_long_def n u_def Let_def simp flip: t_def split: if_splits)
    have ru: "opt_rank u = opt_rank t" "started u" "opt_ind u \<noteq> 0" "nextchar u = None"
      using False t by (auto simp: u_def opt_rank_def split: option.splits list.splits)
    have "(s', u) \<in> opt_less \<and> started s' \<and> opt_ind s' \<noteq> 0"
      using p
    proof
      assume "parse_long longopts u = (r, s')"
      from parse_long_frame [OF this] ru(2-4) l show ?thesis
        by (auto simp: opt_less_def opt_rank_def)
    next
      assume "parse_short optstring (?arg ! 1) (drop 2 ?arg) u = (r, s') \<and> \<not> is_operand ?arg"
      moreover define rest where "rest = drop 2 ?arg"
      ultimately have "parse_short optstring (?arg ! 1) rest u = (r, s')" "length rest < length ?arg"
        by (cases ?arg; auto simp: is_operand_def)+
      from parse_short_frame [OF this(1)] this(2) ru(2-4) l show ?thesis
        by (auto simp: opt_less_def opt_rank_def neq_Nil_conv)
    qed
    then show ?thesis using ru(1) by (simp add: opt_less_def)
  qed
  then have s': "(s', t) \<in> opt_less" "fst (opt_rank s') = 0"
    by (auto simp: opt_rank_def)
  from r show ?thesis
  proof
    assume "opt_rank t = opt_rank s"
    with s'(1) show ?thesis by (simp add: opt_less_def)
  next
    assume "opt_ind s = 0 \<or> \<not> started s"
    then have "fst (opt_rank s) = 1" by (auto simp: opt_rank_def)
    with s'(2) show ?thesis
      by (cases "opt_rank s"; cases "opt_rank s'") (simp add: opt_less_def)
  qed
qed

text \<open>
  What one parse of the command line delivers: the results up to \<^verbatim>\<open>-1\<close>, each with the
  \<^verbatim>\<open>opt_arg\<close>, \<^verbatim>\<open>opt_name\<close> and \<^verbatim>\<open>opt_opt\<close> the caller finds, and the last state.
\<close>

type_synonym opt_event = "int \<times> string option \<times> string option \<times> int"

function opt_all :: "string \<Rightarrow> opt_option list option \<Rightarrow> optstate \<Rightarrow> opt_event list \<times> optstate" where
  "opt_all optstring longopts s =
     (case optparse_long optstring longopts s of (r, s') \<Rightarrow>
        if r = -1 then ([], s')
        else apfst ((#) (r, opt_arg s', opt_name s', opt_opt s')) (opt_all optstring longopts s'))"
  by pat_completeness auto
termination
  by (relation "inv_image opt_less (\<lambda>(os, lo, s). s)") (auto dest: optparse_long_progress [OF sym])

declare opt_all.simps [simp del]

subsection \<open>The operands are the arguments that remain\<close>

text \<open>
  No option lacks its argument at the end of the command line.
\<close>

fun complete :: "string \<Rightarrow> opt_option list option \<Rightarrow> string list \<Rightarrow> bool" where
  "complete optstring longopts [] = True"
| "complete optstring longopts (a # as) =
     (if a = ''--'' then True
      else if is_operand a then complete optstring longopts as
      else if takes_next optstring longopts a then as \<noteq> [] \<and> complete optstring longopts (tl as)
      else complete optstring longopts as)"

text \<open>\<open>opts_ok Os P\<close>: the options \<open>Os\<close> come first and the parse stops at the operands \<open>P\<close>.\<close>

fun opts_ok :: "string \<Rightarrow> opt_option list option \<Rightarrow> string list \<Rightarrow> string list \<Rightarrow> bool" where
  "opts_ok optstring longopts [] P = (P = [] \<or> is_operand (hd P))"
| "opts_ok optstring longopts (a # as) P =
     (if a = ''--'' then as = []
      else \<not> is_operand a \<and>
        (if takes_next optstring longopts a then as \<noteq> [] \<and> opts_ok optstring longopts (tl as) P
         else opts_ok optstring longopts as P))"

lemma opts_ok_operand: "is_operand a \<Longrightarrow> opts_ok os lo Os P \<Longrightarrow> opts_ok os lo Os (a # P)"
  by (induction os lo Os P rule: opts_ok.induct) auto

lemma split_args_ok:
  "complete os lo args \<Longrightarrow> opts_ok os lo (fst (split_args os lo args)) (snd (split_args os lo args))"
proof (induction os lo args rule: split_args.induct)
  case (2 os lo a as)
  consider "a = ''--''" | "a \<noteq> ''--''" "is_operand a"
    | "a \<noteq> ''--''" "\<not> is_operand a" "takes_next os lo a" | "a \<noteq> ''--''" "\<not> is_operand a" "\<not> takes_next os lo a"
    by blast
  then show ?case
    by cases (use 2 in \<open>simp_all add: opts_ok_operand\<close>)
qed simp

definition opts_inv :: "string \<Rightarrow> opt_option list option \<Rightarrow> optstate \<Rightarrow> string list \<Rightarrow> string list \<Rightarrow> bool" where
  "opts_inv optstring longopts s Os P \<longleftrightarrow> started s \<and> opt_ind s \<noteq> 0 \<and>
     (case nextchar s of
        Some (c # cs) \<Rightarrow>
          (\<exists>a. drop (opt_ind s) (os_argv s) = a # Os @ P) \<and>
          (if cluster_takes_arg (c # cs) optstring then Os \<noteq> [] \<and> opts_ok optstring longopts (tl Os) P
           else opts_ok optstring longopts Os P)
      | _ \<Rightarrow> drop (opt_ind s) (os_argv s) = Os @ P \<and> opts_ok optstring longopts Os P)"

definition opt_error :: "int \<Rightarrow> bool" where
  "opt_error r \<longleftrightarrow> r \<in> {ret_unknown, ret_missing, ret_excess}"

lemma drop_Suc_tl: "drop n xs = y # ys \<Longrightarrow> drop (Suc n) xs = ys"
  by (metis drop_Suc list.sel(3) tl_drop)

lemma parse_short_inv:
  assumes "parse_short optstring c cs s = (r, s')" and "\<not> opt_error r"
    and "started s" and "opt_ind s \<noteq> 0"
    and d: "drop (opt_ind s) (os_argv s) = a # Os @ P"
    and ok: "if cluster_takes_arg (c # cs) optstring then Os \<noteq> [] \<and> opts_ok optstring longopts (tl Os) P
       else opts_ok optstring longopts Os P"
  shows "\<exists>Os'. opts_inv optstring longopts s' Os' P"
proof -
  have d1: "drop (Suc (opt_ind s)) (os_argv s) = Os @ P" using d by (rule drop_Suc_tl)
  from assms(1,2) obtain i where c: "c \<noteq> CHR '':''" "strchr optstring c = Some i"
    by (auto simp: parse_short_def opt_error_def split: option.splits if_splits)
  consider (none) "char_at optstring (Suc i) \<noteq> Some (CHR '':'')"
    | (attached) "char_at optstring (Suc i) = Some (CHR '':'')" "cs \<noteq> []"
    | (opt) "char_at optstring (Suc i) = Some (CHR '':'')" "cs = []" "char_at optstring (Suc (Suc i)) = Some (CHR '':'')"
    | (req) "char_at optstring (Suc i) = Some (CHR '':'')" "cs = []" "char_at optstring (Suc (Suc i)) \<noteq> Some (CHR '':'')"
    by blast
  then show ?thesis
  proof cases
    case none
    then show ?thesis
      using assms c d1 by (cases cs) (auto simp: parse_short_def opts_inv_def intro!: exI [of _ Os])
  next
    case attached
    then show ?thesis
      using assms c d1 by (auto simp: parse_short_def opts_inv_def split: if_splits intro!: exI [of _ Os])
  next
    case opt
    then show ?thesis
      using assms c d1 by (auto simp: parse_short_def opts_inv_def intro!: exI [of _ Os])
  next
    case req
    then have Os: "Os \<noteq> []" "opts_ok optstring longopts (tl Os) P" using ok c by simp_all
    then obtain b Os' where b: "Os = b # Os'" by (cases Os) auto
    have "Suc (opt_ind s) < length (os_argv s)"
      using d1 b by (metis append_Cons drop_all leI list.distinct(1))
    moreover have "drop (Suc (Suc (opt_ind s))) (os_argv s) = Os' @ P"
      using d1 b by (metis append_Cons drop_Suc_tl)
    ultimately show ?thesis
      using assms(1,3,4) req c Os b by (auto simp: parse_short_def opts_inv_def intro!: exI [of _ Os'])
  qed
qed

lemma find_index_find:
  "find_index P xs = Some k \<Longrightarrow> k < length xs \<and> P (xs ! k) \<and> find P xs = Some (xs ! k)"
  by (induction xs arbitrary: k) (auto split: if_splits)

lemma find_index_None: "find_index P xs = None \<Longrightarrow> find P xs = None"
  by (induction xs) (auto split: if_splits)

lemma long_find_takes_arg:
  assumes "long_find (Some los) name = Some k"
  shows "long_takes_arg name (Some los) \<longleftrightarrow>
     lo_has_arg (los ! k) = OPT_REQUIRED \<and> strchr name (CHR ''='') = None"
proof (cases "strchr name (CHR ''='')")
  case None
  have "(\<lambda>lo. length (lo_name lo) = length name \<and> lo_name lo = take (length name) name) =
      (\<lambda>lo :: opt_option. lo_name lo = name)" by auto
  with None assms show ?thesis
    by (auto simp: long_find_def long_takes_arg_def dest!: find_index_find)
qed (simp add: long_takes_arg_def)

lemma long_finish_state:
  "long_finish lo s = (r, s') \<Longrightarrow>
     os_argv s' = os_argv s \<and> opt_ind s' = opt_ind s \<and> nextchar s' = nextchar s \<and> started s' = started s"
  by (auto simp: long_finish_def split: option.splits)

lemma parse_long_inv:
  assumes pl: "parse_long longopts s = (r, s')" and e: "\<not> opt_error r"
    and s: "started s" "opt_ind s \<noteq> 0" and n: "nextchar s = None"
    and d: "drop (opt_ind s) (os_argv s) = a # Os @ P"
    and ok: "if long_takes_arg (drop 2 a) longopts then Os \<noteq> [] \<and> opts_ok optstring longopts (tl Os) P
       else opts_ok optstring longopts Os P"
  shows "\<exists>Os'. opts_inv optstring longopts s' Os' P"
proof -
  have d1: "drop (Suc (opt_ind s)) (os_argv s) = Os @ P" using d by (rule drop_Suc_tl)
  have a: "os_argv s ! opt_ind s = a"
    using d by (metis nth_via_drop)
  from pl e obtain k where k: "long_find longopts (drop 2 a) = Some k"
    by (auto simp: parse_long_def Let_def a opt_error_def split: option.splits)
  then obtain los where los: "longopts = Some los"
    by (auto simp: long_find_def split: option.splits)
  define lo t where "lo = los ! k" and
    "t = s\<lparr>opt_name := Some (lo_name lo), opt_ind := opt_ind s + 1, longindex := int k\<rparr>"
  define eq where "eq = map_option (\<lambda>k. drop (k + 1) (drop 2 a)) (strchr (drop 2 a) (CHR ''=''))"
  have lv: "long_value lo eq t = (r, s')"
    using pl k los by (simp add: parse_long_def Let_def a lo_def t_def eq_def)
  have takes: "long_takes_arg (drop 2 a) longopts \<longleftrightarrow> lo_has_arg lo = OPT_REQUIRED \<and> eq = None"
    using long_find_takes_arg [of los "drop 2 a" k] k los by (simp add: lo_def eq_def)
  have t: "started t" "opt_ind t = Suc (opt_ind s)" "nextchar t = None" "os_argv t = os_argv s"
    using s n by (simp_all add: t_def)
  show ?thesis
  proof (cases "lo_has_arg lo = OPT_REQUIRED \<and> eq = None")
    case True
    with ok takes obtain b Os' where b: "Os = b # Os'" "opts_ok optstring longopts Os' P" by (cases Os) auto
    have "Suc (opt_ind s) < length (os_argv s)"
      using d1 b by (metis append_Cons drop_all leI list.distinct(1))
    then have "long_finish lo (t\<lparr>opt_arg := Some (os_argv t ! opt_ind t), opt_ind := opt_ind t + 1\<rparr>) = (r, s')"
      using lv True t by (simp add: long_value_def)
    moreover have "drop (Suc (Suc (opt_ind s))) (os_argv s) = Os' @ P"
      using d1 b by (metis append_Cons drop_Suc_tl)
    ultimately have "opts_inv optstring longopts s' Os' P"
      using t b(2) by (simp add: opts_inv_def long_finish_state [of lo _ r s'])
    then show ?thesis ..
  next
    case False
    with ok takes have "opts_ok optstring longopts Os P" by simp
    moreover from lv e False obtain t' where "long_finish lo t' = (r, s')" "os_argv t' = os_argv t"
        "opt_ind t' = opt_ind t" "nextchar t' = nextchar t" "started t' = started t"
      by (auto simp: long_value_def opt_error_def split: arg_kind.splits option.splits if_splits)
    ultimately have "opts_inv optstring longopts s' Os P"
      using t d1 by (simp add: opts_inv_def long_finish_state [of lo _ r s'])
    then show ?thesis ..
  qed
qed

lemma parse_long_val:
  assumes "parse_long longopts s = (r, s')" and "\<not> opt_error r"
    and "\<forall>los. longopts = Some los \<longrightarrow> (\<forall>lo \<in> set los. lo_val lo \<noteq> -1)"
  shows "r \<noteq> -1"
proof -
  from assms(1,2) obtain k where k: "long_find longopts (drop 2 (os_argv s ! opt_ind s)) = Some k"
    by (auto simp: parse_long_def Let_def opt_error_def split: option.splits)
  then obtain los where los: "longopts = Some los"
    by (auto simp: long_find_def split: option.splits)
  with k have "los ! k \<in> set los"
    by (auto simp: long_find_def Let_def dest!: find_index_find)
  with assms los have "lo_val (los ! k) \<noteq> -1" by blast
  with assms(1,2) k los show ?thesis
    by (auto simp: parse_long_def Let_def long_value_def long_finish_def opt_error_def ret_missing_def ret_excess_def
        split: arg_kind.splits option.splits if_splits)
qed

lemma of_char_not_minus_one: "(of_char c :: int) \<noteq> -1"
proof -
  have "0 \<le> (of_char c :: int)" by (simp add: of_char_int)
  then show ?thesis by linarith
qed

lemma parse_short_val: "parse_short optstring c rest s = (r, s') \<Longrightarrow> r \<noteq> -1"
  by (auto simp: parse_short_def of_char_not_minus_one ret_unknown_def ret_missing_def split: option.splits if_splits)

lemma optparse_long_inv:
  assumes inv: "opts_inv optstring longopts s Os P"
    and r: "optparse_long optstring longopts s = (r, s')" "\<not> opt_error r"
    and vals: "\<forall>los. longopts = Some los \<longrightarrow> (\<forall>lo \<in> set los. lo_val lo \<noteq> -1)"
  shows "if r = -1 then drop (opt_ind s') (os_argv s') = P else (\<exists>Os'. opts_inv optstring longopts s' Os' P)"
proof -
  define t where "t = s\<lparr>opt_arg := None, opt_name := None\<rparr>"
  have t: "opt_start optstring longopts (opt_reset t) = t" "started t" "opt_ind t \<noteq> 0"
    using inv by (simp_all add: t_def opt_start_def opt_reset_def opts_inv_def)
  have inv': "opts_inv optstring longopts t Os P"
    using inv by (auto simp: t_def opts_inv_def split: option.splits list.splits)
  show ?thesis
  proof (cases "\<exists>c cs. nextchar t = Some (c # cs)")
    case True
    then obtain c cs where n: "nextchar t = Some (c # cs)" by blast
    with r t have p: "parse_short optstring c cs t = (r, s')"
      by (simp add: optparse_long_def Let_def flip: t_def)
    from inv' n obtain a where "drop (opt_ind t) (os_argv t) = a # Os @ P"
        "if cluster_takes_arg (c # cs) optstring then Os \<noteq> [] \<and> opts_ok optstring longopts (tl Os) P
         else opts_ok optstring longopts Os P"
      by (auto simp: opts_inv_def)
    from parse_short_inv [OF p r(2) t(2,3) this] parse_short_val [OF p] show ?thesis by simp
  next
    case False
    define u where "u = t\<lparr>nextchar := None\<rparr>"
    have u: "started u" "opt_ind u \<noteq> 0" "nextchar u = None"
        "drop (opt_ind u) (os_argv u) = Os @ P" "opts_ok optstring longopts Os P"
      using inv' False t by (auto simp: u_def opts_inv_def split: option.splits list.splits)
    have eqn: "optparse_long optstring longopts s =
       (if length (os_argv u) \<le> opt_ind u then (-1, u)
        else let arg = os_argv u ! opt_ind u in
            if is_operand arg then (-1, u)
            else if char_at arg 1 = Some (CHR ''-'') then
              (if length arg = 2 then (-1, u\<lparr>opt_ind := opt_ind u + 1\<rparr>) else parse_long longopts u)
            else parse_short optstring (arg ! 1) (drop 2 arg) u)"
      using False t(1) unfolding optparse_long_def Let_def
      by (auto simp: u_def simp flip: t_def split: option.splits list.splits)
    show ?thesis
    proof (cases Os)
      case Nil
      then show ?thesis
        using u(4,5) r(1) unfolding eqn
        by (cases P) (auto simp: Let_def nth_via_drop split: if_splits)
    next
      case (Cons a Os')
      then have d: "drop (opt_ind u) (os_argv u) = a # Os' @ P" using u(4) by simp
      then have a: "os_argv u ! opt_ind u = a" "\<not> length (os_argv u) \<le> opt_ind u"
        by (auto simp: nth_via_drop)
      show ?thesis
      proof (cases "a = ''--''")
        case True
        then have "Os' = []" "r = -1" "s' = u\<lparr>opt_ind := opt_ind u + 1\<rparr>"
          using u(5) Cons r(1) a unfolding eqn by (simp_all add: is_operand_def char_at_def)
        then show ?thesis using d drop_Suc_tl [OF d] by simp
      next
        case False
        then have op: "\<not> is_operand a"
          and ok: "if takes_next optstring longopts a then Os' \<noteq> [] \<and> opts_ok optstring longopts (tl Os') P
             else opts_ok optstring longopts Os' P"
          using u(5) Cons by simp_all
        from op obtain c0 cs where ac: "a = CHR ''-'' # c0 # cs"
          by (cases a; cases "tl a") (auto simp: is_operand_def)
        show ?thesis
        proof (cases "c0 = CHR ''-''")
          case True
          then have p: "parse_long longopts u = (r, s')"
            using r(1) a False op ac unfolding eqn by (auto simp: char_at_def)
          have "if long_takes_arg (drop 2 a) longopts then Os' \<noteq> [] \<and> opts_ok optstring longopts (tl Os') P
              else opts_ok optstring longopts Os' P"
            using ok True ac by (simp add: takes_next_def char_at_def)
          from parse_long_inv [OF p r(2) u(1-3) d this] parse_long_val [OF p r(2) vals] show ?thesis by simp
        next
          case short: False
          then have p: "parse_short optstring c0 cs u = (r, s')"
            using r(1) a op ac unfolding eqn by (auto simp: char_at_def)
          have "if cluster_takes_arg (c0 # cs) optstring then Os' \<noteq> [] \<and> opts_ok optstring longopts (tl Os') P
              else opts_ok optstring longopts Os' P"
            using ok short ac by (simp add: takes_next_def char_at_def)
          from parse_short_inv [OF p r(2) u(1,2) d this] parse_short_val [OF p] show ?thesis by simp
        qed
      qed
    qed
  qed
qed

lemma opt_all_operands:
  assumes "\<forall>los. longopts = Some los \<longrightarrow> (\<forall>lo \<in> set los. lo_val lo \<noteq> -1)"
  shows "opts_inv optstring longopts s Os P \<Longrightarrow> opt_all optstring longopts s = (evs, s') \<Longrightarrow>
     \<forall>ev \<in> set evs. \<not> opt_error (fst ev) \<Longrightarrow> drop (opt_ind s') (os_argv s') = P"
  using assms
proof (induction optstring longopts s arbitrary: Os evs rule: opt_all.induct)
  case (1 optstring longopts s)
  obtain r t where rt: "optparse_long optstring longopts s = (r, t)" by fastforce
  show ?case
  proof (cases "r = -1")
    case True
    then have "\<not> opt_error r" by (simp add: opt_error_def ret_unknown_def ret_missing_def ret_excess_def)
    from optparse_long_inv [OF "1.prems"(1) rt this "1.prems"(4)] True "1.prems"(2) rt show ?thesis
      by (simp add: opt_all.simps)
  next
    case False
    then obtain evs' where evs: "opt_all optstring longopts t = (evs', s')"
        "evs = (r, opt_arg t, opt_name t, opt_opt t) # evs'"
      using "1.prems"(2) rt by (cases "opt_all optstring longopts t") (simp add: opt_all.simps [of _ _ s])
    with "1.prems"(3) have "\<not> opt_error r" "\<forall>ev \<in> set evs'. \<not> opt_error (fst ev)" by auto
    moreover from this(1) obtain Os' where "opts_inv optstring longopts t Os' P"
      using optparse_long_inv [OF "1.prems"(1) rt _ "1.prems"(4)] False by auto
    ultimately show ?thesis
      using "1.IH" [OF rt [symmetric] False] evs(1) "1.prems"(4) by blast
  qed
qed

lemma optparse_long_started:
  assumes "opt_ind s \<noteq> 0" and "\<not> started s"
  shows "optparse_long optstring longopts s =
     optparse_long optstring longopts (s\<lparr>os_argv := permute optstring longopts (os_argv s), started := True\<rparr>)"
proof -
  let ?t = "s\<lparr>os_argv := permute optstring longopts (os_argv s), started := True\<rparr>"
  have "opt_start optstring longopts (opt_reset (s\<lparr>opt_arg := None, opt_name := None\<rparr>)) =
      opt_start optstring longopts (opt_reset (?t\<lparr>opt_arg := None, opt_name := None\<rparr>))"
    using assms by (simp add: opt_start_def opt_reset_def)
  then show ?thesis by (simp only: optparse_long_def)
qed

lemma optparse_operands:
  assumes "complete optstring longopts args"
    and "\<forall>los. longopts = Some los \<longrightarrow> (\<forall>lo \<in> set los. lo_val lo \<noteq> -1)"
    and "opt_all optstring longopts (opt_init (prog # args)) = (evs, s')"
    and "\<forall>ev \<in> set evs. \<not> opt_error (fst ev)"
  shows "drop (opt_ind s') (os_argv s') = snd (split_args optstring longopts args)"
proof -
  let ?s = "opt_init (prog # args)"
  let ?t = "?s\<lparr>os_argv := permute optstring longopts (os_argv ?s), started := True\<rparr>"
  have "optparse_long optstring longopts ?s = optparse_long optstring longopts ?t"
    by (rule optparse_long_started) (simp_all add: opt_init_def)
  then have "opt_all optstring longopts ?t = (evs, s')"
    using assms(3) by (simp add: opt_all.simps [of _ _ ?s] opt_all.simps [of _ _ ?t])
  moreover have "opts_inv optstring longopts ?t (fst (split_args optstring longopts args))
      (snd (split_args optstring longopts args))"
    using split_args_ok [OF assms(1)] by (simp add: opts_inv_def opt_init_def permute_split)
  ultimately show ?thesis
    using opt_all_operands [OF assms(2)] assms(4) by blast
qed

end
