(* ===== verification/Options.thy ===== *)
theory Options
  imports Optparse "HOL-Library.Multiset"
begin

text \<open>
  \<^verbatim>\<open>src/options.c\<close>: the option table and what is derived from it, the tables of the parser and the
  help text. A function that prints returns the text it prints; a buffer with its fill is the
  text in it, and its size bounds what \<^verbatim>\<open>sappend\<close> adds.
\<close>

definition OPTVAL_HELP :: int where "OPTVAL_HELP = 256"

definition OPTVAL_VERSION :: int where "OPTVAL_VERSION = 257"

definition OPTVAL_REFERENCE :: int where "OPTVAL_REFERENCE = 258"

definition OPTVAL_TEMPLATE :: int where "OPTVAL_TEMPLATE = 259"

definition OPTVAL_BACKUP :: int where "OPTVAL_BACKUP = 260"

definition OPTVAL_SPARSE :: int where "OPTVAL_SPARSE = 261"

lemmas optvals = OPTVAL_HELP_def OPTVAL_VERSION_def OPTVAL_REFERENCE_def OPTVAL_TEMPLATE_def
  OPTVAL_BACKUP_def OPTVAL_SPARSE_def

record option_def =
  od_name :: "string option"
  od_argname :: "string option"
  od_desc :: string
  od_val :: int
  od_has_arg :: arg_kind
  od_in_synopsis :: bool

definition mk_option :: "string option \<Rightarrow> string option \<Rightarrow> string \<Rightarrow> int \<Rightarrow> arg_kind \<Rightarrow> bool \<Rightarrow> option_def" where
  "mk_option n a d v h s =
     \<lparr>od_name = n, od_argname = a, od_desc = d, od_val = v, od_has_arg = h, od_in_synopsis = s\<rparr>"

definition options :: "option_def list" where
  "options =
     [mk_option (Some ''mode'') (Some ''mode'') ''set file permission bits (octal or symbolic)''
        (of_char (CHR ''m'')) OPT_REQUIRED True,
      mk_option (Some ''owner'') (Some ''owner[:group]'') ''set file ownership (may require privileges)''
        (of_char (CHR ''o'')) OPT_REQUIRED True,
      mk_option (Some ''reference'') (Some ''file'')
        (''use file'' @ [CHR 0x27] @ ''s mode instead of specifying -m'') OPTVAL_REFERENCE OPT_REQUIRED True,
      mk_option (Some ''size'') (Some ''size'') ''fill file with NUL bytes to size''
        (of_char (CHR ''s'')) OPT_REQUIRED True,
      mk_option (Some ''sparse'') None ''with -s, create a sparse file instead'' OPTVAL_SPARSE OPT_NONE True,
      mk_option (Some ''template'') (Some ''file'') ''copy content from file (- for stdin)''
        OPTVAL_TEMPLATE OPT_REQUIRED True,
      mk_option (Some ''parents'') None ''create parent directories as needed''
        (of_char (CHR ''p'')) OPT_NONE True,
      mk_option (Some ''force'') None ''replace the file if it already exists''
        (of_char (CHR ''f'')) OPT_NONE True,
      mk_option (Some ''backup'') (Some ''control'') ''make backup before replacing with -f''
        OPTVAL_BACKUP OPT_OPTIONAL False,
      mk_option None None ''like --backup with no control argument'' (of_char (CHR ''b'')) OPT_NONE True,
      mk_option (Some ''absolute'') None ''apply the file mode exactly, bypassing the umask''
        (of_char (CHR ''A'')) OPT_NONE True,
      mk_option (Some ''verbose'') None ''explain what is being done'' (of_char (CHR ''v'')) OPT_NONE True,
      mk_option (Some ''help'') None ''display this help and exit'' OPTVAL_HELP OPT_NONE False,
      mk_option (Some ''version'') None ''output version information and exit'' OPTVAL_VERSION OPT_NONE False]"

definition NOPTIONS :: nat where "NOPTIONS = length options"

subsection \<open>The tables of the parser\<close>

definition optstring_entry :: "option_def \<Rightarrow> string" where
  "optstring_entry od =
     (if od_val od < OPTVAL_HELP then
        char_of (od_val od) # (if od_has_arg od \<noteq> OPT_NONE then [CHR '':''] else []) @
          (if od_has_arg od = OPT_OPTIONAL then [CHR '':''] else [])
      else [])"

definition long_entry :: "option_def \<Rightarrow> opt_option list" where
  "long_entry od =
     (case od_name od of
        None \<Rightarrow> []
      | Some n \<Rightarrow> [\<lparr>lo_name = n, lo_flag = None, lo_has_arg = od_has_arg od, lo_val = od_val od\<rparr>])"

text \<open>
  \<^verbatim>\<open>build_tables\<close>: one pass over the table that appends to both results; the guard
  \<^verbatim>\<open>tables_built\<close> only avoids a second pass.
\<close>

definition build_tables :: "option_def list \<Rightarrow> string \<times> opt_option list" where
  "build_tables os =
     foldl (\<lambda>(optstring, long_opts) od. (optstring @ optstring_entry od, long_opts @ long_entry od)) ([], []) os"

definition options_optstring :: string where
  "options_optstring = fst (build_tables options)"

definition options_long :: "opt_option list" where
  "options_long = snd (build_tables options)"

subsection \<open>The width of the output\<close>

definition WIDTH_DEFAULT :: int where "WIDTH_DEFAULT = 80"

definition WIDTH_MIN :: int where "WIDTH_MIN = 40"

definition WIDTH_MAX :: int where "WIDTH_MAX = 1000"

definition out_width :: "string option \<Rightarrow> int" where
  "out_width env =
     (case env of
        None \<Rightarrow> WIDTH_DEFAULT
      | Some e \<Rightarrow>
          if e = [] \<or> (of_char (hd e) :: int) < 48 \<or> 57 < (of_char (hd e) :: int) then WIDTH_DEFAULT
          else case strtol 10 e of (val, endp, erange) \<Rightarrow>
            if erange \<or> endp \<noteq> [] \<or> val < WIDTH_MIN \<or> WIDTH_MAX < val then WIDTH_DEFAULT else val)"

subsection \<open>Text\<close>

fun sappend :: "nat \<Rightarrow> string \<Rightarrow> string \<Rightarrow> string" where
  "sappend bufsz buf [] = buf"
| "sappend bufsz buf (c # s) = (if length buf + 1 < bufsz then sappend bufsz (buf @ [c]) s else buf)"

definition SPEC_MAX :: nat where "SPEC_MAX = 128"

definition SYNOPSIS_MAX :: nat where "SYNOPSIS_MAX = NOPTIONS * 64 + 16"

definition push_char :: "nat \<Rightarrow> string \<Rightarrow> int \<Rightarrow> string" where
  "push_char bufsz buf v = (if length buf + 1 < bufsz then buf @ [char_of v] else buf)"

definition option_spec :: "nat \<Rightarrow> option_def \<Rightarrow> string" where
  "option_spec bufsz opt =
     (let b0 = (if od_val opt < OPTVAL_HELP then
                  (let b = push_char bufsz (sappend bufsz [] ''  -'') (od_val opt)
                   in if od_name opt \<noteq> None then sappend bufsz b '', '' else b)
                else sappend bufsz [] ''      '');
          b1 = (case od_name opt of
                  None \<Rightarrow> b0
                | Some n \<Rightarrow> sappend bufsz (sappend bufsz b0 ''--'') n);
          argname = (case od_argname opt of Some a \<Rightarrow> a | None \<Rightarrow> [])
      in case od_has_arg opt of
           OPT_REQUIRED \<Rightarrow> sappend bufsz (sappend bufsz b1 ''='') argname
         | OPT_OPTIONAL \<Rightarrow> sappend bufsz (sappend bufsz (sappend bufsz b1 ''[='') argname) '']''
         | OPT_NONE \<Rightarrow> b1)"

text \<open>The loop of \<^verbatim>\<open>put_wrapped\<close>, a word at a time, and the final newline.\<close>

definition is_blank :: "char \<Rightarrow> bool" where
  "is_blank c \<longleftrightarrow> c = CHR '' ''"

function put_words :: "nat \<Rightarrow> nat \<Rightarrow> nat \<Rightarrow> string \<Rightarrow> string" where
  "put_words indent width col text =
     (let gap = length (takeWhile is_blank text);
          rest = dropWhile is_blank text
      in if rest = [] then []
         else
           (let word = takeWhile (\<lambda>c. \<not> is_blank c) rest;
                text' = dropWhile (\<lambda>c. \<not> is_blank c) rest;
                len = length word
            in if indent < col then
                 (if width < col + gap + len
                  then nl @ replicate indent (CHR '' '') @ word @ put_words indent width (indent + len) text'
                  else replicate gap (CHR '' '') @ word @ put_words indent width (col + gap + len) text')
               else word @ put_words indent width (col + len) text'))"
  by pat_completeness auto

lemma put_words_shrinks:
  "dropWhile is_blank t \<noteq> [] \<Longrightarrow>
     length (dropWhile (\<lambda>c. \<not> is_blank c) (dropWhile is_blank t)) < length t"
proof -
  assume "dropWhile is_blank t \<noteq> []"
  then obtain c u where u: "dropWhile is_blank t = c # u" by (cases "dropWhile is_blank t") auto
  then have "\<not> is_blank c" by (metis hd_dropWhile_not list.distinct(1) list.sel(1))
  then have "length (dropWhile (\<lambda>c. \<not> is_blank c) (c # u)) \<le> length u"
    by (simp add: length_dropWhile_le)
  moreover have "length (c # u) \<le> length t" using u by (metis length_dropWhile_le)
  ultimately show ?thesis using u by simp
qed

termination put_words
  by (relation "measure (\<lambda>(i, w, c, t). length t)") (simp_all add: put_words_shrinks)

declare put_words.simps [simp del]

definition put_wrapped :: "string \<Rightarrow> nat \<Rightarrow> nat \<Rightarrow> nat \<Rightarrow> string" where
  "put_wrapped text indent col width = put_words indent width col text @ nl"

subsection \<open>The synopsis\<close>

text \<open>
  The two insertion sorts: the inner loop moves greater elements up until the place of
  \<^verbatim>\<open>held\<close> is found.
\<close>

fun shift_loop :: "('a \<Rightarrow> 'a \<Rightarrow> bool) \<Rightarrow> 'a \<Rightarrow> 'a list \<Rightarrow> nat \<Rightarrow> 'a list" where
  "shift_loop after held idx 0 = idx[0 := held]"
| "shift_loop after held idx (Suc j) =
     (if after (idx ! j) held then shift_loop after held (idx[Suc j := idx ! j]) j
      else idx[Suc j := held])"

definition insertion_sort :: "('a \<Rightarrow> 'a \<Rightarrow> bool) \<Rightarrow> 'a list \<Rightarrow> 'a list" where
  "insertion_sort after idx = foldl (\<lambda>a i. shift_loop after (a ! i) a i) idx [1..<length idx]"

definition opt_name_of :: "nat \<Rightarrow> string" where
  "opt_name_of i = (case od_name (options ! i) of Some n \<Rightarrow> n | None \<Rightarrow> [])"

definition idx_after :: "nat \<Rightarrow> nat \<Rightarrow> bool \<Rightarrow> bool" where
  "idx_after a b by_name =
     (if by_name then 0 < strcmp (opt_name_of a) (opt_name_of b)
      else od_val (options ! b) < od_val (options ! a))"

definition sort_idx :: "nat list \<Rightarrow> bool \<Rightarrow> nat list" where
  "sort_idx idx by_name = insertion_sort (\<lambda>a b. idx_after a b by_name) idx"

definition argname_of :: "nat \<Rightarrow> string" where
  "argname_of i = (case od_argname (options ! i) of Some a \<Rightarrow> a | None \<Rightarrow> [])"

definition synopsis_idx :: "(option_def \<Rightarrow> bool) \<Rightarrow> nat list" where
  "synopsis_idx P = filter (\<lambda>i. od_in_synopsis (options ! i) \<and> P (options ! i)) [0..<NOPTIONS]"

definition put_short :: "string \<Rightarrow> nat \<Rightarrow> string" where
  "put_short line i =
     (let l0 = (if line \<noteq> [] then sappend SYNOPSIS_MAX line '' '' else line);
          l1 = push_char SYNOPSIS_MAX (sappend SYNOPSIS_MAX l0 ''[-'') (od_val (options ! i));
          l2 = sappend SYNOPSIS_MAX (sappend SYNOPSIS_MAX l1 '' '') (argname_of i)
      in sappend SYNOPSIS_MAX l2 '']'')"

definition put_long :: "string \<Rightarrow> nat \<Rightarrow> string" where
  "put_long line i =
     (let l0 = (if line \<noteq> [] then sappend SYNOPSIS_MAX line '' '' else line);
          l1 = sappend SYNOPSIS_MAX (sappend SYNOPSIS_MAX l0 ''[--'') (opt_name_of i);
          l2 = (case od_has_arg (options ! i) of
                  OPT_REQUIRED \<Rightarrow> sappend SYNOPSIS_MAX (sappend SYNOPSIS_MAX l1 ''='') (argname_of i)
                | OPT_OPTIONAL \<Rightarrow>
                    sappend SYNOPSIS_MAX (sappend SYNOPSIS_MAX (sappend SYNOPSIS_MAX l1 ''[='') (argname_of i)) '']''
                | OPT_NONE \<Rightarrow> l1)
      in sappend SYNOPSIS_MAX l2 '']'')"

definition synopsis_line :: string where
  "synopsis_line =
     (let cluster = insertion_sort (\<lambda>a b. (of_char b :: int) < of_char a)
            (map (\<lambda>i. char_of (od_val (options ! i)))
              (synopsis_idx (\<lambda>od. \<not> OPTVAL_HELP \<le> od_val od \<and> od_has_arg od = OPT_NONE)));
          shorts = sort_idx (synopsis_idx (\<lambda>od. \<not> OPTVAL_HELP \<le> od_val od \<and> od_has_arg od \<noteq> OPT_NONE)) False;
          longs = sort_idx (synopsis_idx (\<lambda>od. OPTVAL_HELP \<le> od_val od)) True;
          l0 = (if cluster \<noteq> []
                then sappend SYNOPSIS_MAX (sappend SYNOPSIS_MAX (sappend SYNOPSIS_MAX [] ''[-'') cluster) '']''
                else []);
          l1 = foldl put_short l0 shorts;
          l2 = foldl put_long l1 longs;
          l3 = (if l2 \<noteq> [] then sappend SYNOPSIS_MAX l2 '' '' else l2)
      in sappend SYNOPSIS_MAX l3 ''file ...'')"

definition put_synopsis :: "string \<Rightarrow> nat \<Rightarrow> string" where
  "put_synopsis program_name width =
     (let head = ''usage: '' @ program_name @ '' ''; indent = length ''usage: '' + length program_name + 1
      in head @ put_wrapped synopsis_line indent indent width)"

subsection \<open>The help and the version\<close>

definition help_notes :: "string list" where
  "help_notes =
     [''Long options must be spelled in full.'',
      [],
      ''mode is octal (e.g. 0755) or symbolic (e.g. u=rwx,g=rx,o=r).'',
      ''Symbolic format: [ugoa...][=+-][rwxst...][,...]'',
      ''Default mode is a=rw if -m is not specified.'',
      [],
      ''With -s, the file is filled with NUL bytes by default.'',
      ''Use --sparse to create a sparse (hole) file instead.'',
      [],
      ''Backup control values: none (or off), numbered (or t),'',
      ''existing (or nil), simple (or never).'',
      ''Default control value is $VERSION_CONTROL, or '' @ [CHR 0x27] @ ''existing'' @ [CHR 0x27] @ '' if unset.'',
      [],
      ''By default, an existing file is never touched.  Use -f to replace it.'',
      ''A file appears with its final mode, owner and content, or not at all.'',
      ''When a filesystem cannot rename without replacing and the file cannot'',
      ''be hard-linked either, an empty file with mode 0600 holds the name'',
      ''until the finished file replaces it.'',
      []]"

text \<open>
  What \<^verbatim>\<open>options_usage\<close> and \<^verbatim>\<open>options_version\<close> print, by stream, and the status they exit with; the
  argument \<open>closed\<close> is what \<^verbatim>\<open>error_close_std\<close> returns.
\<close>

record printed =
  to_stdout :: string
  to_stderr :: string
  exit_status :: int

definition EXIT_SUCCESS :: int where "EXIT_SUCCESS = 0"

definition EXIT_FAILURE :: int where "EXIT_FAILURE = 1"

definition desc_col :: nat where
  "desc_col = foldl (\<lambda>m od. if m < length (option_spec SPEC_MAX od) then length (option_spec SPEC_MAX od) else m) 0 options + 2"

definition put_option :: "nat \<Rightarrow> option_def \<Rightarrow> string" where
  "put_option width od =
     (let spec = option_spec SPEC_MAX od
      in spec @ replicate (desc_col - length spec) (CHR '' '') @ put_wrapped (od_desc od) desc_col desc_col width)"

definition BUG_URL :: string where
  "BUG_URL = ''https://github.com/arixsnow/newfile/issues''"

definition options_usage :: "string option \<Rightarrow> string \<Rightarrow> bool \<Rightarrow> int \<Rightarrow> printed" where
  "options_usage columns program_name closed status =
     (let width = nat (out_width columns);
          synopsis = put_synopsis program_name width
      in if status \<noteq> EXIT_SUCCESS
         then \<lparr>to_stdout = [], to_stderr = synopsis, exit_status = status\<rparr>
         else \<lparr>to_stdout = synopsis @ nl @ ''Create files with specified attributes.'' @ nl @ nl @
                  concat (map (put_option width) options) @ nl @
                  concat (map (\<lambda>n. put_wrapped n 0 0 width) help_notes) @
                  put_wrapped (''Report bugs at: '' @ BUG_URL) 0 0 width,
               to_stderr = [],
               exit_status = (if closed then status else EXIT_FAILURE)\<rparr>)"

definition options_version :: "string \<Rightarrow> bool \<Rightarrow> printed" where
  "options_version VERSION closed =
     \<lparr>to_stdout = ''newfile '' @ VERSION @ nl @ ''Copyright (c) 2026 Arka Mondal.'' @ nl @
        ''License: BSD-3-Clause.'' @ nl,
      to_stderr = [],
      exit_status = (if closed then EXIT_SUCCESS else EXIT_FAILURE)\<rparr>"

subsection \<open>The buffers\<close>

lemma sappend_take: "sappend bufsz buf s = buf @ take (bufsz - 1 - length buf) s"
proof (induction bufsz buf s rule: sappend.induct)
  case (2 bufsz buf c s)
  show ?case
  proof (cases "length buf + 1 < bufsz")
    case True
    then have "bufsz - 1 - length buf = Suc (bufsz - 1 - length (buf @ [c]))" by simp
    then show ?thesis using 2 True by simp
  next
    case False
    then have "bufsz - 1 - length buf = 0" by simp
    then show ?thesis using False by simp
  qed
qed simp

lemma sappend_bound: "length buf < bufsz \<Longrightarrow> length (sappend bufsz buf s) < bufsz"
  by (auto simp: sappend_take)

lemma push_char_bound: "length buf < bufsz \<Longrightarrow> length (push_char bufsz buf v) < bufsz"
  by (simp add: push_char_def)

lemma option_spec_bound: "0 < bufsz \<Longrightarrow> length (option_spec bufsz od) < bufsz"
  by (cases "od_has_arg od"; cases "od_name od")
    (simp_all add: option_spec_def Let_def sappend_bound push_char_bound)

lemma option_spec_SPEC_MAX: "length (option_spec SPEC_MAX od) < SPEC_MAX"
  by (rule option_spec_bound) (simp add: SPEC_MAX_def)






subsection \<open>The insertion sorts\<close>

text \<open>
  What the two comparisons promise the sort: \<open>after\<close> is the strict part of a total preorder.
\<close>

locale sort_order =
  fixes after :: "'a \<Rightarrow> 'a \<Rightarrow> bool"
  assumes after_asym: "after x y \<Longrightarrow> \<not> after y x"
    and after_negtrans: "\<lbrakk>\<not> after x y; \<not> after y z\<rbrakk> \<Longrightarrow> \<not> after x z"
begin

fun ins_rev :: "'a \<Rightarrow> 'a list \<Rightarrow> 'a list" where
  "ins_rev held [] = [held]"
| "ins_rev held (x # xs) = (if after x held then x # ins_rev held xs else held # x # xs)"

abbreviation ordered :: "'a list \<Rightarrow> bool" where
  "ordered \<equiv> sorted_wrt (\<lambda>x y. \<not> after x y)"

lemma mset_ins_rev: "mset (ins_rev held xs) = add_mset held (mset xs)"
  by (induction xs) auto

lemma set_ins_rev: "set (ins_rev held xs) = insert held (set xs)"
  using mset_ins_rev by (metis set_mset_add_mset_insert set_mset_mset)

lemma ins_rev_ordered:
  "sorted_wrt (\<lambda>x y. \<not> after y x) xs \<Longrightarrow> sorted_wrt (\<lambda>x y. \<not> after y x) (ins_rev held xs)"
  by (induction xs) (auto simp: set_ins_rev dest: after_asym, metis after_negtrans)

lemma shift_loop_eq:
  "j < length idx \<Longrightarrow>
     shift_loop after held idx j = rev (ins_rev held (rev (take j idx))) @ drop (Suc j) idx"
proof (induction j arbitrary: idx)
  case 0
  then show ?case by (cases idx) auto
next
  case (Suc j)
  have rev_take: "rev (take (Suc j) idx) = idx ! j # rev (take j idx)"
    using Suc.prems by (simp add: take_Suc_conv_app_nth)
  have "drop (Suc j) (idx[Suc j := idx ! j]) = idx ! j # drop (Suc (Suc j)) idx"
    using Suc.prems by (simp add: Cons_nth_drop_Suc[symmetric])
  moreover have "shift_loop after held (idx[Suc j := idx ! j]) j
      = rev (ins_rev held (rev (take j idx))) @ drop (Suc j) (idx[Suc j := idx ! j])"
    using Suc.IH[of "idx[Suc j := idx ! j]"] Suc.prems by simp
  moreover have "idx[Suc j := held] = take (Suc j) idx @ held # drop (Suc (Suc j)) idx"
    using Suc.prems by (simp add: upd_conv_take_nth_drop)
  then have "idx[Suc j := held] = rev (rev (take (Suc j) idx)) @ held # drop (Suc (Suc j)) idx"
    by simp
  ultimately show ?case by (simp add: rev_take del: rev_rev_ident)
qed

lemma sort_step:
  assumes "i < length a" "ordered (take i a)"
  defines "b \<equiv> shift_loop after (a ! i) a i"
  shows "length b = length a" "mset b = mset a" "ordered (take (Suc i) b)"
proof -
  let ?p = "rev (ins_rev (a ! i) (rev (take i a)))"
  have b: "b = ?p @ drop (Suc i) a" using assms(1) by (simp add: b_def shift_loop_eq)
  have p: "mset ?p = mset (take (Suc i) a)"
    using assms(1) by (simp add: mset_ins_rev take_Suc_conv_app_nth)
  have lp: "length ?p = Suc i" using mset_eq_length[OF p] assms(1) by simp
  have m: "mset b = mset a"
    using b p by (metis append_take_drop_id mset_append)
  then show "mset b = mset a" .
  show "length b = length a" using mset_eq_length[OF m] .
  have "sorted_wrt (\<lambda>x y. \<not> after y x) (rev (take i a))" using assms(2) by (simp add: sorted_wrt_rev)
  then have "ordered ?p" by (simp add: sorted_wrt_rev ins_rev_ordered)
  then show "ordered (take (Suc i) b)" using b lp by simp
qed

lemma sort_prefix:
  "k \<le> length a \<Longrightarrow>
     (let b = foldl (\<lambda>a i. shift_loop after (a ! i) a i) a [1..<k]
      in length b = length a \<and> mset b = mset a \<and> ordered (take k b))"
proof (induction k)
  case (Suc k)
  let ?b = "foldl (\<lambda>a i. shift_loop after (a ! i) a i) a [1..<k]"
  show ?case
  proof (cases "k = 0")
    case True
    then show ?thesis using Suc.prems by (cases a) auto
  next
    case False
    then have "[1..<Suc k] = [1..<k] @ [k]" by simp
    then show ?thesis using Suc sort_step[of k ?b] by (simp add: Let_def)
  qed
qed simp

lemma insertion_sort_correct:
  "mset (insertion_sort after a) = mset a \<and> ordered (insertion_sort after a)"
  using sort_prefix[of "length a" a] by (auto simp: insertion_sort_def Let_def)

end

interpretation by_idx: sort_order "\<lambda>a b. idx_after a b by_name" for by_name
  by unfold_locales (auto simp: idx_after_def strcmp_gt_0)

interpretation by_char: sort_order "\<lambda>a b. (of_char b :: int) < of_char a"
  by unfold_locales auto

text \<open>
  C28. The insertion sort that orders the options of the synopsis returns the same options, each as
  often as before, and no option stands before one it should come after.
\<close>

theorem sort_idx_correct:
  "mset (sort_idx idx by_name) = mset idx \<and>
   sorted_wrt (\<lambda>a b. \<not> idx_after a b by_name) (sort_idx idx by_name)"
  unfolding sort_idx_def by (rule by_idx.insertion_sort_correct)

subsection \<open>Wrapping\<close>

text \<open>The words of a text: its maximal runs of characters that are not separators.\<close>

function tokens :: "(char \<Rightarrow> bool) \<Rightarrow> string \<Rightarrow> string list" where
  "tokens sep t =
     (let r = dropWhile sep t
      in if r = [] then []
         else takeWhile (\<lambda>c. \<not> sep c) r # tokens sep (dropWhile (\<lambda>c. \<not> sep c) r))"
  by pat_completeness auto

termination tokens
proof (relation "measure (\<lambda>(p, t). length t)")
  fix sep :: "char \<Rightarrow> bool" and t r
  assume r: "r = dropWhile sep t" "r \<noteq> []"
  from r(2) obtain c u where u: "r = c # u" by (metis list.exhaust)
  have "\<not> sep c" using r u by (metis hd_dropWhile_not list.sel(1))
  then have "length (dropWhile (\<lambda>c. \<not> sep c) r) \<le> length u" by (simp add: u length_dropWhile_le)
  moreover have "length r \<le> length t" using r(1) by (simp add: length_dropWhile_le)
  ultimately show "((sep, dropWhile (\<lambda>c. \<not> sep c) r), (sep, t)) \<in> measure (\<lambda>(p, t). length t)"
    using u by simp
qed simp

declare tokens.simps [simp del]

definition is_break :: "char \<Rightarrow> bool" where
  "is_break c \<longleftrightarrow> is_blank c \<or> c = CHR 10"

lemma tokens_gap: "list_all sep g \<Longrightarrow> tokens sep (g @ t) = tokens sep t"
proof -
  assume "list_all sep g"
  then have "dropWhile sep (g @ t) = dropWhile sep t" by (simp add: dropWhile_append list_all_iff)
  then show ?thesis by (subst (1 2) tokens.simps) simp
qed

lemma tokens_word:
  assumes "list_all (\<lambda>c. \<not> sep c) w" "w \<noteq> []" "t = [] \<or> sep (hd t)"
  shows "tokens sep (w @ t) = w # tokens sep t"
proof -
  have "dropWhile sep (w @ t) = w @ t" using assms(1,2) by (cases w) auto
  moreover have "takeWhile (\<lambda>c. \<not> sep c) (w @ t) = w" "dropWhile (\<lambda>c. \<not> sep c) (w @ t) = t"
    using assms by (cases t; simp add: takeWhile_append dropWhile_append list_all_iff)+
  ultimately show ?thesis using assms(2) by (subst tokens.simps) simp
qed

lemma tokens_Nil [simp]: "tokens sep [] = []"
  by (subst tokens.simps) simp

lemma tokens_blank: "dropWhile sep t = [] \<Longrightarrow> tokens sep t = []"
  by (subst tokens.simps) simp

text \<open>
  A step of the wrapping takes the gap \<open>g\<close> and the word \<open>w\<close> off the text: the shape every branch
  of \<^const>\<open>put_words\<close> works on.
\<close>

lemma text_split:
  assumes "dropWhile is_blank t \<noteq> []"
  obtains g w t' where "t = g @ w @ t'" "g = takeWhile is_blank t" "list_all is_blank g"
    "w = takeWhile (\<lambda>c. \<not> is_blank c) (dropWhile is_blank t)" "list_all (\<lambda>c. \<not> is_blank c) w" "w \<noteq> []"
    "t' = dropWhile (\<lambda>c. \<not> is_blank c) (dropWhile is_blank t)" "t' = [] \<or> is_blank (hd t')"
    "length t' < length t"
proof -
  let ?r = "dropWhile is_blank t"
  obtain c u where u: "?r = c # u" using assms by (cases ?r) auto
  then have "\<not> is_blank c" by (metis hd_dropWhile_not list.distinct(1) list.sel(1))
  then have w: "takeWhile (\<lambda>c. \<not> is_blank c) ?r \<noteq> []" by (simp add: u)
  have "dropWhile (\<lambda>c. \<not> is_blank c) ?r = [] \<or> is_blank (hd (dropWhile (\<lambda>c. \<not> is_blank c) ?r))"
    using hd_dropWhile[of "\<lambda>c. \<not> is_blank c" ?r] by auto
  then show thesis
    using w put_words_shrinks[OF assms]
    by (intro that[OF _ refl _ refl _ _ refl]) (simp_all add: list_all_takeWhile_self)
qed

lemma put_words_end: "dropWhile is_blank t = [] \<Longrightarrow> put_words indent width col t = []"
  by (subst put_words.simps) simp

lemma put_words_step:
  assumes "dropWhile is_blank t \<noteq> []"
    "g = takeWhile is_blank t" "w = takeWhile (\<lambda>c. \<not> is_blank c) (dropWhile is_blank t)"
    "t' = dropWhile (\<lambda>c. \<not> is_blank c) (dropWhile is_blank t)"
  shows "put_words indent width col t =
    (if indent < col
     then (if width < col + length g + length w
           then nl @ replicate indent (CHR '' '') @ w @ put_words indent width (indent + length w) t'
           else replicate (length g) (CHR '' '') @ w @ put_words indent width (col + length g + length w) t')
     else w @ put_words indent width (col + length w) t')"
  unfolding assms(2-4) by (subst put_words.simps) (simp only: Let_def assms(1) if_False)

lemma blanks_break: "list_all is_break (replicate n (CHR '' ''))" "list_all is_break (nl @ replicate n (CHR '' ''))"
  by (auto simp: list_all_iff is_break_def is_blank_def nl_def)

lemma put_words_tokens:
  assumes "CHR 10 \<notin> set t" "indent \<le> col"
  shows "tokens is_break (put_words indent width col t) = tokens is_blank t \<and>
    (indent < col \<and> (t = [] \<or> is_blank (hd t)) \<longrightarrow>
       put_words indent width col t = [] \<or> is_break (hd (put_words indent width col t)))"
  using assms
proof (induction "length t" arbitrary: t col rule: less_induct)
  case less
  show ?case
  proof (cases "dropWhile is_blank t = []")
    case True
    then show ?thesis by (simp add: put_words_end tokens_blank)
  next
    case False
    obtain g w t' where s: "t = g @ w @ t'" and g: "g = takeWhile is_blank t" "list_all is_blank g"
      and w: "w = takeWhile (\<lambda>c. \<not> is_blank c) (dropWhile is_blank t)" "list_all (\<lambda>c. \<not> is_blank c) w" "w \<noteq> []"
      and t': "t' = dropWhile (\<lambda>c. \<not> is_blank c) (dropWhile is_blank t)" "t' = [] \<or> is_blank (hd t')"
      and len: "length t' < length t"
      by (rule text_split[OF False])
    have wb: "list_all (\<lambda>c. \<not> is_break c) w"
      using w(2) less.prems(1) by (auto simp: s list_all_iff is_break_def)
    have toks: "tokens is_blank t = w # tokens is_blank t'"
      using s g(2) w(2,3) t'(2) by (simp add: tokens_gap tokens_word)
    have IH: "tokens is_break (w @ put_words indent width c t') = w # tokens is_blank t'"
      if "indent < c" for c
    proof -
      have "tokens is_break (put_words indent width c t') = tokens is_blank t'"
        and "put_words indent width c t' = [] \<or> is_break (hd (put_words indent width c t'))"
        using less.hyps[OF len, of c] less.prems(1) t'(2) that by (auto simp: s)
      then show ?thesis by (simp add: tokens_word[OF wb w(3)])
    qed
    have pos: "0 < length w" using w(3) by simp
    have gap: "t = [] \<or> is_blank (hd t) \<Longrightarrow> g \<noteq> []"
      using w(2,3) by (cases w) (auto simp: s)
    consider (plain) "\<not> indent < col" | (wrap) "indent < col" "width < col + length g + length w"
      | (same) "indent < col" "\<not> width < col + length g + length w" by blast
    then show ?thesis
    proof cases
      case plain
      then show ?thesis
        using IH[of "col + length w"] pos less.prems(2) toks
        by (simp add: put_words_step[OF False g(1) w(1) t'(1)])
    next
      case wrap
      have "tokens is_break (nl @ replicate indent (CHR '' '') @ w @ put_words indent width (indent + length w) t')
          = tokens is_blank t"
        using IH[of "indent + length w"] pos toks tokens_gap[OF blanks_break(2)] by simp
      then show ?thesis
        using wrap by (simp add: put_words_step[OF False g(1) w(1) t'(1)] nl_def is_break_def)
    next
      case same
      have "tokens is_break (replicate (length g) (CHR '' '') @ w @ put_words indent width (col + length g + length w) t')
          = tokens is_blank t"
        using IH[of "col + length g + length w"] same(1) toks tokens_gap[OF blanks_break(1)] by simp
      moreover have "t = [] \<or> is_blank (hd t) \<Longrightarrow> is_break (hd (replicate (length g) (CHR '' '') @ x))" for x
        using gap by (cases g) (auto simp: is_break_def is_blank_def)
      ultimately show ?thesis
        using same by (simp add: put_words_step[OF False g(1) w(1) t'(1)])
    qed
  qed
qed

text \<open>
  \<open>fits width col s\<close>: printed from column \<open>col\<close> on, no line of \<open>s\<close> passes column \<open>width\<close>.
\<close>

fun fits :: "nat \<Rightarrow> nat \<Rightarrow> string \<Rightarrow> bool" where
  "fits width col [] \<longleftrightarrow> col \<le> width"
| "fits width col (c # s) \<longleftrightarrow> (if c = CHR 10 then col \<le> width \<and> fits width 0 s else fits width (Suc col) s)"

lemma fits_append_word:
  "CHR 10 \<notin> set w \<Longrightarrow> fits width col (w @ s) \<longleftrightarrow> fits width (col + length w) s"
  by (induction w arbitrary: col) auto

lemma put_words_fits:
  assumes "CHR 10 \<notin> set t" "\<forall>w \<in> set (tokens is_blank t). indent + length w \<le> width" "col \<le> width" "indent \<le> col"
  shows "fits width col (put_words indent width col t @ nl)"
  using assms
proof (induction "length t" arbitrary: t col rule: less_induct)
  case less
  show ?case
  proof (cases "dropWhile is_blank t = []")
    case True
    then show ?thesis using less.prems(3) by (simp add: put_words_end nl_def)
  next
    case False
    obtain g w t' where s: "t = g @ w @ t'" and g: "g = takeWhile is_blank t" "list_all is_blank g"
      and w: "w = takeWhile (\<lambda>c. \<not> is_blank c) (dropWhile is_blank t)" "list_all (\<lambda>c. \<not> is_blank c) w" "w \<noteq> []"
      and t': "t' = dropWhile (\<lambda>c. \<not> is_blank c) (dropWhile is_blank t)" "t' = [] \<or> is_blank (hd t')"
      and len: "length t' < length t"
      by (rule text_split[OF False])
    have toks: "tokens is_blank t = w # tokens is_blank t'"
      using s g(2) w(2,3) t'(2) by (simp add: tokens_gap tokens_word)
    have nlw: "CHR 10 \<notin> set w" "CHR 10 \<notin> set (replicate n (CHR '' ''))" for n
      using less.prems(1) s by auto
    have rest: "CHR 10 \<notin> set t'" "\<forall>w \<in> set (tokens is_blank t'). indent + length w \<le> width"
      using less.prems(1,2) s toks by simp_all
    have IH: "fits width c (put_words indent width c t' @ nl)" if "indent \<le> c" "c \<le> width" for c
      using less.hyps[OF len _ _ that(2,1)] rest by blast
    show ?thesis
      using less.prems(2-4) IH[of "indent + length w"] IH[of "col + length g + length w"] IH[of "col + length w"]
      by (simp add: put_words_step[OF False g(1) w(1) t'(1)] fits_append_word nlw toks)
        (auto simp: nl_def fits_append_word nlw)
  qed
qed

lemma tokens_end: "list_all sep g \<Longrightarrow> tokens sep (s @ g) = tokens sep s"
proof (induction sep s rule: tokens.induct)
  case (1 sep t)
  show ?case
  proof (cases "dropWhile sep t = []")
    case True
    then have "dropWhile sep (t @ g) = []" using 1(2) by (auto simp: list_all_iff)
    then show ?thesis using True by (simp add: tokens_blank)
  next
    case False
    let ?r = "dropWhile sep t"
    have d: "dropWhile sep (t @ g) = ?r @ g" using False by (auto simp: dropWhile_append)
    have w: "takeWhile (\<lambda>c. \<not> sep c) (?r @ g) = takeWhile (\<lambda>c. \<not> sep c) ?r"
    proof (cases "\<forall>c \<in> set ?r. \<not> sep c")
      case True
      then have r: "takeWhile (\<lambda>c. \<not> sep c) ?r = ?r" by (simp only: takeWhile_eq_all_conv)
      have "takeWhile (\<lambda>c. \<not> sep c) g = []" using 1(2) by (cases g) auto
      then show ?thesis using True by (simp only: takeWhile_append if_True append_Nil2 r if_cancel)
    next
      case False
      then show ?thesis by (simp only: takeWhile_append if_False)
    qed
    have "tokens sep (dropWhile (\<lambda>c. \<not> sep c) (?r @ g)) = tokens sep (dropWhile (\<lambda>c. \<not> sep c) ?r)"
    proof (cases "dropWhile (\<lambda>c. \<not> sep c) ?r = []")
      case True
      then have "dropWhile (\<lambda>c. \<not> sep c) (?r @ g) = g" using 1(2) by (cases g) (auto simp: dropWhile_append)
      moreover have "tokens sep g = []" using 1(2) by (simp add: tokens_blank list_all_iff)
      ultimately show ?thesis by (simp only: True tokens_Nil)
    next
      case rest: False
      then have "dropWhile (\<lambda>c. \<not> sep c) (?r @ g) = dropWhile (\<lambda>c. \<not> sep c) ?r @ g"
        by (auto simp: dropWhile_append)
      then show ?thesis using 1 False by simp
    qed
    then show ?thesis
      using False d w by (subst (1 2) tokens.simps) (simp only: Let_def append_is_Nil_conv if_False simp_thms)
  qed
qed

text \<open>
  C27. Wrapping a text keeps its words, in order: what \<^const>\<open>put_wrapped\<close> prints differs from a
  text of one line in blanks and line breaks only. When in addition each word fits between the indent
  and the width, no line passes the width.
\<close>

theorem put_wrapped_correct:
  assumes "CHR 10 \<notin> set t"
  shows "tokens is_break (put_wrapped t indent indent width) = tokens is_blank t \<and>
    (indent \<le> width \<and> list_all (\<lambda>w. indent + length w \<le> width) (tokens is_blank t) \<longrightarrow>
       fits width indent (put_wrapped t indent indent width))"
proof -
  have "list_all is_break nl" by (simp add: is_break_def nl_def)
  then show ?thesis
    using put_words_tokens[OF assms, of indent indent width] put_words_fits[OF assms, of indent width indent]
    by (simp add: put_wrapped_def tokens_end list_all_iff)
qed

theorem put_wrapped_witness:
  "tokens is_break (put_wrapped ''explain what is being done'' 4 4 20) =
     [''explain'', ''what'', ''is'', ''being'', ''done''] \<and>
   fits 20 4 (put_wrapped ''explain what is being done'' 4 4 20)"
proof -
  have "tokens is_blank ''explain what is being done'' = [''explain'', ''what'', ''is'', ''being'', ''done'']"
    by code_simp
  then show ?thesis
    using put_wrapped_correct[of "''explain what is being done''" 4 20] by simp
qed

subsection \<open>The option table\<close>

lemma out_width_range: "WIDTH_MIN \<le> out_width columns \<and> out_width columns \<le> WIDTH_MAX"
  by (auto simp: out_width_def WIDTH_DEFAULT_def WIDTH_MIN_def WIDTH_MAX_def split: option.split prod.split)

lemma desc_col_eq: "desc_col = 29"
  by code_simp

lemma option_descs:
  "list_all (\<lambda>od. CHR 10 \<notin> set (od_desc od) \<and> list_all (\<lambda>w. length w \<le> 11) (tokens is_blank (od_desc od))) options"
  by code_simp

lemma option_specs:
  "list_all (\<lambda>od. CHR 10 \<notin> set (option_spec SPEC_MAX od) \<and> length (option_spec SPEC_MAX od) \<le> 27) options"
  by code_simp

text \<open>
  C29. Whatever the environment holds in \<^verbatim>\<open>COLUMNS\<close>, the help prints every option in lines that
  fit the width in use, which is between 40 and 1000, and with every word of its description.
\<close>

theorem help_fits:
  "list_all (\<lambda>od. fits (nat (out_width columns)) 0 (put_option (nat (out_width columns)) od) \<and>
      tokens is_break (put_wrapped (od_desc od) desc_col desc_col (nat (out_width columns)))
        = tokens is_blank (od_desc od)) options"
  unfolding list_all_iff
proof (intro ballI conjI)
  fix od
  assume od: "od \<in> set options"
  let ?w = "nat (out_width columns)"
  have w: "40 \<le> ?w" using out_width_range[of columns] unfolding WIDTH_MIN_def by linarith
  have d: "CHR 10 \<notin> set (od_desc od)" "\<forall>w \<in> set (tokens is_blank (od_desc od)). desc_col + length w \<le> ?w"
    using option_descs od w unfolding list_all_iff desc_col_eq by force+
  have s: "CHR 10 \<notin> set (option_spec SPEC_MAX od)" "length (option_spec SPEC_MAX od) \<le> 27"
    using option_specs od by (auto simp: list_all_iff)
  show "tokens is_break (put_wrapped (od_desc od) desc_col desc_col ?w) = tokens is_blank (od_desc od)"
    using put_words_tokens[OF d(1), of desc_col desc_col ?w]
    by (simp add: put_wrapped_def tokens_end is_break_def nl_def)
  have "fits ?w desc_col (put_wrapped (od_desc od) desc_col desc_col ?w)"
    using put_words_fits[OF d, of desc_col] w by (simp add: put_wrapped_def desc_col_eq)
  then show "fits ?w 0 (put_option ?w od)"
    using s by (simp add: put_option_def Let_def fits_append_word desc_col_eq)
qed


end
