(* ===== verification/Parse.thy ===== *)
theory Parse
  imports Cstd
begin

text \<open>
  \<^verbatim>\<open>src/parse.c\<close>: the arguments of \<^verbatim>\<open>-m\<close>, \<^verbatim>\<open>-s\<close> and \<^verbatim>\<open>-o\<close>.

  A mode is a \<open>32 word\<close>; the pointer \<^verbatim>\<open>p\<close> into the text is the rest of the text, returned by
  the functions that advance it. \<^verbatim>\<open>error_exit\<close> is \<open>Inl\<close> with the message. The user and group
  databases (\<^verbatim>\<open>getpwnam\<close>, \<^verbatim>\<open>getgrnam\<close>) are parameters.
\<close>

unbundle bit_operations_syntax

subsection \<open>Mode constants of the C library\<close>

definition S_ISUID :: mode_t where [mode_bits]: "S_ISUID = 0x800"

definition S_ISGID :: mode_t where [mode_bits]: "S_ISGID = 0x400"

definition S_ISVTX :: mode_t where [mode_bits]: "S_ISVTX = 0x200"

definition S_IRUSR :: mode_t where [mode_bits]: "S_IRUSR = 0x100"

definition S_IWUSR :: mode_t where [mode_bits]: "S_IWUSR = 0x080"

definition S_IXUSR :: mode_t where [mode_bits]: "S_IXUSR = 0x040"

definition S_IRGRP :: mode_t where [mode_bits]: "S_IRGRP = 0x020"

definition S_IWGRP :: mode_t where [mode_bits]: "S_IWGRP = 0x010"

definition S_IXGRP :: mode_t where [mode_bits]: "S_IXGRP = 0x008"

definition S_IROTH :: mode_t where [mode_bits]: "S_IROTH = 0x004"

definition S_IWOTH :: mode_t where [mode_bits]: "S_IWOTH = 0x002"

definition S_IXOTH :: mode_t where [mode_bits]: "S_IXOTH = 0x001"

definition S_IRWXU :: mode_t where [mode_bits]: "S_IRWXU = 0x1C0"

definition S_IRWXG :: mode_t where [mode_bits]: "S_IRWXG = 0x038"

definition S_IRWXO :: mode_t where [mode_bits]: "S_IRWXO = 0x007"

definition CHMOD_MODE_BITS :: mode_t where
  "CHMOD_MODE_BITS = S_ISUID OR S_ISGID OR S_ISVTX OR S_IRWXU OR S_IRWXG OR S_IRWXO"

lemma CHMOD_MODE_BITS_val [mode_bits]: "CHMOD_MODE_BITS = 0xFFF"
  by (simp add: CHMOD_MODE_BITS_def S_ISUID_def S_ISGID_def S_ISVTX_def S_IRWXU_def S_IRWXG_def
      S_IRWXO_def)

subsection \<open>parse_mode\<close>

fun mode_who_loop :: "mode_t \<Rightarrow> string \<Rightarrow> mode_t \<times> string" where
  "mode_who_loop who [] = (who, [])"
| "mode_who_loop who (c # p) =
     (if c = CHR ''u'' then mode_who_loop (who OR (S_IRWXU OR S_ISUID)) p
      else if c = CHR ''g'' then mode_who_loop (who OR (S_IRWXG OR S_ISGID)) p
      else if c = CHR ''o'' then mode_who_loop (who OR (S_IRWXO OR S_ISVTX)) p
      else if c = CHR ''a'' then mode_who_loop (who OR CHMOD_MODE_BITS) p
      else (who, c # p))"

definition mode_who :: "string \<Rightarrow> mode_t \<times> string" where
  "mode_who p = (let (who, q) = mode_who_loop 0 p in (if who \<noteq> 0 then who else CHMOD_MODE_BITS, q))"

definition invalid_mode :: "string \<Rightarrow> string" where
  "invalid_mode mode_str = ''invalid mode: '' @ quoted mode_str @ nl"

fun mode_perms_loop :: "string \<Rightarrow> mode_t \<Rightarrow> string \<Rightarrow> (mode_t \<times> string) or_exit" where
  "mode_perms_loop mode_str perms [] = Inr (perms, [])"
| "mode_perms_loop mode_str perms (c # p) =
     (if c = CHR '','' then Inr (perms, c # p)
      else if c = CHR ''r'' then mode_perms_loop mode_str (perms OR (S_IRUSR OR S_IRGRP OR S_IROTH)) p
      else if c = CHR ''w'' then mode_perms_loop mode_str (perms OR (S_IWUSR OR S_IWGRP OR S_IWOTH)) p
      else if c = CHR ''x'' then mode_perms_loop mode_str (perms OR (S_IXUSR OR S_IXGRP OR S_IXOTH)) p
      else if c = CHR ''s'' then mode_perms_loop mode_str (perms OR (S_ISUID OR S_ISGID)) p
      else if c = CHR ''t'' then mode_perms_loop mode_str (perms OR S_ISVTX) p
      else Inl (invalid_mode mode_str))"

definition mode_perms :: "string \<Rightarrow> string \<Rightarrow> (mode_t \<times> string) or_exit" where
  "mode_perms p mode_str = mode_perms_loop mode_str 0 p"

definition mode_apply :: "mode_t \<Rightarrow> char \<Rightarrow> mode_t \<Rightarrow> mode_t \<Rightarrow> mode_t" where
  "mode_apply mode op who perms =
     (if op = CHR ''='' then (mode AND NOT who) OR perms
      else if op = CHR ''+'' then mode OR perms
      else mode AND NOT perms)"

lemma mode_who_loop_length: "length (snd (mode_who_loop who p)) \<le> length p"
  by (induction who p rule: mode_who_loop.induct) auto

lemma mode_who_length: "mode_who p = (who, q) \<Longrightarrow> length q \<le> length p"
  using mode_who_loop_length [of 0 p] by (auto simp: mode_who_def split: prod.splits)

lemma mode_perms_loop_length:
  "mode_perms_loop ms perms p = Inr (m, q) \<Longrightarrow> length q \<le> length p"
  by (induction ms perms p rule: mode_perms_loop.induct) (auto split: if_splits)

lemma mode_perms_length: "mode_perms p ms = Inr (m, q) \<Longrightarrow> length q \<le> length p"
  by (auto simp: mode_perms_def dest: mode_perms_loop_length)

text \<open>The loop over the clauses of a symbolic mode, lines 61 to 76 of the source.\<close>

function parse_clauses :: "string \<Rightarrow> mode_t \<Rightarrow> string \<Rightarrow> mode_t or_exit" where
  "parse_clauses mode_str mode p =
     (if p = [] then Inr mode
      else case mode_who p of (who, q) \<Rightarrow>
       (case q of
          [] \<Rightarrow> Inl (invalid_mode mode_str)
        | op # r \<Rightarrow>
            if op \<noteq> CHR ''+'' \<and> op \<noteq> CHR ''-'' \<and> op \<noteq> CHR ''='' then Inl (invalid_mode mode_str)
            else (case mode_perms r mode_str of
                Inl e \<Rightarrow> Inl e
              | Inr (perms, t) \<Rightarrow>
                  (case t of
                     [] \<Rightarrow> parse_clauses mode_str (mode_apply mode op who (perms AND who)) []
                   | c # u \<Rightarrow>
                       if c = CHR '','' then
                         (if u = [] then Inl (invalid_mode mode_str)
                          else parse_clauses mode_str (mode_apply mode op who (perms AND who)) u)
                       else parse_clauses mode_str (mode_apply mode op who (perms AND who)) (c # u)))))"
  by pat_completeness auto
termination
  by (relation "measure (\<lambda>(ms, m, p). length p)")
    (auto dest!: mode_who_length [OF sym] mode_perms_length)

declare parse_clauses.simps [simp del]

definition parse_mode :: "string \<Rightarrow> mode_t or_exit" where
  "parse_mode mode_str =
     (case mode_str of
        [] \<Rightarrow> Inl (invalid_mode mode_str)
      | c # _ \<Rightarrow>
          if 48 \<le> (of_char c :: int) \<and> (of_char c :: int) \<le> 55 then
            (case strtou 8 mode_str of (val, endptr, _) \<Rightarrow>
               if endptr \<noteq> [] \<or> ucast CHMOD_MODE_BITS < val then Inl (invalid_mode mode_str)
               else Inr (ucast val))
          else parse_clauses mode_str 0 mode_str)"

subsection \<open>parse_size\<close>

definition SIZE_K :: uintmax_t where "SIZE_K = 1024"

definition SIZE_M :: uintmax_t where "SIZE_M = SIZE_K * SIZE_K"

definition SIZE_G :: uintmax_t where "SIZE_G = SIZE_M * SIZE_K"

definition off_t_max_value :: uintmax_t where
  "off_t_max_value = push_bit 63 1 - 1"

definition invalid_size :: "string \<Rightarrow> string" where
  "invalid_size size_str = ''invalid size: '' @ quoted size_str @ nl"

definition size_multiplier :: "string \<Rightarrow> string \<Rightarrow> uintmax_t or_exit" where
  "size_multiplier suffix size_str =
     (case suffix of
        [] \<Rightarrow> Inr 1
      | c # cs \<Rightarrow>
          (let u = toupper c;
               multiplier =
                 (if u = CHR ''K'' then Some SIZE_K
                  else if u = CHR ''M'' then Some SIZE_M
                  else if u = CHR ''G'' then Some SIZE_G
                  else None)
           in case multiplier of
                None \<Rightarrow> Inl (''invalid size suffix in '' @ quoted size_str @ nl)
              | Some m \<Rightarrow> if cs \<noteq> [] then Inl (invalid_size size_str) else Inr m))"

definition parse_size :: "string \<Rightarrow> int or_exit" where
  "parse_size size_str =
     (if size_str = [] \<or> \<not> isdigit (hd size_str) then Inl (invalid_size size_str)
      else case strtou 10 size_str of (val, endptr, erange) \<Rightarrow>
        if erange \<or> endptr = size_str then Inl (invalid_size size_str)
        else case size_multiplier endptr size_str of
            Inl e \<Rightarrow> Inl e
          | Inr multiplier \<Rightarrow>
              if off_t_max_value div multiplier < val
              then Inl (''size too large: '' @ quoted size_str @ nl)
              else Inr (sint (val * multiplier)))"

subsection \<open>parse_owner\<close>

text \<open>The variables that \<^verbatim>\<open>parse_owner\<close> sets through its pointer arguments.\<close>

record owner_out =
  oo_uid :: uid_t
  oo_gid :: gid_t
  oo_set_uid :: bool
  oo_set_gid :: bool

definition parse_uint_id :: "string \<Rightarrow> uintmax_t option" where
  "parse_uint_id id_str =
     (if id_str = [] then None
      else if \<not> list_all isdigit id_str then None
      else case strtou 10 id_str of (idn, endptr, erange) \<Rightarrow>
        if erange \<or> endptr \<noteq> [] then None else Some idn)"

definition lookup_uid :: "(string \<Rightarrow> uid_t option) \<Rightarrow> string \<Rightarrow> uid_t option" where
  "lookup_uid getpwnam name =
     (case getpwnam name of
        Some pw_uid \<Rightarrow> Some pw_uid
      | None \<Rightarrow>
          (case parse_uint_id name of
             None \<Rightarrow> None
           | Some idn \<Rightarrow>
               if ucast (ucast idn :: uid_t) \<noteq> idn \<or> (ucast idn :: uid_t) = -1 then None
               else Some (ucast idn)))"

definition lookup_gid :: "(string \<Rightarrow> gid_t option) \<Rightarrow> string \<Rightarrow> gid_t option" where
  "lookup_gid getgrnam name =
     (case getgrnam name of
        Some gr_gid \<Rightarrow> Some gr_gid
      | None \<Rightarrow>
          (case parse_uint_id name of
             None \<Rightarrow> None
           | Some idn \<Rightarrow>
               if ucast (ucast idn :: gid_t) \<noteq> idn \<or> (ucast idn :: gid_t) = -1 then None
               else Some (ucast idn)))"

text \<open>
  The text before the first colon, and the text after it when there is one: what
  \<^verbatim>\<open>buf\<close> and \<^verbatim>\<open>group_str\<close> hold after the colon is overwritten by NUL.
\<close>

definition split_owner :: "string \<Rightarrow> string \<times> string option" where
  "split_owner s =
     (case strchr s (CHR '':'') of
        None \<Rightarrow> (s, None)
      | Some i \<Rightarrow> (take i s, Some (drop (Suc i) s)))"

definition owner_group :: "(string \<Rightarrow> gid_t option) \<Rightarrow> string \<Rightarrow> string option \<Rightarrow> owner_out \<Rightarrow> int \<times> owner_out" where
  "owner_group getgrnam buf group_str out =
     (case group_str of
        None \<Rightarrow> (0, out)
      | Some g \<Rightarrow>
          if g = [] \<and> buf \<noteq> [] then (-1, out)
          else if g \<noteq> [] then
            (case lookup_gid getgrnam g of
               None \<Rightarrow> (-1, out\<lparr>oo_set_gid := False\<rparr>)
             | Some gid \<Rightarrow> (0, out\<lparr>oo_gid := gid, oo_set_gid := True\<rparr>))
          else (0, out))"

definition owner_user :: "(string \<Rightarrow> uid_t option) \<Rightarrow> string \<Rightarrow> int \<times> owner_out \<Rightarrow> int \<times> owner_out" where
  "owner_user getpwnam buf r =
     (case r of (ret, out) \<Rightarrow>
        if ret = 0 \<and> buf \<noteq> [] then
          (case lookup_uid getpwnam buf of
             None \<Rightarrow> (-1, out\<lparr>oo_set_uid := False\<rparr>)
           | Some uid \<Rightarrow> (0, out\<lparr>oo_uid := uid, oo_set_uid := True\<rparr>))
        else (ret, out))"

text \<open>\<open>mem\<close> says whether \<^verbatim>\<open>strdup\<close> finds memory; a NULL argument is \<open>None\<close>.\<close>

definition parse_owner ::
  "(string \<Rightarrow> uid_t option) \<Rightarrow> (string \<Rightarrow> gid_t option) \<Rightarrow> bool \<Rightarrow> string option \<Rightarrow> owner_out \<Rightarrow>
     int \<times> owner_out" where
  "parse_owner getpwnam getgrnam mem owner_str out =
     (case owner_str of
        None \<Rightarrow> (-1, out)
      | Some s \<Rightarrow>
          if s = [] then (-1, out)
          else if \<not> mem then (-1, out\<lparr>oo_set_uid := False, oo_set_gid := False\<rparr>)
          else case split_owner s of (buf, group_str) \<Rightarrow>
            (case owner_user getpwnam buf
                    (owner_group getgrnam buf group_str
                      (out\<lparr>oo_set_uid := False, oo_set_gid := False\<rparr>)) of
               (ret, out') \<Rightarrow>
                 if ret = 0 \<and> \<not> oo_set_uid out' \<and> \<not> oo_set_gid out' then (-1, out')
                 else (ret, out')))"

subsection \<open>The grammar of symbolic modes\<close>

datatype who_letter = Who_u | Who_g | Who_o | Who_a

datatype mode_op = Op_set | Op_add | Op_remove

datatype perm_letter = Perm_r | Perm_w | Perm_x | Perm_s | Perm_t

type_synonym clause = "who_letter list \<times> mode_op \<times> perm_letter list"

fun who_char :: "who_letter \<Rightarrow> char" where
  "who_char Who_u = CHR ''u''"
| "who_char Who_g = CHR ''g''"
| "who_char Who_o = CHR ''o''"
| "who_char Who_a = CHR ''a''"

fun op_char :: "mode_op \<Rightarrow> char" where
  "op_char Op_set = CHR ''=''"
| "op_char Op_add = CHR ''+''"
| "op_char Op_remove = CHR ''-''"

fun perm_char :: "perm_letter \<Rightarrow> char" where
  "perm_char Perm_r = CHR ''r''"
| "perm_char Perm_w = CHR ''w''"
| "perm_char Perm_x = CHR ''x''"
| "perm_char Perm_s = CHR ''s''"
| "perm_char Perm_t = CHR ''t''"

definition print_clause :: "clause \<Rightarrow> string" where
  "print_clause c = (case c of (ws, op, ps) \<Rightarrow> map who_char ws @ op_char op # map perm_char ps)"

fun print_clauses :: "clause list \<Rightarrow> string" where
  "print_clauses [] = []"
| "print_clauses [c] = print_clause c"
| "print_clauses (c # cs) = print_clause c @ CHR '','' # print_clauses cs"

text \<open>
  What a clause means, on sets of bit numbers: 8 to 0 are \<^verbatim>\<open>rwxrwxrwx\<close>, 11 is set-user-ID, 10
  set-group-ID and 9 the sticky bit. A class owns its three permission bits and one of the
  special bits.
\<close>

fun who_bits :: "who_letter \<Rightarrow> nat set" where
  "who_bits Who_u = {6, 7, 8, 11}"
| "who_bits Who_g = {3, 4, 5, 10}"
| "who_bits Who_o = {0, 1, 2, 9}"
| "who_bits Who_a = {0..11}"

fun perm_bits :: "perm_letter \<Rightarrow> nat set" where
  "perm_bits Perm_r = {2, 5, 8}"
| "perm_bits Perm_w = {1, 4, 7}"
| "perm_bits Perm_x = {0, 3, 6}"
| "perm_bits Perm_s = {10, 11}"
| "perm_bits Perm_t = {9}"

definition class_bits :: "who_letter list \<Rightarrow> nat set" where
  "class_bits ws = (if ws = [] then {0..11} else \<Union> (who_bits ` set ws))"

definition clause_effect :: "nat set \<Rightarrow> clause \<Rightarrow> nat set" where
  "clause_effect M c = (case c of (ws, op, ps) \<Rightarrow>
     (let W = class_bits ws; P = \<Union> (perm_bits ` set ps) \<inter> W
      in case op of Op_set \<Rightarrow> (M - W) \<union> P | Op_add \<Rightarrow> M \<union> P | Op_remove \<Rightarrow> M - P))"

definition symbolic_bits :: "clause list \<Rightarrow> nat set" where
  "symbolic_bits cs = foldl clause_effect {} cs"

definition mode_set :: "mode_t \<Rightarrow> nat set" where
  "mode_set m = {n. bit m n}"

lemma mode_set_inject [simp]: "mode_set a = mode_set b \<longleftrightarrow> a = b"
  by (auto simp: mode_set_def set_eq_iff intro: bit_eqI)

lemma mode_set_simps [simp]:
  "mode_set 0 = {}" "mode_set (a OR b) = mode_set a \<union> mode_set b"
  "mode_set (a AND b) = mode_set a \<inter> mode_set b" "mode_set (NOT a) = {..<32} - mode_set a"
  by (auto simp: mode_set_def bit_simps)

lemma mode_set_less: "n \<in> mode_set m \<Longrightarrow> n < 32"
  using bit_imp_le_length [of m n] by (simp add: mode_set_def)

text \<open>The bits of a numeral mask, computed.\<close>

lemma mode_set_mask: "mode_set m = set (filter (bit m) [0..<32])"
  using bit_imp_le_length by (force simp: mode_set_def)

lemma mode_set_consts [mode_bits]:
  "mode_set (S_IRWXU OR S_ISUID) = {6, 7, 8, 11}"
  "mode_set (S_IRWXG OR S_ISGID) = {3, 4, 5, 10}"
  "mode_set (S_IRWXO OR S_ISVTX) = {0, 1, 2, 9}"
  "mode_set CHMOD_MODE_BITS = {0..11}"
  "mode_set (S_IRUSR OR S_IRGRP OR S_IROTH) = {2, 5, 8}"
  "mode_set (S_IWUSR OR S_IWGRP OR S_IWOTH) = {1, 4, 7}"
  "mode_set (S_IXUSR OR S_IXGRP OR S_IXOTH) = {0, 3, 6}"
  "mode_set (S_ISUID OR S_ISGID) = {10, 11}"
  "mode_set S_ISVTX = {9}"
  unfolding mode_set_mask by code_simp+

subsubsection \<open>The loops of the parser against the grammar\<close>

fun who_word :: "who_letter \<Rightarrow> mode_t" where
  "who_word Who_u = S_IRWXU OR S_ISUID"
| "who_word Who_g = S_IRWXG OR S_ISGID"
| "who_word Who_o = S_IRWXO OR S_ISVTX"
| "who_word Who_a = CHMOD_MODE_BITS"

fun perm_word :: "perm_letter \<Rightarrow> mode_t" where
  "perm_word Perm_r = S_IRUSR OR S_IRGRP OR S_IROTH"
| "perm_word Perm_w = S_IWUSR OR S_IWGRP OR S_IWOTH"
| "perm_word Perm_x = S_IXUSR OR S_IXGRP OR S_IXOTH"
| "perm_word Perm_s = S_ISUID OR S_ISGID"
| "perm_word Perm_t = S_ISVTX"

lemma mode_set_who_word: "mode_set (who_word a) = who_bits a"
  by (cases a) (simp_all only: who_word.simps who_bits.simps mode_set_consts)

lemma mode_set_perm_word: "mode_set (perm_word a) = perm_bits a"
  by (cases a) (simp_all only: perm_word.simps perm_bits.simps mode_set_consts)

lemma mode_who_loop_step: "mode_who_loop w (who_char a # p) = mode_who_loop (w OR who_word a) p"
  by (cases a) simp_all

lemma mode_perms_loop_step:
  "mode_perms_loop e w (perm_char a # p) = mode_perms_loop e (w OR perm_word a) p"
  by (cases a) simp_all

lemma mode_who_loop_letters:
  assumes "q = [] \<or> hd q \<notin> range who_char"
  shows "\<exists>m. mode_who_loop w (map who_char ws @ q) = (m, q) \<and>
     mode_set m = mode_set w \<union> \<Union> (who_bits ` set ws)"
proof (induction ws arbitrary: w)
  case Nil
  from assms have "mode_who_loop w q = (w, q)"
    by (cases q) (auto simp: image_iff split: if_splits intro: who_char.simps [symmetric])
  then show ?case by simp
next
  case (Cons a ws)
  show ?case
    using Cons.IH [of "w OR who_word a"]
    by (auto simp: mode_who_loop_step mode_set_who_word simp del: mode_who_loop.simps)
qed

lemma mode_who_loop_split:
  "\<exists>ws q. p = map who_char ws @ q \<and> (q = [] \<or> hd q \<notin> range who_char)"
proof (induction p)
  case (Cons c p)
  then obtain ws q where wsq: "p = map who_char ws @ q" "q = [] \<or> hd q \<notin> range who_char" by blast
  show ?case
  proof (cases "c \<in> range who_char")
    case True
    then obtain a where "c = who_char a" by blast
    with wsq have "c # p = map who_char (a # ws) @ q" by simp
    with wsq(2) show ?thesis by blast
  next
    case False
    have "c # p = map who_char [] @ (c # p)" by simp
    with False show ?thesis by (metis list.sel(1))
  qed
qed simp

lemma who_bits_nonempty [simp]: "who_bits a \<noteq> {}"
  by (cases a) auto

lemma mode_who_letters:
  assumes "q = [] \<or> hd q \<notin> range who_char"
  shows "\<exists>m. mode_who (map who_char ws @ q) = (m, q) \<and> mode_set m = class_bits ws"
proof -
  obtain m where m: "mode_who_loop 0 (map who_char ws @ q) = (m, q)"
      "mode_set m = \<Union> (who_bits ` set ws)"
    using mode_who_loop_letters [OF assms, of 0 ws] by auto
  have "m = 0 \<longleftrightarrow> ws = []"
    using m(2) mode_set_inject [of m 0] by (cases ws) auto
  then show ?thesis
    using m by (auto simp: mode_who_def class_bits_def mode_set_consts)
qed

lemma mode_perms_loop_letters:
  assumes "q = [] \<or> hd q = CHR '',''"
  shows "\<exists>m. mode_perms_loop e w (map perm_char ps @ q) = Inr (m, q) \<and>
     mode_set m = mode_set w \<union> \<Union> (perm_bits ` set ps)"
proof (induction ps arbitrary: w)
  case Nil
  from assms show ?case by (cases q) auto
next
  case (Cons a ps)
  show ?case
    using Cons.IH [of "w OR perm_word a"]
    by (auto simp: mode_perms_loop_step mode_set_perm_word simp del: mode_perms_loop.simps)
qed

lemma mode_perms_loop_Inr:
  "mode_perms_loop e w p = Inr (m, q) \<Longrightarrow>
     \<exists>ps. p = map perm_char ps @ q \<and> (q = [] \<or> hd q = CHR '','')"
proof (induction e w p rule: mode_perms_loop.induct)
  case (2 e w c p)
  show ?case
  proof (cases "c = CHR '',''")
    case True
    with "2.prems" have "c # p = map perm_char [] @ q \<and> hd q = CHR '',''" by auto
    then show ?thesis by blast
  next
    case False
    with "2.prems" "2.IH" obtain ps a where "p = map perm_char ps @ q" "q = [] \<or> hd q = CHR '',''"
      "c = perm_char a"
      by (auto split: if_splits) (metis perm_char.simps)+
    then have "c # p = map perm_char (a # ps) @ q" by simp
    with \<open>q = [] \<or> hd q = CHR '',''\<close> show ?thesis by blast
  qed
qed simp

lemma mode_apply_bits:
  assumes "mode_set who = class_bits ws" and "mode_set perms = \<Union> (perm_bits ` set ps)"
  shows "mode_set (mode_apply mode (op_char op) who (perms AND who)) =
     clause_effect (mode_set mode) (ws, op, ps)"
  by (cases op) (auto simp: mode_apply_def clause_effect_def Let_def assms dest: mode_set_less)

lemma op_char_not_who: "op_char op \<notin> range who_char"
proof
  assume "op_char op \<in> range who_char"
  then obtain a where "op_char op = who_char a" by blast
  then show False by (cases op; cases a) simp_all
qed

lemma parse_clauses_Nil: "parse_clauses e mode [] = Inr mode"
  by (simp add: parse_clauses.simps)

text \<open>One turn of the loop on a printed clause that is followed by the end or by a comma.\<close>

lemma parse_clauses_step:
  assumes "t = [] \<or> hd t = CHR '',''"
  shows "\<exists>m. mode_set m = clause_effect (mode_set mode) c \<and>
     parse_clauses e mode (print_clause c @ t) =
       (case t of [] \<Rightarrow> Inr m
        | _ # u \<Rightarrow> if u = [] then Inl (invalid_mode e) else parse_clauses e m u)"
proof -
  obtain ws op ps where c: "c = (ws, op, ps)" by (cases c)
  let ?q = "op_char op # map perm_char ps @ t"
  obtain who where who: "mode_who (map who_char ws @ ?q) = (who, ?q)" "mode_set who = class_bits ws"
    using mode_who_letters [of ?q ws] op_char_not_who by auto
  obtain perms where perms: "mode_perms (map perm_char ps @ t) e = Inr (perms, t)"
      "mode_set perms = \<Union> (perm_bits ` set ps)"
    using mode_perms_loop_letters [OF assms, of e 0 ps] by (auto simp: mode_perms_def)
  let ?m = "mode_apply mode (op_char op) who (perms AND who)"
  have p: "print_clause c @ t = map who_char ws @ ?q"
    by (simp add: c print_clause_def)
  have op: "op_char op \<in> {CHR ''='', CHR ''+'', CHR ''-''}" by (cases op) auto
  have "parse_clauses e mode (print_clause c @ t) =
      (case t of [] \<Rightarrow> Inr ?m
       | _ # u \<Rightarrow> if u = [] then Inl (invalid_mode e) else parse_clauses e ?m u)"
    unfolding p using op assms
    by (subst parse_clauses.simps) (auto simp: who(1) perms(1) parse_clauses_Nil split: list.splits)
  moreover have "mode_set ?m = clause_effect (mode_set mode) c"
    using mode_apply_bits [OF who(2) perms(2)] by (simp add: c)
  ultimately show ?thesis by blast
qed

lemma print_clause_nonempty [simp]: "print_clause c \<noteq> []"
  by (cases c) (simp add: print_clause_def)

lemma print_clauses_nonempty [simp]: "cs \<noteq> [] \<Longrightarrow> print_clauses cs \<noteq> []"
  by (cases cs rule: print_clauses.cases) auto

lemma parse_clauses_print:
  "cs \<noteq> [] \<Longrightarrow>
     \<exists>m. parse_clauses e mode (print_clauses cs) = Inr m \<and> mode_set m = foldl clause_effect (mode_set mode) cs"
proof (induction cs arbitrary: mode rule: print_clauses.induct)
  case (2 c)
  then show ?case
    using parse_clauses_step [of "[]" mode c e] by auto
next
  case (3 c d cs)
  obtain m where m: "mode_set m = clause_effect (mode_set mode) c"
      "parse_clauses e mode (print_clauses (c # d # cs)) = parse_clauses e m (print_clauses (d # cs))"
    using parse_clauses_step [of "CHR '','' # print_clauses (d # cs)" mode c e] by auto
  then show ?case
    using "3.IH" [of m] by simp
qed simp

lemma parse_clauses_Inr:
  "parse_clauses e mode p = Inr m \<Longrightarrow> p \<noteq> [] \<Longrightarrow> \<exists>cs. cs \<noteq> [] \<and> p = print_clauses cs"
proof (induction p arbitrary: mode rule: length_induct)
  case (1 p)
  obtain ws q where p: "p = map who_char ws @ q" and q: "q = [] \<or> hd q \<notin> range who_char"
    using mode_who_loop_split by blast
  obtain who where who: "mode_who p = (who, q)"
    using mode_who_letters [OF q, of ws] p by auto
  from "1.prems" obtain oc r perms t where
      r: "q = oc # r" "oc \<in> {CHR ''+'', CHR ''-'', CHR ''=''}" "mode_perms r e = Inr (perms, t)"
    by (subst (asm) parse_clauses.simps) (auto simp: who split: list.splits if_splits sum.splits)
  from r(3) obtain ps where ps: "r = map perm_char ps @ t" "t = [] \<or> hd t = CHR '',''"
    by (auto simp: mode_perms_def dest: mode_perms_loop_Inr)
  from r(2) obtain op where "oc = op_char op"
    by (metis (full_types) insertE op_char.simps singletonD)
  with p r(1) ps(1) have pc: "p = print_clause (ws, op, ps) @ t"
    by (simp add: print_clause_def)
  show ?case
  proof (cases t)
    case Nil
    then show ?thesis
      using pc by (intro exI [of _ "[(ws, op, ps)]"]) simp
  next
    case (Cons c u)
    obtain m' where "parse_clauses e mode p =
        (if u = [] then Inl (invalid_mode e) else parse_clauses e m' u)"
      using parse_clauses_step [OF ps(2), of mode "(ws, op, ps)" e] Cons pc by auto
    with "1.prems"(1) have "parse_clauses e m' u = Inr m" "u \<noteq> []"
      by (auto split: if_splits)
    moreover have "length u < length p" using pc Cons by simp
    ultimately obtain cs where cs: "cs \<noteq> []" "u = print_clauses cs"
      using "1.IH" by blast
    then have "p = print_clauses ((ws, op, ps) # cs)"
      using pc Cons ps(2) by (cases cs) auto
    then show ?thesis by blast
  qed
qed

lemma parse_clauses_iff:
  assumes "p \<noteq> []"
  shows "parse_clauses e mode p = Inr m \<longleftrightarrow>
     (\<exists>cs. cs \<noteq> [] \<and> p = print_clauses cs \<and> mode_set m = foldl clause_effect (mode_set mode) cs)"
proof
  assume L: "parse_clauses e mode p = Inr m"
  then obtain cs where cs: "cs \<noteq> []" "p = print_clauses cs"
    using parse_clauses_Inr assms by blast
  with parse_clauses_print [OF cs(1), of e mode] L show
    "\<exists>cs. cs \<noteq> [] \<and> p = print_clauses cs \<and> mode_set m = foldl clause_effect (mode_set mode) cs"
    by auto
next
  assume "\<exists>cs. cs \<noteq> [] \<and> p = print_clauses cs \<and> mode_set m = foldl clause_effect (mode_set mode) cs"
  then obtain cs where cs: "cs \<noteq> []" "p = print_clauses cs"
      "mode_set m = foldl clause_effect (mode_set mode) cs" by blast
  then show "parse_clauses e mode p = Inr m"
    using parse_clauses_print [OF cs(1), of e mode] by (metis mode_set_inject)
qed

subsubsection \<open>Octal modes\<close>

lemma octal_start: "48 \<le> (of_char c :: int) \<and> (of_char c :: int) \<le> 55 \<longleftrightarrow> in_base 8 c"
  by (auto simp: in_base_def isdigit_def digit_val_def)

lemma parse_mode_octal:
  assumes "in_base 8 c"
  shows "parse_mode (c # s) =
     (if list_all (in_base 8) (c # s) \<and> digits_val 8 (c # s) \<le> 0xFFF
      then Inr (of_int (digits_val 8 (c # s))) else Inl (invalid_mode (c # s)))"
proof -
  have c: "isdigit c" using assms by (simp add: in_base_def)
  have octal: "48 \<le> (of_char c :: int) \<and> (of_char c :: int) \<le> 55"
    using assms by (simp only: octal_start)
  define v where "v = digits_val 8 (takeWhile (in_base 8) (c # s))"
  have v0: "0 \<le> v"
    unfolding v_def by (rule digits_val_nonneg) (simp, rule list_all_takeWhile_self)
  show ?thesis
  proof (cases "list_all (in_base 8) (c # s)")
    case False
    then have "dropWhile (in_base 8) (c # s) \<noteq> []"
      by (metis dropWhile_Nil_iff)
    moreover obtain x y where "strtou 8 (c # s) = (x, dropWhile (in_base 8) (c # s), y)"
      using assms strtou_end [OF c] by blast
    ultimately have "parse_mode (c # s) = Inl (invalid_mode (c # s))"
      using octal by (simp add: parse_mode_def del: dropWhile.simps)
    with False show ?thesis by (simp only: if_False) auto
  next
    case True
    then have all: "takeWhile (in_base 8) (c # s) = c # s" "dropWhile (in_base 8) (c # s) = []"
      by (simp_all only: list_all_takeWhile dropWhile_Nil_iff)
    have v: "v = digits_val 8 (c # s)" by (simp only: v_def all)
    have st: "strtou 8 (c # s) =
        (if uint_max < v then (of_int uint_max, [], True) else (of_int v, [], False))"
      by (simp only: strtou_digit [OF c] all Let_def v) simp
    have big: "ucast CHMOD_MODE_BITS < (of_int uint_max :: 64 word)"
      by (simp add: uint_max_def CHMOD_MODE_BITS_val)
    have small: "v \<le> uint_max \<Longrightarrow> ucast CHMOD_MODE_BITS < (of_int v :: 64 word) \<longleftrightarrow> 0xFFF < v"
      using uint_of_int_small [OF v0] by (simp add: word_less_def CHMOD_MODE_BITS_val)
    have cast: "v \<le> uint_max \<Longrightarrow> (ucast (of_int v :: 64 word) :: mode_t) = of_int v"
      using uint_of_int_small [OF v0] by (metis word_of_int_uint ucast_eq)
    show ?thesis
    proof (cases "uint_max < v")
      case True
      then have "0xFFF < v" by (simp add: uint_max_def)
      then show ?thesis
        using octal st big True v by (simp add: parse_mode_def)
    next
      case False
      then show ?thesis
        using octal st small cast v \<open>list_all (in_base 8) (c # s)\<close> by (simp add: parse_mode_def)
    qed
  qed
qed

text \<open>A symbolic mode never starts with a digit.\<close>

lemma print_clauses_start: "print_clauses cs \<noteq> [] \<Longrightarrow> \<not> in_base 8 (hd (print_clauses cs))"
proof -
  have who: "\<not> in_base 8 (who_char a)" for a
    by (cases a) (simp_all add: in_base_def isdigit_def)
  have op: "\<not> in_base 8 (op_char a)" for a
    by (cases a) (simp_all add: in_base_def isdigit_def)
  have "\<not> in_base 8 (hd (print_clause c @ t))" for c t
    by (cases c; cases "fst c") (simp_all add: print_clause_def who op)
  from this [of _ "[]"] this show "print_clauses cs \<noteq> [] \<Longrightarrow> \<not> in_base 8 (hd (print_clauses cs))"
    by (cases cs rule: print_clauses.cases) simp_all
qed

lemma clause_effect_range: "M \<subseteq> {0..11} \<Longrightarrow> clause_effect M c \<subseteq> {0..11}"
proof -
  assume M: "M \<subseteq> {0..11}"
  obtain ws op ps where c: "c = (ws, op, ps)" by (cases c)
  have "who_bits a \<subseteq> {0..11}" for a by (cases a) auto
  then have "class_bits ws \<subseteq> {0..11}" by (auto simp: class_bits_def)
  then show ?thesis using M by (cases op) (auto simp: c clause_effect_def Let_def)
qed

lemma clauses_range: "M \<subseteq> {0..11} \<Longrightarrow> foldl clause_effect M cs \<subseteq> {0..11}"
  by (induction cs arbitrary: M) (simp_all add: clause_effect_range)

lemma parse_mode_range: "parse_mode s = Inr m \<Longrightarrow> m \<le> CHMOD_MODE_BITS"
proof (cases s)
  case (Cons c t)
  assume m: "parse_mode s = Inr m"
  show ?thesis
  proof (cases "in_base 8 c")
    case True
    then have v: "digits_val 8 s \<le> 0xFFF" "m = of_int (digits_val 8 s)" "list_all (in_base 8) s"
      using m by (auto simp: Cons parse_mode_octal split: if_splits)
    moreover have "0 \<le> digits_val 8 s" using digits_val_nonneg[of 8 s] v(3) by simp
    ultimately have "uint m = digits_val 8 s"
      by (simp add: uint_word_of_int_eq take_bit_int_eq_self)
    then show ?thesis using v(1) by (simp add: word_le_def CHMOD_MODE_BITS_val)
  next
    case False
    then have "parse_clauses s 0 s = Inr m"
      using m octal_start[of c] unfolding parse_mode_def Cons list.case by (auto simp del: octal_start)
    then obtain cs where "mode_set m = foldl clause_effect {} cs"
      using parse_clauses_iff[of s s 0 m] Cons by auto
    then have "mode_set m \<subseteq> {0..11}" using clauses_range[of "{}" cs] by simp
    then have "m AND mask 12 = m"
      by (intro bit_eqI) (force simp: bit_simps mode_set_def subset_iff)
    then have "m \<le> mask 12" by (metis word_and_le1)
    then show ?thesis by (simp add: CHMOD_MODE_BITS_val mask_eq_exp_minus_1)
  qed
qed (simp add: parse_mode_def)

text \<open>
  C22. \<^verbatim>\<open>parse_mode\<close> accepts exactly two kinds of text: a non-empty octal numeral of value at
  most \<^verbatim>\<open>07777\<close>, which is its own mode, and a comma-separated list of clauses
  \<^verbatim>\<open>[ugoa...][=+-][rwxst...]\<close> (no trailing comma), whose mode has exactly the bits that the clauses, read from left
  to right from the empty mode, give to each class of users. Everything else is rejected.
\<close>

theorem parse_mode_iff:
  "parse_mode s = Inr m \<longleftrightarrow>
     (s \<noteq> [] \<and> list_all (in_base 8) s \<and> digits_val 8 s \<le> 0xFFF \<and> m = of_int (digits_val 8 s)) \<or>
     (\<exists>cs. cs \<noteq> [] \<and> s = print_clauses cs \<and> mode_set m = symbolic_bits cs)"
proof (cases s)
  case Nil
  then show ?thesis
    by (auto simp: parse_mode_def print_clauses_nonempty dest: print_clauses_nonempty)
next
  case (Cons c t)
  show ?thesis
  proof (cases "in_base 8 c")
    case True
    have "\<nexists>cs. s = print_clauses cs"
      using True Cons print_clauses_start by (metis list.sel(1) list.distinct(1))
    then show ?thesis
      using Cons by (auto simp: parse_mode_octal [OF True])
  next
    case False
    have "parse_mode s = parse_clauses s 0 s"
      using False octal_start [of c] by (auto simp: parse_mode_def Cons)
    then show ?thesis
      using False parse_clauses_iff [of s s 0 m] Cons by (auto simp: symbolic_bits_def)
  qed
qed

subsection \<open>Sizes\<close>

definition size_unit :: "string \<Rightarrow> int option" where
  "size_unit suffix =
     (if suffix = [] then Some 1
      else if suffix = ''K'' \<or> suffix = ''k'' then Some 1024
      else if suffix = ''M'' \<or> suffix = ''m'' then Some (1024 * 1024)
      else if suffix = ''G'' \<or> suffix = ''g'' then Some (1024 * 1024 * 1024)
      else None)"

lemma toupper_cases:
  "toupper c = CHR ''K'' \<longleftrightarrow> c = CHR ''K'' \<or> c = CHR ''k''"
  "toupper c = CHR ''M'' \<longleftrightarrow> c = CHR ''M'' \<or> c = CHR ''m''"
  "toupper c = CHR ''G'' \<longleftrightarrow> c = CHR ''G'' \<or> c = CHR ''g''"
proof -
  have eq: "c = d \<longleftrightarrow> (of_char c :: int) = of_char d" for d by simp
  have up: "char_of (x :: int) = d \<longleftrightarrow> x mod 256 = of_char d" for x d
    by (metis char_of_char char_of_mod_256 of_char_mod_256 of_char_of)
  show "toupper c = CHR ''K'' \<longleftrightarrow> c = CHR ''K'' \<or> c = CHR ''k''"
    by (auto simp: toupper_def up eq)
  show "toupper c = CHR ''M'' \<longleftrightarrow> c = CHR ''M'' \<or> c = CHR ''m''"
    by (auto simp: toupper_def up eq)
  show "toupper c = CHR ''G'' \<longleftrightarrow> c = CHR ''G'' \<or> c = CHR ''g''"
    by (auto simp: toupper_def up eq)
qed

lemma size_multiplier_unit: "size_multiplier suffix s = Inr k \<longleftrightarrow> size_unit suffix = Some (uint k)"
proof (cases suffix)
  case Nil
  have "uint k = 1 \<longleftrightarrow> k = 1" by (metis uint_1 word_uint_eqI)
  then show ?thesis using Nil by (auto simp: size_multiplier_def size_unit_def)
next
  case (Cons c cs)
  have units: "uint SIZE_K = 1024" "uint SIZE_M = 1048576" "uint SIZE_G = 1073741824"
    by (simp_all add: SIZE_K_def SIZE_M_def SIZE_G_def)
  have k: "k = SIZE_K \<longleftrightarrow> uint k = 1024" "k = SIZE_M \<longleftrightarrow> uint k = 1048576" "k = SIZE_G \<longleftrightarrow> uint k = 1073741824"
    by (metis units word_uint_eqI)+
  show ?thesis
    using Cons k
    by (auto simp: size_multiplier_def size_unit_def toupper_cases Let_def eq_commute [of _ k]
        split: option.splits if_splits)
qed

lemma size_unit_values: "size_unit suffix = Some k \<Longrightarrow> k \<in> {1, 1024, 1024 * 1024, 1024 * 1024 * 1024}"
  by (auto simp: size_unit_def split: if_splits)

lemma size_unit_no_digit: "size_unit suffix = Some k \<Longrightarrow> suffix = [] \<or> \<not> isdigit (hd suffix)"
  by (auto simp: size_unit_def isdigit_def split: if_splits)

definition off_max :: int where
  "off_max = 0x7FFFFFFFFFFFFFFF"

lemma uint_off_t_max_value: "uint off_t_max_value = off_max"
  by (simp add: off_t_max_value_def off_max_def push_bit_eq_mult)

text \<open>The overflow guard of the source is exact, and where it passes the product does not wrap.\<close>

lemma size_guard:
  fixes val k :: uintmax_t
  assumes "0 < uint k"
  shows "off_t_max_value div k < val \<longleftrightarrow> off_max < uint val * uint k"
proof -
  have "off_max div uint k < uint val \<longleftrightarrow> off_max < uint val * uint k"
    using assms by (rule int_div_less)
  then show ?thesis by (simp add: word_less_def uint_div uint_off_t_max_value)
qed

lemma size_product:
  fixes val k :: uintmax_t
  assumes "uint val * uint k \<le> off_max"
  shows "sint (val * k) = uint val * uint k"
proof -
  have "val * k = word_of_int (uint val * uint k)"
    by (simp flip: wi_hom_mult)
  then have "sint (val * k) = signed_take_bit 63 (uint val * uint k)"
    by (simp only: sint_sbintrunc') simp
  also have "\<dots> = uint val * uint k"
  proof (rule signed_take_bit_int_eq_self)
    show "- (2 ^ 63) \<le> uint val * uint k"
      by (rule order_trans [of _ 0]) simp_all
    show "uint val * uint k < 2 ^ 63"
      using assms by (simp add: off_max_def)
  qed
  finally show ?thesis .
qed

lemma parse_size_range: "parse_size s = Inr n \<Longrightarrow> 0 \<le> n \<and> n \<le> off_max"
proof -
  assume "parse_size s = Inr n"
  then obtain v e k where k: "size_multiplier e s = Inr k" "\<not> off_t_max_value div k < v" "n = sint (v * k)"
    by (auto simp: parse_size_def split: if_splits prod.splits sum.splits)
  have "0 < uint k" using k(1) size_unit_values[of e "uint k"] by (auto simp: size_multiplier_unit)
  then have "uint v * uint k \<le> off_max" using k(2) size_guard by auto
  then show ?thesis using k(3) size_product[of v k] by simp
qed

text \<open>
  C23. \<^verbatim>\<open>parse_size\<close> accepts exactly a decimal numeral with an optional suffix
  \<^verbatim>\<open>K\<close>, \<^verbatim>\<open>M\<close> or \<^verbatim>\<open>G\<close> (either case, nothing behind it) whose product fits \<^verbatim>\<open>off_t\<close>, and
  returns that product: the 64-bit multiplication never wraps.
\<close>

theorem parse_size_iff:
  "parse_size s = Inr n \<longleftrightarrow>
     (\<exists>ds suffix k. s = ds @ suffix \<and> ds \<noteq> [] \<and> list_all isdigit ds \<and>
        size_unit suffix = Some k \<and> n = digits_val 10 ds * k \<and> n \<le> off_max)"
proof (cases "s = [] \<or> \<not> isdigit (hd s)")
  case True
  then have "\<nexists>ds suffix. s = ds @ suffix \<and> ds \<noteq> [] \<and> list_all isdigit ds"
    by (auto simp: list_all_iff)
  with True show ?thesis by (auto simp: parse_size_def)
next
  case False
  then obtain c t where s: "s = c # t" and c: "isdigit c" by (cases s) auto
  define ds suf where "ds = takeWhile isdigit s" and "suf = dropWhile isdigit s"
  have split: "s = ds @ suf" "ds \<noteq> []" "list_all isdigit ds" "suf = [] \<or> \<not> isdigit (hd suf)"
    using c hd_dropWhile_not [of isdigit s] by (simp_all add: ds_def suf_def s list_all_takeWhile_self)
  have uniq: "ds' = ds \<and> suf' = suf"
    if "s = ds' @ suf'" "list_all isdigit ds'" "size_unit suf' = Some k" for ds' suf' k
    using takeWhile_dropWhile_split [of s ds' suf' isdigit] size_unit_no_digit [OF that(3)] that
    by (auto simp: ds_def suf_def list_all_iff)
  have v0: "0 \<le> digits_val 10 ds"
    using digits_val_nonneg [of 10 ds] split(3) by simp
  have st: "strtou 10 s = (if uint_max < digits_val 10 ds then (of_int uint_max, suf, True)
      else (of_int (digits_val 10 ds), suf, False))"
    using c by (simp add: s strtou_digit [OF c] Let_def ds_def suf_def)
  have suf: "suf \<noteq> s" using split(1,2) by auto
  show ?thesis
  proof (cases "size_unit suf")
    case None
    then have "\<nexists>k. size_multiplier suf s = Inr k" by (simp add: size_multiplier_unit)
    then have "parse_size s \<noteq> Inr n"
      using False st suf by (auto simp: parse_size_def split: sum.splits)
    with None uniq show ?thesis by auto
  next
    case (Some k)
    define v where "v = digits_val 10 ds"
    have k: "k \<in> {1, 1024, 1024 * 1024, 1024 * 1024 * 1024}" using size_unit_values Some .
    define kw :: uintmax_t where "kw = word_of_int k"
    have kw: "uint kw = k" using k by (auto simp: kw_def)
    have mult: "size_multiplier suf s = Inr kw" using Some by (simp add: size_multiplier_unit kw)
    have rhs: "(\<exists>ds suffix k. s = ds @ suffix \<and> ds \<noteq> [] \<and> list_all isdigit ds \<and>
        size_unit suffix = Some k \<and> n = digits_val 10 ds * k \<and> n \<le> off_max) \<longleftrightarrow>
        n = v * k \<and> v * k \<le> off_max" (is "?L \<longleftrightarrow> ?R")
    proof
      assume ?L
      then obtain ds' suf' k' where *: "s = ds' @ suf'" "list_all isdigit ds'" "size_unit suf' = Some k'"
          "n = digits_val 10 ds' * k'" "n \<le> off_max" by blast
      moreover have "ds' = ds \<and> suf' = suf" using uniq *(1-3) by blast
      ultimately show ?R using Some by (auto simp: v_def)
    next
      assume ?R
      with split(1-3) Some show ?L unfolding v_def by blast
    qed
    show ?thesis
    proof (cases "uint_max < v")
      case True
      then have "parse_size s \<noteq> Inr n"
        using False st by (simp add: parse_size_def v_def)
      moreover have "off_max < v * 1" using True by (simp add: off_max_def uint_max_def)
      moreover have "v * 1 \<le> v * k" using k v0 by (intro mult_left_mono) (auto simp: v_def)
      ultimately show ?thesis unfolding rhs by linarith
    next
      case nowrap: False
      then have v: "uint (of_int v :: 64 word) = v"
        using v0 uint_of_int_small by (simp add: v_def)
      have "0 < uint kw" using k kw by auto
      note guard = size_guard [OF this, of "of_int v"] and prod = size_product [of "of_int v" kw]
      have "parse_size s = (if off_max < v * k then Inl (''size too large: '' @ quoted s @ nl) else Inr (v * k))"
        using False st suf nowrap guard prod mult by (simp add: parse_size_def v_def kw v [unfolded v_def])
      then show ?thesis unfolding rhs by auto
    qed
  qed
qed

subsection \<open>Owners\<close>

text \<open>The identifiers that are not names: decimal numbers that fit and are not \<^verbatim>\<open>(uid_t)-1\<close>.\<close>

definition numeric_id :: "string \<Rightarrow> int option" where
  "numeric_id s =
     (if s \<noteq> [] \<and> list_all isdigit s \<and> digits_val 10 s < 0xFFFFFFFF then Some (digits_val 10 s) else None)"

lemma parse_uint_id_Some:
  "parse_uint_id s = Some i \<longleftrightarrow> s \<noteq> [] \<and> list_all isdigit s \<and> uint i = digits_val 10 s"
proof (cases "s \<noteq> [] \<and> list_all isdigit s")
  case True
  then obtain c t where s: "s = c # t" and c: "isdigit c" by (cases s) auto
  have all: "takeWhile isdigit s = s" "dropWhile isdigit s = []"
    using True by (simp_all only: list_all_takeWhile dropWhile_Nil_iff)
  have v0: "0 \<le> digits_val 10 s"
    using digits_val_nonneg [of 10 s] True by simp
  have st: "strtou 10 s = (if uint_max < digits_val 10 s then (of_int uint_max, [], True)
      else (of_int (digits_val 10 s), [], False))"
    using all by (simp only: s strtou_digit [OF c] Let_def in_base_10) simp
  have "uint i \<le> uint_max" using uint_lt2p [of i] by (simp add: uint_max_def)
  moreover have "\<not> uint_max < digits_val 10 s \<Longrightarrow> i = of_int (digits_val 10 s) \<longleftrightarrow> uint i = digits_val 10 s"
    using uint_of_int_small [OF v0] by (metis linorder_not_less word_of_int_uint)
  ultimately show ?thesis
    using True st by (auto simp: parse_uint_id_def)
next
  case False
  then show ?thesis by (auto simp: parse_uint_id_def)
qed

lemma id_fits:
  "(if ucast (ucast (i :: uintmax_t) :: 32 word) \<noteq> i \<or> (ucast i :: 32 word) = -1 then None
    else Some (ucast i :: 32 word)) = (if uint i < 0xFFFFFFFF then Some (of_int (uint i)) else None)"
proof -
  have i0: "0 \<le> uint i" by simp
  have u: "uint (ucast i :: 32 word) = uint i mod 2 ^ 32"
    by (simp add: unsigned_ucast_eq take_bit_eq_mod)
  have "ucast (ucast i :: 32 word) = i \<longleftrightarrow> uint i mod 2 ^ 32 = uint i"
    by (metis u unsigned_ucast_eq ucast_uint_32 word_uint_eqI)
  also have "\<dots> \<longleftrightarrow> uint i < 2 ^ 32"
    using i0 by (metis mod_pos_pos_trivial pos_mod_bound zero_less_numeral zero_less_power)
  finally have fits: "ucast (ucast i :: 32 word) = i \<longleftrightarrow> uint i < 2 ^ 32" .
  have m1: "(ucast i :: 32 word) = -1 \<longleftrightarrow> uint i mod 2 ^ 32 = 0xFFFFFFFF"
    by (simp only: word_uint_eq_iff u uint_minus_one_32)
  have c: "(ucast i :: 32 word) = of_int (uint i)" by (rule ucast_eq)
  show ?thesis
  proof (cases "uint i < 2 ^ 32")
    case True
    then have "uint i mod 2 ^ 32 = uint i" using i0 by simp
    with True fits m1 have "(ucast (ucast i :: 32 word) \<noteq> i \<or> (ucast i :: 32 word) = -1) \<longleftrightarrow> \<not> uint i < 0xFFFFFFFF"
      by auto
    then show ?thesis by (simp only: c if_not_P split: if_split) auto
  next
    case False
    with fits show ?thesis by simp
  qed
qed

text \<open>
  C25. A name in the database wins over its reading as a number; otherwise exactly the
  decimal numerals below \<^verbatim>\<open>(uid_t)-1\<close> are identifiers, with no wrap-around in the narrowing
  from \<^verbatim>\<open>uintmax_t\<close>.
\<close>

theorem lookup_numeric:
  "lookup_uid db s = (case db s of Some u \<Rightarrow> Some u | None \<Rightarrow> map_option of_int (numeric_id s)) \<and>
   lookup_gid db s = (case db s of Some u \<Rightarrow> Some u | None \<Rightarrow> map_option of_int (numeric_id s))"
proof -
  have *: "(case parse_uint_id s of None \<Rightarrow> None | Some i \<Rightarrow>
      if ucast (ucast i :: 32 word) \<noteq> i \<or> (ucast i :: 32 word) = -1 then None
      else Some (ucast i :: 32 word)) = map_option of_int (numeric_id s)"
  proof (cases "parse_uint_id s")
    case None
    have "numeric_id s = None"
    proof (rule ccontr)
      assume "numeric_id s \<noteq> None"
      then have s: "s \<noteq> []" "list_all isdigit s" "digits_val 10 s < 0xFFFFFFFF"
        by (auto simp: numeric_id_def split: if_splits)
      then have "uint (of_int (digits_val 10 s) :: 64 word) = digits_val 10 s"
        using digits_val_nonneg [of 10 s] by (intro uint_of_int_small) (simp_all add: uint_max_def)
      with s(1,2) have "parse_uint_id s = Some (of_int (digits_val 10 s))"
        by (simp add: parse_uint_id_Some)
      with None show False by simp
    qed
    with None show ?thesis by simp
  next
    case (Some i)
    then have "s \<noteq> []" "list_all isdigit s" "uint i = digits_val 10 s"
      by (simp_all add: parse_uint_id_Some)
    then have "numeric_id s = (if uint i < 0xFFFFFFFF then Some (uint i) else None)"
      by (simp add: numeric_id_def)
    with Some show ?thesis by (simp only: option.case id_fits) simp
  qed
  show ?thesis by (simp only: lookup_uid_def lookup_gid_def *)
qed

text \<open>
  What an accepted owner sets: the group first, then the user, from the two parts of the text.
\<close>

definition owner_parts :: "string \<Rightarrow> string \<Rightarrow> string option \<Rightarrow> bool" where
  "owner_parts s u g \<longleftrightarrow> CHR '':'' \<notin> set u \<and>
     (case g of None \<Rightarrow> s = u \<and> u \<noteq> [] | Some g \<Rightarrow> s = u @ CHR '':'' # g \<and> g \<noteq> [])"

lemma split_owner_parts:
  "split_owner s = (u, g) \<longleftrightarrow>
     CHR '':'' \<notin> set u \<and> (case g of None \<Rightarrow> s = u | Some g \<Rightarrow> s = u @ CHR '':'' # g)"
proof (cases "strchr s (CHR '':'')")
  case None
  then have "CHR '':'' \<notin> set s" by (simp add: strchr_None)
  with None show ?thesis by (auto simp: split_owner_def split: option.splits)
next
  case (Some i)
  then have i: "i < length s" "s ! i = CHR '':''" "CHR '':'' \<notin> set (take i s)"
    by (simp_all add: strchr_Some)
  then have s: "s = take i s @ CHR '':'' # drop (Suc i) s"
    by (metis id_take_nth_drop)
  have "u = take i s \<and> h = drop (Suc i) s" if "s = u @ CHR '':'' # h" "CHR '':'' \<notin> set u" for u h
    using s i(3) that by (metis append_Cons_first)
  moreover have "CHR '':'' \<in> set s" using i by (metis nth_mem)
  ultimately show ?thesis
    using Some s i(3) unfolding split_owner_def by (cases g) (auto split: option.splits)
qed

definition owner_result ::
  "(string \<Rightarrow> uid_t option) \<Rightarrow> (string \<Rightarrow> gid_t option) \<Rightarrow> string \<Rightarrow> string option \<Rightarrow> owner_out \<Rightarrow> owner_out option" where
  "owner_result pw gr u g out =
     (case (if u = [] then Some (oo_uid out) else lookup_uid pw u,
            case g of None \<Rightarrow> Some (oo_gid out) | Some h \<Rightarrow> lookup_gid gr h) of
        (Some i, Some j) \<Rightarrow>
          Some (out\<lparr>oo_uid := i, oo_gid := j, oo_set_uid := u \<noteq> [], oo_set_gid := g \<noteq> None\<rparr>)
      | _ \<Rightarrow> None)"

text \<open>
  C24. When memory suffices, \<^verbatim>\<open>parse_owner\<close> succeeds exactly on \<^verbatim>\<open>user\<close>,
  \<^verbatim>\<open>user:group\<close> and \<^verbatim>\<open>:group\<close> whose parts are known names or numeric identifiers, splitting at
  the first colon; a colon must be followed by a group. It then sets the identifiers of the parts
  that were given, leaves the others alone, and its two flags say which were given.
\<close>

theorem parse_owner_iff:
  "parse_owner pw gr True (Some s) out = (0, out') \<longleftrightarrow>
     (\<exists>u g. owner_parts s u g \<and> owner_result pw gr u g out = Some out')"
proof -
  obtain u g where sp: "split_owner s = (u, g)" by fastforce
  have ug: "CHR '':'' \<notin> set u" "case g of None \<Rightarrow> s = u | Some g \<Rightarrow> s = u @ CHR '':'' # g"
    using sp by (simp_all add: split_owner_parts)
  have rhs: "(\<exists>u g. owner_parts s u g \<and> owner_result pw gr u g out = Some out') \<longleftrightarrow>
      owner_parts s u g \<and> owner_result pw gr u g out = Some out'"
  proof -
    have "u' = u \<and> g' = g" if "owner_parts s u' g'" for u' g'
    proof -
      have "split_owner s = (u', g')"
        using that by (auto simp: split_owner_parts owner_parts_def split: option.splits)
      with sp show ?thesis by simp
    qed
    then show ?thesis by blast
  qed
  show ?thesis
    unfolding rhs using ug sp
    by (cases g; cases "u = []")
      (auto simp: parse_owner_def owner_group_def owner_user_def owner_parts_def owner_result_def
        split: option.splits if_splits)
qed

end
