(* ===== verification/Spec.thy ===== *)
theory Spec
  imports Options Parse
begin

text \<open>
  \<^verbatim>\<open>src/spec.c\<close>: what the command line asks for. The options are read one by one into the
  request, which is then checked and its values parsed. A call that does not return (the usage
  text, the version, an error exit) is the left value: what it printed, and the exit status.
\<close>

subsection \<open>The request\<close>

text \<open>\<^verbatim>\<open>struct tmpl\<close> of \<^verbatim>\<open>template.c\<close>, which \<^verbatim>\<open>spec.h\<close> declares and the request points to.\<close>

datatype tmpl_kind = TMPL_EXTENTS | TMPL_ZEROS | TMPL_STREAM

record tmpl =
  tm_size :: int
  tm_kind :: tmpl_kind
  tm_fd :: int
  tm_own_fd :: bool
  tm_tail_hole :: bool

record file_spec =
  fs_size :: int
  fs_tmpl :: "tmpl option"
  template_file :: "string option"
  backup_control :: "string option"
  fs_mode :: mode_t
  fs_uid :: uid_t
  fs_gid :: gid_t
  verbose :: bool
  absolute_given :: bool
  force_mode :: bool
  parents_mode :: bool
  sparse_mode :: bool
  size_given :: bool
  backup_given :: bool
  set_owner :: bool
  set_uid :: bool
  set_gid :: bool
  uid_changes :: bool

record spec_args =
  sa_mode :: "string option"
  sa_owner :: "string option"
  sa_reference :: "string option"
  sa_size :: "string option"

text \<open>
  What the parse asks of the system: the environment, the user and group databases, \<^verbatim>\<open>stat\<close>
  of the reference file (the text of the error, or the mode), the effective user, whether
  \<^verbatim>\<open>malloc\<close> has memory, and whether the standard streams close without an error.
\<close>

record spec_sys =
  sy_program_name :: string
  sy_VERSION :: string
  sy_getenv :: "string \<Rightarrow> string option"
  sy_getpwnam :: "string \<Rightarrow> uid_t option"
  sy_getgrnam :: "string \<Rightarrow> gid_t option"
  sy_stat_mode :: "string \<Rightarrow> string + mode_t"
  sy_geteuid :: uid_t
  sy_memory :: bool
  sy_close_std :: bool

type_synonym 'a or_stop = "printed + 'a"

definition error_text :: "spec_sys \<Rightarrow> string \<Rightarrow> string" where
  "error_text sys msg = sy_program_name sys @ '': '' @ msg"

definition error_stop :: "spec_sys \<Rightarrow> string \<Rightarrow> string \<Rightarrow> printed" where
  "error_stop sys pre msg =
     \<lparr>to_stdout = [], to_stderr = pre @ error_text sys msg, exit_status = EXIT_FAILURE\<rparr>"

definition usage_stop :: "spec_sys \<Rightarrow> string \<Rightarrow> int \<Rightarrow> printed" where
  "usage_stop sys pre status =
     (let p = options_usage (sy_getenv sys ''COLUMNS'') (sy_program_name sys) (sy_close_std sys) status
      in p\<lparr>to_stderr := pre @ to_stderr p\<rparr>)"

subsection \<open>Reading the options\<close>

definition spec_reset :: "file_spec \<times> spec_args" where
  "spec_reset =
     (\<lparr>fs_size = 0, fs_tmpl = None, template_file = None, backup_control = None, fs_mode = 0, fs_uid = 0, fs_gid = 0,
       verbose = False, absolute_given = False, force_mode = False, parents_mode = False, sparse_mode = False,
       size_given = False, backup_given = False, set_owner = False, set_uid = False, set_gid = False,
       uid_changes = False\<rparr>,
      \<lparr>sa_mode = None, sa_owner = None, sa_reference = None, sa_size = None\<rparr>)"

definition spec_misuse :: "spec_sys \<Rightarrow> int \<Rightarrow> string option \<Rightarrow> int \<Rightarrow> printed" where
  "spec_misuse sys opt name optopt =
     usage_stop sys
       (if opt = ret_missing then
          (case name of
             Some n \<Rightarrow> error_text sys (''option '' @ quoted (''--'' @ n) @ '' requires an argument'' @ nl)
           | None \<Rightarrow> error_text sys (''option requires an argument -- '' @ [char_of optopt] @ nl))
        else if opt = ret_excess then
          error_text sys (''option '' @ quoted (''--'' @ (case name of Some n \<Rightarrow> n | None \<Rightarrow> [])) @
            '' does not take an argument'' @ nl)
        else if opt = ret_unknown then
          (case name of
             Some n \<Rightarrow> error_text sys (''unknown option '' @ quoted n @ nl)
           | None \<Rightarrow> error_text sys (''unknown option -- '' @ [char_of optopt] @ nl))
        else []) EXIT_FAILURE"

text \<open>One option: its value, \<^verbatim>\<open>opt_arg\<close>, \<^verbatim>\<open>opt_name\<close> and \<^verbatim>\<open>opt_opt\<close>.\<close>

definition spec_option :: "spec_sys \<Rightarrow> opt_event \<Rightarrow> file_spec \<times> spec_args \<Rightarrow> (file_spec \<times> spec_args) or_stop" where
  "spec_option sys ev sa =
     (case (ev, sa) of ((opt, arg, name, optopt), (spec, args)) \<Rightarrow>
        if opt = OPTVAL_HELP then Inl (usage_stop sys [] EXIT_SUCCESS)
        else if opt = OPTVAL_VERSION then Inl (options_version (sy_VERSION sys) (sy_close_std sys))
        else if opt = of_char (CHR ''m'') then Inr (spec, args\<lparr>sa_mode := arg\<rparr>)
        else if opt = of_char (CHR ''A'') then Inr (spec\<lparr>absolute_given := True\<rparr>, args)
        else if opt = of_char (CHR ''p'') then Inr (spec\<lparr>parents_mode := True\<rparr>, args)
        else if opt = of_char (CHR ''f'') then Inr (spec\<lparr>force_mode := True\<rparr>, args)
        else if opt = of_char (CHR ''o'') then Inr (spec, args\<lparr>sa_owner := arg\<rparr>)
        else if opt = OPTVAL_REFERENCE then Inr (spec, args\<lparr>sa_reference := arg\<rparr>)
        else if opt = of_char (CHR ''s'') then Inr (spec\<lparr>size_given := True\<rparr>, args\<lparr>sa_size := arg\<rparr>)
        else if opt = OPTVAL_TEMPLATE then Inr (spec\<lparr>template_file := arg\<rparr>, args)
        else if opt = OPTVAL_BACKUP then
          Inr (spec\<lparr>backup_given := True,
                    backup_control := (if arg \<noteq> None then arg else backup_control spec)\<rparr>, args)
        else if opt = of_char (CHR ''b'') then Inr (spec\<lparr>backup_given := True\<rparr>, args)
        else if opt = OPTVAL_SPARSE then Inr (spec\<lparr>sparse_mode := True\<rparr>, args)
        else if opt = of_char (CHR ''v'') then Inr (spec\<lparr>verbose := True\<rparr>, args)
        else Inl (spec_misuse sys opt name optopt))"

text \<open>The loop of \<^verbatim>\<open>spec_parse\<close>; each call of the parser makes progress.\<close>

function spec_loop :: "spec_sys \<Rightarrow> optstate \<Rightarrow> file_spec \<times> spec_args \<Rightarrow> (optstate \<times> file_spec \<times> spec_args) or_stop" where
  "spec_loop sys st sa =
     (case optparse_long options_optstring (Some options_long) st of (opt, st') \<Rightarrow>
        if opt = -1 then Inr (st', sa)
        else case spec_option sys (opt, opt_arg st', opt_name st', opt_opt st') sa of
            Inl stop \<Rightarrow> Inl stop
          | Inr sa' \<Rightarrow> spec_loop sys st' sa')"
  by pat_completeness auto
termination
  by (relation "inv_image opt_less (\<lambda>(sys, st, sa). st)") (auto dest: optparse_long_progress [OF sym])

declare spec_loop.simps [simp del]

subsection \<open>Checking the request\<close>

definition backup_controls :: "string list" where
  "backup_controls = [''simple'', ''never'', ''none'', ''off'', ''numbered'', ''t'', ''existing'', ''nil'']"

definition backup_control_known :: "string \<Rightarrow> bool" where
  "backup_control_known control \<longleftrightarrow> list_ex (\<lambda>k. strcmp control k = 0) backup_controls"

text \<open>\<^verbatim>\<open>spec_check\<close> returns the warnings it printed with the request.\<close>

definition spec_check :: "spec_sys \<Rightarrow> file_spec \<Rightarrow> spec_args \<Rightarrow> (string \<times> file_spec) or_stop" where
  "spec_check sys spec args =
     (if sa_mode args \<noteq> None \<and> sa_reference args \<noteq> None then
        Inl (error_stop sys [] (''options '' @ quoted ''--mode'' @ '' and '' @ quoted ''--reference'' @
          '' are mutually exclusive'' @ nl))
      else
        (let warn1 = (if backup_given spec \<and> \<not> force_mode spec
                      then error_text sys (''warning: backup option has no effect without --force'' @ nl) else []);
             warn2 = (if sparse_mode spec \<and> \<not> size_given spec
                      then error_text sys (''warning: --sparse has no effect without --size'' @ nl) else [])
         in if backup_given spec \<and> force_mode spec then
              (let control =
                     (case backup_control spec of
                        Some c \<Rightarrow> c
                      | None \<Rightarrow> (case sy_getenv sys ''VERSION_CONTROL'' of Some c \<Rightarrow> c | None \<Rightarrow> ''existing''))
               in if \<not> backup_control_known control
                  then Inl (error_stop sys (warn1 @ warn2) (''invalid backup control '' @ quoted control @ nl))
                  else Inr (warn1 @ warn2, spec\<lparr>backup_control := Some control\<rparr>))
            else Inr (warn1 @ warn2, spec)))"

definition spec_mode :: "spec_sys \<Rightarrow> spec_args \<Rightarrow> mode_t or_exit" where
  "spec_mode sys args =
     (case sa_reference args of
        Some ref \<Rightarrow>
          (case sy_stat_mode sys ref of
             Inl why \<Rightarrow> Inl (''cannot stat reference file '' @ quoted ref @ '': '' @ why @ nl)
           | Inr m \<Rightarrow> Inr (m AND CHMOD_MODE_BITS))
      | None \<Rightarrow>
          (case sa_mode args of
             Some m \<Rightarrow> parse_mode m
           | None \<Rightarrow> Inr (S_IRUSR OR S_IWUSR OR S_IRGRP OR S_IWGRP OR S_IROTH OR S_IWOTH)))"

definition spec_owner :: "spec_sys \<Rightarrow> spec_args \<Rightarrow> file_spec \<Rightarrow> file_spec or_exit" where
  "spec_owner sys args spec =
     (case sa_owner args of
        None \<Rightarrow> Inr (spec\<lparr>set_owner := False, uid_changes := set_uid spec \<and> fs_uid spec \<noteq> sy_geteuid sys\<rparr>)
      | Some ow \<Rightarrow>
          (case parse_owner (sy_getpwnam sys) (sy_getgrnam sys) (sy_memory sys) (Some ow)
                  \<lparr>oo_uid = fs_uid spec, oo_gid = fs_gid spec, oo_set_uid = set_uid spec, oo_set_gid = set_gid spec\<rparr> of
             (ret, out) \<Rightarrow>
               if ret \<noteq> 0 then Inl (''invalid owner: '' @ quoted ow @ nl)
               else Inr (spec\<lparr>fs_uid := oo_uid out, fs_gid := oo_gid out, set_uid := oo_set_uid out,
                              set_gid := oo_set_gid out, set_owner := True,
                              uid_changes := oo_set_uid out \<and> oo_uid out \<noteq> sy_geteuid sys\<rparr>)))"

definition spec_size :: "spec_args \<Rightarrow> file_spec \<Rightarrow> file_spec or_exit" where
  "spec_size args spec =
     (if size_given spec then
        (case parse_size (case sa_size args of Some s \<Rightarrow> s | None \<Rightarrow> []) of
           Inl e \<Rightarrow> Inl e
         | Inr n \<Rightarrow> Inr (spec\<lparr>fs_size := n\<rparr>))
      else Inr spec)"

text \<open>\<^verbatim>\<open>spec_values\<close>, its three parts in the order of the code.\<close>

definition spec_values :: "spec_sys \<Rightarrow> file_spec \<Rightarrow> spec_args \<Rightarrow> file_spec or_exit" where
  "spec_values sys spec args =
     (case spec_mode sys args of
        Inl e \<Rightarrow> Inl e
      | Inr m \<Rightarrow>
          (case spec_owner sys args (spec\<lparr>fs_mode := m\<rparr>) of
             Inl e \<Rightarrow> Inl e
           | Inr spec' \<Rightarrow> spec_size args spec'))"

record parsed =
  pa_spec :: file_spec
  pa_argv :: "string list"
  pa_first :: nat
  pa_stderr :: string

definition spec_parse :: "spec_sys \<Rightarrow> string list \<Rightarrow> parsed or_stop" where
  "spec_parse sys argv =
     (case spec_loop sys (opt_init argv) spec_reset of
        Inl stop \<Rightarrow> Inl stop
      | Inr (st, spec, args) \<Rightarrow>
          if opt_ind st = length argv
          then Inl (usage_stop sys (error_text sys (''missing operand'' @ nl)) EXIT_FAILURE)
          else case spec_check sys spec args of
              Inl stop \<Rightarrow> Inl stop
            | Inr (warnings, spec1) \<Rightarrow>
                (case spec_values sys spec1 args of
                   Inl e \<Rightarrow> Inl (error_stop sys warnings e)
                 | Inr spec2 \<Rightarrow>
                     Inr \<lparr>pa_spec = spec2, pa_argv = os_argv st, pa_first = opt_ind st, pa_stderr = warnings\<rparr>))"

subsection \<open>The options, one after the other\<close>

fun spec_options :: "spec_sys \<Rightarrow> opt_event list \<Rightarrow> file_spec \<times> spec_args \<Rightarrow> (file_spec \<times> spec_args) or_stop" where
  "spec_options sys [] sa = Inr sa"
| "spec_options sys (ev # evs) sa =
     (case spec_option sys ev sa of Inl stop \<Rightarrow> Inl stop | Inr sa' \<Rightarrow> spec_options sys evs sa')"

abbreviation newfile_opts :: "string list \<Rightarrow> opt_event list \<times> optstate" where
  "newfile_opts argv \<equiv> opt_all options_optstring (Some options_long) (opt_init argv)"

lemma spec_loop_options:
  "spec_loop sys st sa =
     (case opt_all options_optstring (Some options_long) st of (evs, st') \<Rightarrow>
        (case spec_options sys evs sa of Inl stop \<Rightarrow> Inl stop | Inr sa' \<Rightarrow> Inr (st', sa')))"
proof (induction sys st sa rule: spec_loop.induct)
  case (1 sys st sa)
  then show ?case
    by (subst spec_loop.simps, subst opt_all.simps)
      (auto split: prod.splits sum.splits simp: apfst_def map_prod_def)
qed




lemma spec_parse_events:
  assumes "spec_parse sys argv = Inr p"
  obtains evs st spec args where "newfile_opts argv = (evs, st)" "spec_options sys evs spec_reset = Inr (spec, args)"
    "pa_argv p = os_argv st" "pa_first p = opt_ind st" "opt_ind st \<noteq> length argv"
    "\<exists>spec1. spec_check sys spec args = Inr (pa_stderr p, spec1) \<and> spec_values sys spec1 args = Inr (pa_spec p)"
proof -
  obtain evs st where e: "newfile_opts argv = (evs, st)" by fastforce
  show thesis
    using assms that[OF e]
    by (auto simp: spec_parse_def spec_loop_options e split: sum.splits if_splits prod.splits)
qed

text \<open>
  What the request holds after a list of options, without the loop: a flag is set when its option
  occurs, and an option that takes a value has the value of its last occurrence.
\<close>

definition given :: "int \<Rightarrow> opt_event list \<Rightarrow> bool" where
  "given v evs \<longleftrightarrow> list_ex (\<lambda>ev. fst ev = v) evs"

definition last_arg :: "int \<Rightarrow> opt_event list \<Rightarrow> string option" where
  "last_arg v evs = (case find (\<lambda>ev. fst ev = v) (rev evs) of None \<Rightarrow> None | Some ev \<Rightarrow> fst (snd ev))"

definition last_control :: "opt_event list \<Rightarrow> string option" where
  "last_control evs = last_arg OPTVAL_BACKUP (filter (\<lambda>ev. fst (snd ev) \<noteq> None) evs)"

definition requested :: "opt_event list \<Rightarrow> file_spec \<times> spec_args" where
  "requested evs =
     (\<lparr>fs_size = 0, fs_tmpl = None, template_file = last_arg OPTVAL_TEMPLATE evs,
       backup_control = last_control evs, fs_mode = 0, fs_uid = 0, fs_gid = 0,
       verbose = given (of_char (CHR ''v'')) evs, absolute_given = given (of_char (CHR ''A'')) evs,
       force_mode = given (of_char (CHR ''f'')) evs, parents_mode = given (of_char (CHR ''p'')) evs,
       sparse_mode = given OPTVAL_SPARSE evs, size_given = given (of_char (CHR ''s'')) evs,
       backup_given = given OPTVAL_BACKUP evs \<or> given (of_char (CHR ''b'')) evs,
       set_owner = False, set_uid = False, set_gid = False, uid_changes = False\<rparr>,
      \<lparr>sa_mode = last_arg (of_char (CHR ''m'')) evs, sa_owner = last_arg (of_char (CHR ''o'')) evs,
       sa_reference = last_arg OPTVAL_REFERENCE evs, sa_size = last_arg (of_char (CHR ''s'')) evs\<rparr>)"

lemma given_snoc [simp]: "given v (evs @ [ev]) \<longleftrightarrow> given v evs \<or> fst ev = v"
  by (auto simp: given_def)

lemma last_arg_snoc [simp]:
  "last_arg v (evs @ [ev]) = (if fst ev = v then fst (snd ev) else last_arg v evs)"
  by (simp add: last_arg_def)

lemma last_control_snoc [simp]:
  "last_control (evs @ [ev]) =
     (if fst ev = OPTVAL_BACKUP \<and> fst (snd ev) \<noteq> None then fst (snd ev) else last_control evs)"
  by (auto simp: last_control_def)

lemma spec_option_requested:
  "spec_option sys ev (requested evs) = Inr sa \<Longrightarrow> sa = requested (evs @ [ev])"
  by (auto simp: spec_option_def requested_def optvals split: prod.splits if_splits)

lemma spec_options_append:
  "spec_options sys (as @ bs) sa =
     (case spec_options sys as sa of Inl stop \<Rightarrow> Inl stop | Inr sb \<Rightarrow> spec_options sys bs sb)"
  by (induction as arbitrary: sa) (auto split: sum.splits)

lemma spec_options_requested:
  "spec_options sys evs spec_reset = Inr sa \<Longrightarrow> sa = requested evs"
proof (induction evs arbitrary: sa rule: rev_induct)
  case Nil
  then show ?case by (auto simp: spec_reset_def requested_def given_def last_arg_def last_control_def)
next
  case (snoc ev evs)
  then obtain sb where "spec_options sys evs spec_reset = Inr sb" "spec_option sys ev sb = Inr sa"
    by (auto simp: spec_options_append split: sum.splits)
  then show ?case using snoc.IH[of sb] spec_option_requested by simp
qed


subsection \<open>The request\<close>

text \<open>A sample of the system for the concrete runs below: no names, an empty environment.\<close>

definition plain_sys :: spec_sys where
  "plain_sys =
     \<lparr>sy_program_name = ''newfile'', sy_VERSION = ''0.3.0'', sy_getenv = (\<lambda>_. None), sy_getpwnam = (\<lambda>_. None),
      sy_getgrnam = (\<lambda>_. None), sy_stat_mode = (\<lambda>_. Inl ''No such file or directory''), sy_geteuid = 1000,
      sy_memory = True, sy_close_std = True\<rparr>"



lemma spec_check_spec:
  assumes "spec_check sys spec args = Inr (warnings, spec')"
  shows "\<exists>c. spec' = spec\<lparr>backup_control := c\<rparr>"
    and "sa_mode args = None \<or> sa_reference args = None"
    and "backup_given spec \<and> force_mode spec \<Longrightarrow>
      \<exists>c. backup_control spec' = Some c \<and> backup_control_known c \<and>
        (backup_control spec = None \<or> backup_control spec = Some c)"
  using assms by (auto simp: spec_check_def Let_def split: if_splits option.splits intro: exI[of _ "backup_control spec"])

lemma owner_set:
  "parse_owner pw gr mem (Some s) out = (0, out') \<Longrightarrow> oo_set_uid out' \<or> oo_set_gid out'"
  by (auto simp: parse_owner_def owner_group_def owner_user_def split: if_splits option.splits prod.splits)


lemma spec_values_spec:
  assumes "spec_values sys spec args = Inr spec'"
  obtains m where "spec_mode sys args = Inr m"
    "spec' = spec\<lparr>fs_mode := m, fs_uid := fs_uid spec', fs_gid := fs_gid spec', set_uid := set_uid spec',
       set_gid := set_gid spec', set_owner := sa_owner args \<noteq> None,
       uid_changes := set_uid spec' \<and> fs_uid spec' \<noteq> sy_geteuid sys, fs_size := fs_size spec'\<rparr>"
    "sa_owner args \<noteq> None \<Longrightarrow> set_uid spec' \<or> set_gid spec'"
    "sa_owner args = None \<Longrightarrow> set_uid spec' = set_uid spec \<and> set_gid spec' = set_gid spec"
    "if size_given spec
     then parse_size (case sa_size args of Some s \<Rightarrow> s | None \<Rightarrow> []) = Inr (fs_size spec')
     else fs_size spec' = fs_size spec"
  using assms that
  by (auto simp: spec_values_def spec_owner_def spec_size_def dest: owner_set
      split: sum.splits option.splits if_splits prod.splits)

definition spec_wf :: "file_spec \<Rightarrow> bool" where
  "spec_wf spec \<longleftrightarrow>
     fs_mode spec \<le> CHMOD_MODE_BITS \<and>
     0 \<le> fs_size spec \<and> fs_size spec \<le> off_max \<and> (\<not> size_given spec \<longrightarrow> fs_size spec = 0) \<and>
     (set_owner spec \<longleftrightarrow> set_uid spec \<or> set_gid spec) \<and> (uid_changes spec \<longrightarrow> set_uid spec) \<and>
     (backup_given spec \<and> force_mode spec \<longrightarrow>
        (case backup_control spec of Some c \<Rightarrow> c \<in> set backup_controls | None \<Rightarrow> False)) \<and>
     fs_tmpl spec = None"

lemma backup_control_known_iff: "backup_control_known c \<longleftrightarrow> c \<in> set backup_controls"
  by (auto simp: backup_control_known_def list_ex_iff strcmp_eq_0)

lemma spec_mode_range: "spec_mode sys args = Inr m \<Longrightarrow> m \<le> CHMOD_MODE_BITS"
  by (auto simp: spec_mode_def word_and_le1 parse_mode_range split: option.splits sum.splits)
    (simp add: mode_bits)

text \<open>What a successful parse went through, from the options seen to the fields of the request.\<close>

lemma spec_parse_parts:
  assumes "spec_parse sys argv = Inr p"
  obtains spec args bc m where "requested (fst (newfile_opts argv)) = (spec, args)"
    "spec_check sys spec args = Inr (pa_stderr p, spec\<lparr>backup_control := bc\<rparr>)"
    "spec_mode sys args = Inr m"
    "pa_spec p = spec\<lparr>backup_control := bc, fs_mode := m, fs_uid := fs_uid (pa_spec p), fs_gid := fs_gid (pa_spec p),
       set_uid := set_uid (pa_spec p), set_gid := set_gid (pa_spec p), set_owner := sa_owner args \<noteq> None,
       uid_changes := set_uid (pa_spec p) \<and> fs_uid (pa_spec p) \<noteq> sy_geteuid sys, fs_size := fs_size (pa_spec p)\<rparr>"
    "set_uid (pa_spec p) \<or> set_gid (pa_spec p) \<longleftrightarrow> sa_owner args \<noteq> None"
    "if size_given spec then parse_size (case sa_size args of Some s \<Rightarrow> s | None \<Rightarrow> []) = Inr (fs_size (pa_spec p))
     else fs_size (pa_spec p) = 0"
proof -
  from assms obtain evs st spec args where e: "newfile_opts argv = (evs, st)"
      "spec_options sys evs spec_reset = Inr (spec, args)"
      "\<exists>spec1. spec_check sys spec args = Inr (pa_stderr p, spec1) \<and> spec_values sys spec1 args = Inr (pa_spec p)"
    by (rule spec_parse_events)
  from e(1,2) have r: "requested (fst (newfile_opts argv)) = (spec, args)" using spec_options_requested by simp
  then have reset: "fs_size spec = 0" "\<not> set_uid spec" "\<not> set_gid spec" by (auto simp: requested_def)
  from e(3) obtain spec1 where c: "spec_check sys spec args = Inr (pa_stderr p, spec1)"
      "spec_values sys spec1 args = Inr (pa_spec p)" by blast
  from spec_check_spec(1)[OF c(1)] obtain bc where s1: "spec1 = spec\<lparr>backup_control := bc\<rparr>" by blast
  show thesis
    by (rule spec_values_spec[OF c(2)], rule that[OF r c(1)[unfolded s1]]) (use reset s1 in auto)
qed

text \<open>
  C19. The request that \<^verbatim>\<open>spec_parse\<close> returns is well formed: its mode has no bit outside
  \<^verbatim>\<open>07777\<close>, its size fits \<^verbatim>\<open>off_t\<close> and is 0 when none was given, an owner was asked for
  exactly when a user or a group is set, and the backup control in force is one of the known ones.
\<close>

theorem spec_parse_wf:
  assumes "spec_parse sys argv = Inr p"
  shows "spec_wf (pa_spec p)"
proof (rule spec_parse_parts[OF assms])
  fix spec args bc m
  assume r: "requested (fst (newfile_opts argv)) = (spec, args)"
    and c: "spec_check sys spec args = Inr (pa_stderr p, spec\<lparr>backup_control := bc\<rparr>)"
    and m: "spec_mode sys args = Inr m"
    and f: "pa_spec p = spec\<lparr>backup_control := bc, fs_mode := m, fs_uid := fs_uid (pa_spec p),
       fs_gid := fs_gid (pa_spec p), set_uid := set_uid (pa_spec p), set_gid := set_gid (pa_spec p),
       set_owner := sa_owner args \<noteq> None,
       uid_changes := set_uid (pa_spec p) \<and> fs_uid (pa_spec p) \<noteq> sy_geteuid sys, fs_size := fs_size (pa_spec p)\<rparr>"
    and ow: "set_uid (pa_spec p) \<or> set_gid (pa_spec p) \<longleftrightarrow> sa_owner args \<noteq> None"
    and sz: "if size_given spec
      then parse_size (case sa_size args of Some s \<Rightarrow> s | None \<Rightarrow> []) = Inr (fs_size (pa_spec p))
      else fs_size (pa_spec p) = 0"
  note f = arg_cong[OF f]
  have flags: "fs_mode (pa_spec p) = m" "size_given (pa_spec p) = size_given spec"
      "set_owner (pa_spec p) = (sa_owner args \<noteq> None)"
      "uid_changes (pa_spec p) \<longrightarrow> set_uid (pa_spec p)" "backup_given (pa_spec p) = backup_given spec"
      "force_mode (pa_spec p) = force_mode spec" "backup_control (pa_spec p) = bc" "fs_tmpl (pa_spec p) = None"
    using f[of fs_mode] f[of size_given] f[of set_owner] f[of uid_changes] f[of backup_given] f[of force_mode]
      f[of backup_control] f[of fs_tmpl] r by (auto simp: requested_def)
  have "0 \<le> fs_size (pa_spec p) \<and> fs_size (pa_spec p) \<le> off_max"
    using sz parse_size_range by (auto simp: off_max_def split: if_splits)
  moreover have "backup_given (pa_spec p) \<and> force_mode (pa_spec p) \<longrightarrow>
      (case backup_control (pa_spec p) of Some c \<Rightarrow> c \<in> set backup_controls | None \<Rightarrow> False)"
    using spec_check_spec(3)[OF c] flags by (auto simp: backup_control_known_iff)
  ultimately show ?thesis
    using flags ow sz spec_mode_range[OF m] unfolding spec_wf_def by simp
qed

theorem spec_parse_wf_witness:
  "\<exists>p. spec_parse plain_sys [''newfile'', ''-f'', ''--backup'', ''-s'', ''2K'', ''x''] = Inr p \<and> spec_wf (pa_spec p)"
proof -
  have "\<not> isl (spec_parse plain_sys [''newfile'', ''-f'', ''--backup'', ''-s'', ''2K'', ''x''])"
    by code_simp
  then show ?thesis
    using spec_parse_wf[of plain_sys "[''newfile'', ''-f'', ''--backup'', ''-s'', ''2K'', ''x'']"]
    by (metis sum.collapse(2))
qed











end
