(* ===== verification/Sys.thy ===== *)
theory Sys
  imports Spec "HOL-Library.State_Monad"
begin

text \<open>
  What the files of \<^verbatim>\<open>src/\<close> that act on the system share: the system calls they make, the
  variables they keep, and the ways to call and to loop.

  The system is a parameter: a function from a call and a state of the world, of any type, to a
  reply and the next state. It stands for the kernel, the C library's view of it and every other
  process, which may act between any two calls; nothing is assumed of it here. The program's
  variables and the record of the calls it made are a state that a state monad threads through the
  functions; the record is only for the theorems.
\<close>

subsection \<open>Calls and replies\<close>

datatype errno = E0 | ENOENT | EEXIST | EISDIR | ENOTDIR | EINVAL | EOPNOTSUPP | ENOSYS | EPERM | EACCES | EINTR
  | EIO | ENXIO | ENOMEM | EXDEV | EBADF | ETXTBSY | ESPIPE | EFBIG | Errno nat

text \<open>On Linux \<^verbatim>\<open>ENOTSUP\<close> and \<^verbatim>\<open>EOPNOTSUPP\<close> are one number.\<close>

abbreviation ENOTSUP :: errno where "ENOTSUP \<equiv> EOPNOTSUPP"

type_synonym path = string
type_synonym fd = int
type_synonym bytes = string

datatype oflag = O_RDONLY | O_WRONLY | O_CREAT | O_EXCL | O_CLOEXEC | O_DIRECTORY | O_TMPFILE | O_NOCTTY

datatype rename_flag = RENAME_NOREPLACE | RENAME_EXCHANGE

datatype whence = SEEK_SET | SEEK_CUR | SEEK_DATA | SEEK_HOLE

datatype limit = RLIMIT_NOFILE | RLIMIT_FSIZE

text \<open>The signal mask: all signals blocked, or the mask the process was started with.\<close>

datatype sigset = Initial | Full

datatype disposition = SIG_DFL | SIG_IGN | Cleanup_handler

datatype call =
    C_open path "oflag list" mode_t
  | C_close fd
  | C_fstat fd
  | C_lstat path
  | C_stat path
  | C_unlink path
  | C_link path path
  | C_linkat path path
  | C_rename path path
  | C_renameat2 path path rename_flag
  | C_mkdir path mode_t
  | C_fchmod fd mode_t
  | C_fchown fd uid_t gid_t
  | C_ftruncate fd int
  | C_fallocate fd int int
  | C_fsync fd
  | C_sync_file_range fd
  | C_write fd bytes
  | C_pwrite fd bytes int
  | C_read fd int
  | C_pread fd int int
  | C_lseek fd int whence
  | C_copy_file_range fd int fd int int
  | C_sendfile fd fd int int
  | C_splice fd fd
  | C_fadvise fd
  | C_memfd_create
  | C_mkstemp path
  | C_opendir path
  | C_readdir fd
  | C_closedir fd
  | C_getrlimit limit
  | C_getentropy nat
  | C_getpid
  | C_nprocessors
  | C_pagesize
  | C_memory
  | C_sigmask sigset
  | C_pthread_create
  | C_pthread_join
  | C_fcntl_getfd fd
  | C_dup2 fd fd
  | C_ferror fd
  | C_fclose fd
  | C_sigaction_get string
  | C_sigaction_set string disposition
  | C_raise string

record stat =
  st_dev :: int
  st_ino :: int
  st_mode :: mode_t
  st_size :: int
  st_blocks :: int
  st_blksize :: int

definition no_stat :: stat where
  "no_stat = \<lparr>st_dev = 0, st_ino = 0, st_mode = 0, st_size = 0, st_blocks = 0, st_blksize = 0\<rparr>"

text \<open>
  The replies: failure with an error number, a number, a filled \<^verbatim>\<open>struct stat\<close>, bytes read or a
  name, a descriptor with the name chosen for it. A limit that is not set is a negative number; an ignored signal is 1; \<open>R_int 0\<close> is also the reply of a
  call that has nothing to say, and the end of a directory.
\<close>

datatype reply = R_fail errno | R_int int | R_stat stat | R_bytes bytes | R_named int path

fun failed :: "reply \<Rightarrow> bool" where
  "failed (R_fail e) = True"
| "failed _ = False"

fun reply_int :: "reply \<Rightarrow> int" where
  "reply_int (R_int n) = n"
| "reply_int (R_named n p) = n"
| "reply_int (R_fail e) = -1"
| "reply_int _ = 0"

fun reply_path :: "reply \<Rightarrow> path" where
  "reply_path (R_named n p) = p"
| "reply_path _ = []"

fun reply_bytes :: "reply \<Rightarrow> bytes option" where
  "reply_bytes (R_bytes b) = Some b"
| "reply_bytes (R_fail e) = None"
| "reply_bytes _ = Some []"

fun reply_stat :: "reply \<Rightarrow> stat option" where
  "reply_stat (R_stat st) = Some st"
| "reply_stat _ = None"

definition S_IFMT :: mode_t where "S_IFMT = 0xF000"

definition S_ISDIR :: "mode_t \<Rightarrow> bool" where "S_ISDIR m \<longleftrightarrow> m AND S_IFMT = 0x4000"

definition S_ISREG :: "mode_t \<Rightarrow> bool" where "S_ISREG m \<longleftrightarrow> m AND S_IFMT = 0x8000"

subsection \<open>The variables of the program\<close>

definition NEWFILE_BATCH :: nat where "NEWFILE_BATCH = 64"

record pending_name =
  pn_path :: "path option"
  pn_dev :: int
  pn_ino :: int

record probe_entry =
  pe_dir :: path
  pe_granted :: mode_t

record dir_failure =
  df_name :: path
  df_dev :: int
  df_ino :: int
  df_known :: bool

record backup_entry =
  be_base :: string
  be_digits :: string

record backup_dir =
  bd_dir :: path
  bd_entries :: "backup_entry list"

text \<open>
  \<open>Exited\<close> is a call of \<^verbatim>\<open>exit\<close>; \<open>Unfinished\<close> a loop still running after the iterations the
  model follows it for. Neither makes a further call.
\<close>

datatype run = Running | Exited int | Unfinished

text \<open>A call, its reply, the signal mask and the table of pending names when it was made.\<close>

record event =
  ev_call :: call
  ev_reply :: reply
  ev_mask :: sigset
  ev_pending :: "nat \<Rightarrow> pending_name"

record 'w pst =
  world :: 'w
  trace :: "event list"
  run_status :: run
  errno :: errno
  mask :: sigset
  pending :: "nat \<Rightarrow> pending_name"
  counter :: "64 word"
  probes :: "probe_entry list"
  proc_usable :: int
  size_limit :: "int option option"
  dirs :: "path list"
  dirs_max :: nat
  dirs_nfailed :: nat
  failures :: "dir_failure list"
  failures_lost :: bool
  cpus :: int
  nworkers :: nat
  grow_failed :: bool
  backups :: "backup_dir list"
  spare_mask :: sigset
  spare_held :: bool
  out_stdout :: string
  out_stderr :: string

text \<open>
  The program's surroundings: the system, the text of an error number, the environment, the order in
  which the threads of a flush take the descriptors, and the number of iterations a loop that may
  not end is followed for.
\<close>

record 'w env =
  kern :: "call \<Rightarrow> 'w \<Rightarrow> reply \<times> 'w"
  strerror :: "errno \<Rightarrow> string"
  getenv :: "string \<Rightarrow> string option"
  program_name :: string
  schedule :: "nat \<Rightarrow> 'w \<Rightarrow> nat list"
  fuel :: nat

type_synonym ('w, 'a) prog = "('w pst, 'a) state"

subsection \<open>Steps of a program\<close>

abbreviation return :: "'a \<Rightarrow> ('s, 'a) state" where
  "return \<equiv> State_Monad.return"

definition gets :: "('s \<Rightarrow> 'a) \<Rightarrow> ('s, 'a) state" where
  "gets f = State (\<lambda>s. (f s, s))"

definition modify :: "('s \<Rightarrow> 's) \<Rightarrow> ('s, unit) state" where
  "modify f = State (\<lambda>s. ((), f s))"

definition sys :: "'w env \<Rightarrow> call \<Rightarrow> ('w, reply) prog" where
  "sys E c = State (\<lambda>s.
     if run_status s \<noteq> Running then (R_fail E0, s)
     else case kern E c (world s) of (r, w) \<Rightarrow>
       (r, s\<lparr>world := w,
             trace := \<lparr>ev_call = c, ev_reply = r, ev_mask = mask s, ev_pending = pending s\<rparr> # trace s,
             errno := (case r of R_fail e \<Rightarrow> e | _ \<Rightarrow> errno s)\<rparr>))"

text \<open>A call by its C result: a number or -1, 0 or -1, a filled \<^verbatim>\<open>struct stat\<close> or nothing.\<close>

definition sys_int :: "'w env \<Rightarrow> call \<Rightarrow> ('w, int) prog" where
  "sys_int E c = do { r \<leftarrow> sys E c; return (reply_int r) }"

definition sys_ok :: "'w env \<Rightarrow> call \<Rightarrow> ('w, bool) prog" where
  "sys_ok E c = do { r \<leftarrow> sys E c; return (\<not> failed r) }"

definition sys_stat :: "'w env \<Rightarrow> call \<Rightarrow> ('w, stat option) prog" where
  "sys_stat E c = do { r \<leftarrow> sys E c; return (reply_stat r) }"

definition sys_bytes :: "'w env \<Rightarrow> call \<Rightarrow> ('w, bytes option) prog" where
  "sys_bytes E c = do { r \<leftarrow> sys E c; return (reply_bytes r) }"

text \<open>Whether \<^verbatim>\<open>malloc\<close>, \<^verbatim>\<open>calloc\<close>, \<^verbatim>\<open>realloc\<close> or \<^verbatim>\<open>strdup\<close> finds memory.\<close>

definition alloc :: "'w env \<Rightarrow> ('w, bool) prog" where
  "alloc E = sys_ok E C_memory"

text \<open>A call whose error number the code does not look at.\<close>

definition sys_quiet :: "'w env \<Rightarrow> call \<Rightarrow> ('w, reply) prog" where
  "sys_quiet E c = do { e \<leftarrow> gets errno; r \<leftarrow> sys E c; modify (errno_update (\<lambda>_. e)); return r }"

definition get_errno :: "('w, errno) prog" where
  "get_errno = gets errno"

definition set_errno :: "errno \<Rightarrow> ('w, unit) prog" where
  "set_errno e = modify (errno_update (\<lambda>_. e))"

text \<open>\<open>keep_errno m\<close>: the save and restore of \<^verbatim>\<open>errno\<close> around \<open>m\<close>.\<close>

definition keep_errno :: "('w, 'a) prog \<Rightarrow> ('w, 'a) prog" where
  "keep_errno m = do { e \<leftarrow> get_errno; x \<leftarrow> m; set_errno e; return x }"

definition out_of_fuel :: "('w, unit) prog" where
  "out_of_fuel = modify (run_status_update (\<lambda>r. if r = Running then Unfinished else r))"

definition exit :: "int \<Rightarrow> ('w, unit) prog" where
  "exit n = modify (run_status_update (\<lambda>r. if r = Running then Exited n else r))"

definition whenM :: "bool \<Rightarrow> ('w, unit) prog \<Rightarrow> ('w, unit) prog" where
  "whenM b m = (if b then m else return ())"

subsection \<open>Reporting: \<^verbatim>\<open>error.c\<close>\<close>

definition put_stdout :: "string \<Rightarrow> ('w, unit) prog" where
  "put_stdout msg = modify (\<lambda>s. if run_status s = Running then s\<lparr>out_stdout := out_stdout s @ msg\<rparr> else s)"

definition put_stderr :: "string \<Rightarrow> ('w, unit) prog" where
  "put_stderr msg = modify (\<lambda>s. if run_status s = Running then s\<lparr>out_stderr := out_stderr s @ msg\<rparr> else s)"

definition error_print :: "'w env \<Rightarrow> string \<Rightarrow> ('w, unit) prog" where
  "error_print E msg = put_stderr (program_name E @ '': '' @ msg)"

definition error_exit :: "'w env \<Rightarrow> string \<Rightarrow> ('w, unit) prog" where
  "error_exit E msg = do { error_print E msg; exit EXIT_FAILURE }"

definition close_stream :: "'w env \<Rightarrow> fd \<Rightarrow> ('w, bool) prog" where
  "close_stream E stream = do {
     prev \<leftarrow> sys_quiet E (C_ferror stream);
     close_ok \<leftarrow> sys_ok E (C_fclose stream);
     whenM (reply_int prev \<noteq> 0 \<and> close_ok) (set_errno E0);
     return (reply_int prev = 0 \<and> close_ok) }"

definition error_close_std :: "'w env \<Rightarrow> ('w, bool) prog" where
  "error_close_std E = do {
     out_ok \<leftarrow> close_stream E 1;
     if \<not> out_ok then do {
       e \<leftarrow> get_errno;
       error_print E (if e \<noteq> E0 then ''cannot write to standard output: '' @ strerror E e @ nl
         else ''cannot write to standard output'' @ nl);
       return False }
     else close_stream E 2 }"

end
