(* ===== verification/Flush.thy ===== *)
theory Flush
  imports Sys "HOL-Library.Multiset"
begin

text \<open>
  \<^verbatim>\<open>src/flush.c\<close>: making files, and the directories that name them, durable. The threads of a
  flush are here one after the other, in the order in which they take the descriptors; the theory
  \<^verbatim>\<open>Flush_Pool\<close> has their interleavings.
\<close>

definition FLUSHES_PER_CPU :: nat where "FLUSHES_PER_CPU = 4"

definition sync_err :: "errno \<Rightarrow> bool \<Rightarrow> errno" where
  "sync_err err dir = (if dir \<and> (err = EINVAL \<or> err = ENOTSUP) then E0 else err)"

text \<open>The loop retries an interrupted call, for \<open>n\<close> calls in the model.\<close>

fun sync_loop :: "'w env \<Rightarrow> nat \<Rightarrow> fd \<Rightarrow> bool \<Rightarrow> ('w, errno) prog" where
  "sync_loop E 0 fd dir = do { out_of_fuel; return EINTR }"
| "sync_loop E (Suc n) fd dir = do {
     r \<leftarrow> sys E (C_fsync fd);
     case r of
       R_fail e \<Rightarrow> if e = EINTR then sync_loop E n fd dir else return (sync_err e dir)
     | _ \<Rightarrow> return E0 }"

definition sync_one :: "'w env \<Rightarrow> fd \<Rightarrow> bool \<Rightarrow> ('w, errno) prog" where
  "sync_one E fd dir = sync_loop E (fuel E) fd dir"

fun sync_each :: "'w env \<Rightarrow> fd list \<Rightarrow> bool \<Rightarrow> ('w, errno list) prog" where
  "sync_each E [] dir = return []"
| "sync_each E (fd # fds) dir = do {
     e \<leftarrow> sync_one E fd dir;
     es \<leftarrow> sync_each E fds dir;
     return (e # es) }"

subsection \<open>The threads\<close>

definition flush_want :: "'w env \<Rightarrow> nat \<Rightarrow> ('w, nat) prog" where
  "flush_want E n = do {
     c \<leftarrow> gets cpus;
     whenM (c = 0) (do {
       p \<leftarrow> sys_int E C_nprocessors;
       modify (cpus_update (\<lambda>_. if p < 1 then 1 else p)) });
     c \<leftarrow> gets cpus;
     let limit = nat c * FLUSHES_PER_CPU;
     return (if n < limit then n else limit) }"

text \<open>\<open>k\<close> is how many workers are still wanted.\<close>

fun grow_loop :: "'w env \<Rightarrow> nat \<Rightarrow> ('w, unit) prog" where
  "grow_loop E 0 = return ()"
| "grow_loop E (Suc k) = do {
     made \<leftarrow> sys_quiet E C_pthread_create;
     if failed made then modify (grow_failed_update (\<lambda>_. True))
     else do { modify (nworkers_update Suc); grow_loop E k } }"

definition flush_grow :: "'w env \<Rightarrow> nat \<Rightarrow> ('w, unit) prog" where
  "flush_grow E want = do {
     gf \<leftarrow> gets grow_failed;
     nw \<leftarrow> gets nworkers;
     if gf \<or> want \<le> nw then return ()
     else do {
       old \<leftarrow> gets mask;
       _ \<leftarrow> sys_quiet E (C_sigmask Full);
       modify (mask_update (\<lambda>_. Full));
       grow_loop E (want - nw);
       _ \<leftarrow> sys_quiet E (C_sigmask old);
       modify (mask_update (\<lambda>_. old)) } }"

text \<open>
  The descriptors in the order the threads take them: any order, since a worker takes the next index
  as soon as it holds the lock, and the flushes of different workers overlap. An answer of the
  scheduler that is not an order of the indices stands for the order of the array. The workers have
  an \<^verbatim>\<open>errno\<close> of their own.
\<close>

definition flush_order :: "'w env \<Rightarrow> nat \<Rightarrow> ('w, nat list) prog" where
  "flush_order E n = do {
     w \<leftarrow> gets world;
     return (if mset (schedule E n w) = mset [0..<n] then schedule E n w else [0..<n]) }"

fun take_jobs :: "'w env \<Rightarrow> fd list \<Rightarrow> bool \<Rightarrow> nat list \<Rightarrow> errno list \<Rightarrow> ('w, errno list) prog" where
  "take_jobs E fds dir [] errs = return errs"
| "take_jobs E fds dir (i # is) errs = do {
     e \<leftarrow> sync_one E (fds ! i) dir;
     take_jobs E fds dir is (errs[i := e]) }"

definition flush_threaded :: "'w env \<Rightarrow> fd list \<Rightarrow> bool \<Rightarrow> ('w, errno list) prog" where
  "flush_threaded E fds dir = do {
     want \<leftarrow> flush_want E (length fds);
     flush_grow E want;
     nw \<leftarrow> gets nworkers;
     if nw = 0 then sync_each E fds dir
     else do {
       order \<leftarrow> flush_order E (length fds);
       keep_errno (take_jobs E fds dir order (replicate (length fds) E0)) } }"

definition flush_fds :: "'w env \<Rightarrow> fd list \<Rightarrow> bool \<Rightarrow> ('w, errno list) prog" where
  "flush_fds E fds dir = (if 1 < length fds then flush_threaded E fds dir else sync_each E fds dir)"

fun join_workers :: "'w env \<Rightarrow> nat \<Rightarrow> ('w, unit) prog" where
  "join_workers E 0 = return ()"
| "join_workers E (Suc k) = do { _ \<leftarrow> sys_quiet E C_pthread_join; join_workers E k }"

definition flush_stop :: "'w env \<Rightarrow> ('w, unit) prog" where
  "flush_stop E = do {
     nw \<leftarrow> gets nworkers;
     join_workers E nw;
     modify (nworkers_update (\<lambda>_. 0));
     modify (grow_failed_update (\<lambda>_. False)) }"

subsection \<open>Directories\<close>

definition open_dir :: "'w env \<Rightarrow> path \<Rightarrow> ('w, fd) prog" where
  "open_dir E dir = sys_int E (C_open dir [O_RDONLY, O_DIRECTORY, O_CLOEXEC] 0)"

definition flush_dir :: "'w env \<Rightarrow> path \<Rightarrow> ('w, int) prog" where
  "flush_dir E dir = do {
     fd \<leftarrow> open_dir E dir;
     e \<leftarrow> get_errno;
     if fd = -1 then return (if e = EACCES \<or> e = EPERM then 0 else -1)
     else do {
       errs \<leftarrow> flush_fds E [fd] True;
       _ \<leftarrow> sys E (C_close fd);
       if hd errs \<noteq> E0 then do { set_errno (hd errs); return (-1) } else return 0 } }"

definition flush_set_init :: "nat \<Rightarrow> ('w, unit) prog" where
  "flush_set_init n = modify (dirs_max_update (\<lambda>_. if NEWFILE_BATCH < n then NEWFILE_BATCH else n))"

definition dir_failed :: "'w env \<Rightarrow> path \<Rightarrow> errno \<Rightarrow> bool \<Rightarrow> int \<Rightarrow> int \<Rightarrow> ('w, unit) prog" where
  "dir_failed E name err known dev ino = do {
     error_print E (''cannot flush directory '' @ quoted name @ '': '' @ strerror E err @ nl);
     modify (dirs_nfailed_update Suc);
     fs \<leftarrow> gets failures;
     if length fs = NEWFILE_BATCH then modify (failures_lost_update (\<lambda>_. True))
     else do {
       got \<leftarrow> alloc E;
       if \<not> got then modify (failures_lost_update (\<lambda>_. True))
       else modify (failures_update (\<lambda>fs. fs @ [\<lparr>df_name = name, df_dev = dev, df_ino = ino, df_known = known\<rparr>])) } }"

text \<open>A directory of the set that was opened: its name, descriptor and, when known, its identity.\<close>

record open_dir_entry =
  od_dirname :: path
  od_fd :: fd
  od_known :: bool
  od_dev :: int
  od_ino :: int

fun set_open :: "'w env \<Rightarrow> path list \<Rightarrow> open_dir_entry list \<Rightarrow> ('w, open_dir_entry list) prog" where
  "set_open E [] acc = return acc"
| "set_open E (d # ds) acc = do {
     fd \<leftarrow> open_dir E d;
     e \<leftarrow> get_errno;
     if fd = -1 then do {
       whenM (e \<noteq> EACCES \<and> e \<noteq> EPERM) (dir_failed E d e False 0 0);
       set_open E ds acc }
     else do {
       st \<leftarrow> sys_stat E (C_fstat fd);
       case st of
         Some st \<Rightarrow>
           if list_ex (\<lambda>x. od_known x \<and> od_dev x = st_dev st \<and> od_ino x = st_ino st) acc
           then do { _ \<leftarrow> sys E (C_close fd); set_open E ds acc }
           else set_open E ds (acc @ [\<lparr>od_dirname = d, od_fd = fd, od_known = True, od_dev = st_dev st, od_ino = st_ino st\<rparr>])
       | None \<Rightarrow>
           set_open E ds (acc @ [\<lparr>od_dirname = d, od_fd = fd, od_known = False, od_dev = 0, od_ino = 0\<rparr>]) } }"

fun set_close :: "'w env \<Rightarrow> (open_dir_entry \<times> errno) list \<Rightarrow> ('w, unit) prog" where
  "set_close E [] = return ()"
| "set_close E ((x, err) # xs) = do {
     whenM (err \<noteq> E0) (dir_failed E (od_dirname x) err (od_known x) (od_dev x) (od_ino x));
     _ \<leftarrow> sys E (C_close (od_fd x));
     set_close E xs }"

definition flush_set_run :: "'w env \<Rightarrow> ('w, unit) prog" where
  "flush_set_run E = do {
     ds \<leftarrow> gets dirs;
     entries \<leftarrow> set_open E ds [];
     modify (dirs_update (\<lambda>_. []));
     if entries = [] then return ()
     else do {
       errs \<leftarrow> flush_fds E (map od_fd entries) True;
       set_close E (zip entries errs) } }"

definition flush_set_add :: "'w env \<Rightarrow> path \<Rightarrow> ('w, unit) prog" where
  "flush_set_add E dir = do {
     ds \<leftarrow> gets dirs;
     if dir \<in> set ds then return ()
     else do {
       dmax \<leftarrow> gets dirs_max;
       whenM (length ds = dmax) (flush_set_run E);
       got \<leftarrow> alloc E;
       if \<not> got then do {
         ret \<leftarrow> flush_dir E dir;
         e \<leftarrow> get_errno;
         whenM (ret \<noteq> 0) (dir_failed E dir e False 0 0) }
       else modify (dirs_update (\<lambda>ds. ds @ [dir])) } }"

text \<open>The loop of \<^verbatim>\<open>flush_set_failed\<close>; \<open>stated\<close> is the identity of the directory once it is asked for.\<close>

fun failed_loop :: "'w env \<Rightarrow> path \<Rightarrow> dir_failure list \<Rightarrow> stat option \<Rightarrow> ('w, bool) prog" where
  "failed_loop E dir [] stated = return False"
| "failed_loop E dir (f # fs) stated =
     (if df_name f = dir then return True
      else if \<not> df_known f then failed_loop E dir fs stated
      else do {
        st \<leftarrow> (case stated of Some st \<Rightarrow> return (Some st) | None \<Rightarrow> sys_stat E (C_stat dir));
        case st of
          None \<Rightarrow> return True
        | Some x \<Rightarrow>
            if st_dev x = df_dev f \<and> st_ino x = df_ino f then return True else failed_loop E dir fs st })"

definition flush_set_failed :: "'w env \<Rightarrow> path \<Rightarrow> ('w, bool) prog" where
  "flush_set_failed E dir = do {
     lost \<leftarrow> gets failures_lost;
     fs \<leftarrow> gets failures;
     if lost then return True else failed_loop E dir fs None }"

definition flush_set_forget :: "('w, unit) prog" where
  "flush_set_forget = do {
     modify (failures_update (\<lambda>_. []));
     modify (failures_lost_update (\<lambda>_. False)) }"

definition flush_set_failures :: "('w, nat) prog" where
  "flush_set_failures = gets dirs_nfailed"

end
