(* ===== verification/Paths.thy ===== *)
theory Paths
  imports Flush
begin

text \<open>\<^verbatim>\<open>src/paths.c\<close>: the directory part of a path, and making it exist.\<close>

definition path_dir_len :: "path \<Rightarrow> nat" where
  "path_dir_len p = (case strrchr p (CHR ''/'') of Some k \<Rightarrow> k + 1 | None \<Rightarrow> 0)"

text \<open>The directory that \<^verbatim>\<open>path_dir\<close> returns when it has memory.\<close>

definition dir_of :: "path \<Rightarrow> path" where
  "dir_of p =
     (let dirlen = (if 1 < path_dir_len p then path_dir_len p - 1 else path_dir_len p)
      in if dirlen = 0 then ''.'' else take dirlen p)"

definition path_dir :: "'w env \<Rightarrow> path \<Rightarrow> ('w, path option) prog" where
  "path_dir E p = do {
     got \<leftarrow> alloc E;
     return (if got then Some (dir_of p) else None) }"

definition ensure_directory :: "'w env \<Rightarrow> path \<Rightarrow> ('w, int) prog" where
  "ensure_directory E p = do {
     st \<leftarrow> sys_stat E (C_stat p);
     case st of
       None \<Rightarrow> return (-1)
     | Some st \<Rightarrow>
         if \<not> S_ISDIR (st_mode st) then do { set_errno ENOTDIR; return (-1) } else return 0 }"

text \<open>The prefixes of the buffer at which the loop of \<^verbatim>\<open>path_make_parents\<close> stops.\<close>

definition parent_prefixes :: "path \<Rightarrow> path list" where
  "parent_prefixes buf =
     map (\<lambda>i. take i buf) (filter (\<lambda>i. i = length buf \<or> buf ! i = CHR ''/'') [1..<Suc (length buf)])"

fun make_parents :: "'w env \<Rightarrow> path list \<Rightarrow> ('w, int) prog" where
  "make_parents E [] = return 0"
| "make_parents E (d # ds) = do {
     made \<leftarrow> sys_ok E (C_mkdir d (S_IRWXU OR S_IRWXG OR S_IRWXO));
     if made then do {
       parent \<leftarrow> path_dir E d;
       case parent of
         None \<Rightarrow> return (-1)
       | Some pd \<Rightarrow> do { flush_set_add E pd; make_parents E ds } }
     else do {
       e \<leftarrow> get_errno;
       ret \<leftarrow> (if e \<noteq> EEXIST then return (-1) else ensure_directory E d);
       if ret \<noteq> 0 then return (-1) else make_parents E ds } }"

definition path_make_parents :: "'w env \<Rightarrow> path \<Rightarrow> ('w, int) prog" where
  "path_make_parents E p = do {
     got \<leftarrow> alloc E;
     if \<not> got then return (-1)
     else case strrchr p (CHR ''/'') of
         None \<Rightarrow> return 0
       | Some k \<Rightarrow> if k = 0 then return 0 else make_parents E (parent_prefixes (take k p)) }"

end
