(* ===== verification/Pending.thy ===== *)
theory Pending
  imports Sys
begin

text \<open>
  \<^verbatim>\<open>src/pending.c\<close>: the names this run made and has not committed. Each has a slot with the
  device and inode of the file it was made for; a name is removed only while it holds that file.
\<close>

definition PENDING_BACKUP :: nat where "PENDING_BACKUP = NEWFILE_BATCH"

definition PENDING_SLOTS :: nat where "PENDING_SLOTS = NEWFILE_BATCH + 1"

definition remove_ours :: "'w env \<Rightarrow> path \<Rightarrow> int \<Rightarrow> int \<Rightarrow> ('w, int) prog" where
  "remove_ours E p dev ino = do {
     st \<leftarrow> sys_stat E (C_lstat p);
     case st of
       None \<Rightarrow> do { e \<leftarrow> get_errno; return (if e = ENOENT then 0 else -1) }
     | Some st \<Rightarrow>
         if st_dev st \<noteq> dev \<or> st_ino st \<noteq> ino then return 1
         else do {
           gone \<leftarrow> sys_ok E (C_unlink p);
           e \<leftarrow> get_errno;
           return (if gone \<or> e = ENOENT then 0 else -1) } }"

fun cleanup_slots :: "'w env \<Rightarrow> nat list \<Rightarrow> ('w, unit) prog" where
  "cleanup_slots E [] = return ()"
| "cleanup_slots E (i # is) = do {
     pn \<leftarrow> gets (\<lambda>s. pending s i);
     (case pn_path pn of
        None \<Rightarrow> return ()
      | Some p \<Rightarrow> do { _ \<leftarrow> remove_ours E p (pn_dev pn) (pn_ino pn); return () });
     cleanup_slots E is }"

definition cleanup_handler :: "'w env \<Rightarrow> string \<Rightarrow> ('w, unit) prog" where
  "cleanup_handler E sig = keep_errno (do {
     cleanup_slots E [0..<PENDING_SLOTS];
     raised \<leftarrow> sys_ok E (C_raise sig);
     whenM (\<not> raised) (exit EXIT_FAILURE) })"

text \<open>The signals of a Linux system, in the order of the table.\<close>

definition cleanup_signals :: "string list" where
  "cleanup_signals =
     [''SIGALRM'', ''SIGINT'', ''SIGQUIT'', ''SIGHUP'', ''SIGTERM'', ''SIGPIPE'', ''SIGUSR1'',
      ''SIGUSR2'', ''SIGILL'', ''SIGTRAP'', ''SIGABRT'', ''SIGBUS'', ''SIGFPE'', ''SIGSEGV'',
      ''SIGXCPU'', ''SIGSYS'', ''SIGVTALRM'', ''SIGPROF'', ''SIGPOLL'', ''SIGPWR'', ''SIGSTKFLT'']"

fun install_handlers :: "'w env \<Rightarrow> string list \<Rightarrow> ('w, unit) prog" where
  "install_handlers E [] = return ()"
| "install_handlers E (sig # sigs) = do {
     old \<leftarrow> sys E (C_sigaction_get sig);
     whenM (\<not> failed old \<and> reply_int old \<noteq> 1) (do {
       _ \<leftarrow> sys E (C_sigaction_set sig Cleanup_handler);
       return () });
     install_handlers E sigs }"

definition pending_install :: "'w env \<Rightarrow> ('w, unit) prog" where
  "pending_install E = do {
     _ \<leftarrow> sys E (C_sigaction_set ''SIGXFSZ'' SIG_IGN);
     install_handlers E cleanup_signals }"

definition pending_hold :: "'w env \<Rightarrow> ('w, sigset) prog" where
  "pending_hold E = do {
     old \<leftarrow> gets mask;
     _ \<leftarrow> sys_quiet E (C_sigmask Full);
     modify (mask_update (\<lambda>_. Full));
     return old }"

definition pending_release :: "'w env \<Rightarrow> sigset \<Rightarrow> ('w, unit) prog" where
  "pending_release E old = keep_errno (do {
     _ \<leftarrow> sys_quiet E (C_sigmask old);
     modify (mask_update (\<lambda>_. old)) })"

definition pending_arm :: "nat \<Rightarrow> path \<Rightarrow> stat \<Rightarrow> ('w, unit) prog" where
  "pending_arm slot p st =
     modify (pending_update (\<lambda>t. t(slot := \<lparr>pn_path = Some p, pn_dev = st_dev st, pn_ino = st_ino st\<rparr>)))"

definition pending_retarget :: "nat \<Rightarrow> stat \<Rightarrow> ('w, unit) prog" where
  "pending_retarget slot st =
     modify (pending_update (\<lambda>t. t(slot := (t slot)\<lparr>pn_dev := st_dev st, pn_ino := st_ino st\<rparr>)))"

definition pending_clear :: "nat \<Rightarrow> ('w, unit) prog" where
  "pending_clear slot = modify (pending_update (\<lambda>t. t(slot := (t slot)\<lparr>pn_path := None\<rparr>)))"

definition pending_remove :: "'w env \<Rightarrow> nat \<Rightarrow> ('w, int) prog" where
  "pending_remove E slot = do {
     pn \<leftarrow> gets (\<lambda>s. pending s slot);
     case pn_path pn of
       None \<Rightarrow> return 0
     | Some p \<Rightarrow> do {
         saved_errno \<leftarrow> get_errno;
         ret \<leftarrow> remove_ours E p (pn_dev pn) (pn_ino pn);
         e \<leftarrow> get_errno;
         (if ret < 0 then error_print E (''cannot remove '' @ quoted p @ '': '' @ strerror E e @ nl)
          else if ret > 0 then error_print E (''kept '' @ quoted p @ '': it now holds a different file'' @ nl)
          else return ());
         pending_clear slot;
         set_errno saved_errno;
         return (if ret = 0 then 0 else -1) } }"

definition pending_unlink :: "'w env \<Rightarrow> path \<Rightarrow> stat \<Rightarrow> ('w, int) prog" where
  "pending_unlink E p st = remove_ours E p (st_dev st) (st_ino st)"

end
