(* ===== verification/Fastio.thy ===== *)
theory Fastio
  imports Sys
begin

text \<open>
  \<^verbatim>\<open>src/fastio.c\<close>, as built on Linux: the kernel's fast paths. Their results are 0 for done, 1
  for a path that cannot be used, and -1 for an error in \<^verbatim>\<open>errno\<close>.
\<close>

definition SSIZE_MAX :: int where "SSIZE_MAX = 2 ^ 63 - 1"

text \<open>The limit is read once and kept; \<open>Some None\<close> is \<^verbatim>\<open>RLIM_INFINITY\<close>.\<close>

definition fast_size_limit :: "'w env \<Rightarrow> ('w, int option) prog" where
  "fast_size_limit E = do {
     known \<leftarrow> gets size_limit;
     case known of
       Some l \<Rightarrow> return l
     | None \<Rightarrow> do {
         r \<leftarrow> sys E (C_getrlimit RLIMIT_FSIZE);
         let l = (if failed r \<or> reply_int r < 0 then None else Some (reply_int r));
         modify (size_limit_update (\<lambda>_. Some l));
         return l } }"

definition fast_alloc :: "'w env \<Rightarrow> fd \<Rightarrow> int \<Rightarrow> int \<Rightarrow> ('w, int) prog" where
  "fast_alloc E fd off len =
     (if len \<le> 0 then return 1
      else do {
        l \<leftarrow> fast_size_limit E;
        if (case l of None \<Rightarrow> False | Some n \<Rightarrow> n < (off + len) mod 2 ^ 64)
        then do { set_errno EFBIG; return (-1) }
        else do {
          done_ok \<leftarrow> sys_ok E (C_fallocate fd off len);
          e \<leftarrow> get_errno;
          return (if done_ok then 0 else if e \<in> {EOPNOTSUPP, ENOSYS, EINVAL} then 1 else -1) } })"

definition clamp_len :: "int \<Rightarrow> int" where
  "clamp_len len = (if SSIZE_MAX < len mod 2 ^ 64 then SSIZE_MAX else len)"

text \<open>The loops over the rest of the range return the offsets they reached with the result.\<close>

function sendfile_loop :: "'w env \<Rightarrow> fd \<Rightarrow> fd \<Rightarrow> int \<Rightarrow> int \<Rightarrow> int \<Rightarrow> ('w, int \<times> int \<times> int) prog" where
  "sendfile_loop E dst_fd src_fd dst_off src_off len =
     (if len \<le> 0 then return (0, dst_off, src_off)
      else do {
        nsent \<leftarrow> sys_int E (C_sendfile dst_fd src_fd src_off (clamp_len len));
        e \<leftarrow> get_errno;
        if nsent < 0 then
          return (if e \<in> {EINVAL, ENOSYS, EOPNOTSUPP, EBADF, ESPIPE} then 1 else -1, dst_off, src_off)
        else if nsent = 0 then return (1, dst_off, src_off)
        else sendfile_loop E dst_fd src_fd (dst_off + nsent) (src_off + nsent) (len - nsent) })"
  by pat_completeness auto
termination
  by (relation "measure (\<lambda>(E, d, s, doff, soff, len). nat len)") auto

definition fast_sendfile :: "'w env \<Rightarrow> fd \<Rightarrow> int \<Rightarrow> fd \<Rightarrow> int \<Rightarrow> int \<Rightarrow> ('w, int \<times> int \<times> int) prog" where
  "fast_sendfile E dst_fd dst_off src_fd src_off len = do {
     pos \<leftarrow> sys_int E (C_lseek dst_fd dst_off SEEK_SET);
     if pos = -1 then return (1, dst_off, src_off)
     else sendfile_loop E dst_fd src_fd dst_off src_off len }"

function fast_copy :: "'w env \<Rightarrow> fd \<Rightarrow> int \<Rightarrow> fd \<Rightarrow> int \<Rightarrow> int \<Rightarrow> ('w, int \<times> int \<times> int) prog" where
  "fast_copy E dst_fd dst_off src_fd src_off len =
     (if len \<le> 0 then return (0, dst_off, src_off)
      else do {
        ncopied \<leftarrow> sys_int E (C_copy_file_range src_fd src_off dst_fd dst_off (clamp_len len));
        e \<leftarrow> get_errno;
        if ncopied < 0 then
          (if e \<in> {EXDEV, EINVAL, ENOSYS, EOPNOTSUPP, EBADF, EPERM, ETXTBSY}
           then fast_sendfile E dst_fd dst_off src_fd src_off len
           else return (-1, dst_off, src_off))
        else if ncopied = 0 then fast_sendfile E dst_fd dst_off src_fd src_off len
        else fast_copy E dst_fd (dst_off + ncopied) src_fd (src_off + ncopied) (len - ncopied) })"
  by pat_completeness auto
termination
  by (relation "measure (\<lambda>(E, d, doff, s, soff, len). nat len)") auto

declare sendfile_loop.simps [simp del] fast_copy.simps [simp del]

definition fast_tmpfile :: "'w env \<Rightarrow> path \<Rightarrow> mode_t \<Rightarrow> ('w, int \<times> fd) prog" where
  "fast_tmpfile E dir mode = do {
     usable \<leftarrow> gets proc_usable;
     whenM (usable = 0) (do {
       st \<leftarrow> sys_stat E (C_stat ''/proc/self/fd'');
       modify (proc_usable_update (\<lambda>_.
         if (case st of Some st \<Rightarrow> S_ISDIR (st_mode st) | None \<Rightarrow> False) then 1 else -1)) });
     usable \<leftarrow> gets proc_usable;
     if usable < 0 then return (1, -1)
     else do {
       fd \<leftarrow> sys_int E (C_open dir [O_TMPFILE, O_WRONLY, O_CLOEXEC] mode);
       e \<leftarrow> get_errno;
       return (if fd = -1 then (if e = EOPNOTSUPP \<or> e = EISDIR then 1 else -1, -1) else (0, fd)) } }"

fun digits_of :: "nat \<Rightarrow> string" where
  "digits_of n = (if n < 10 then [char_of (48 + n)] else digits_of (n div 10) @ [char_of (48 + n mod 10)])"

declare digits_of.simps [simp del]

definition proc_fd_path :: "fd \<Rightarrow> path" where
  "proc_fd_path fd = ''/proc/self/fd/'' @ (if fd < 0 then ''-'' @ digits_of (nat (- fd)) else digits_of (nat fd))"

definition fast_link :: "'w env \<Rightarrow> fd \<Rightarrow> path \<Rightarrow> ('w, int) prog" where
  "fast_link E fd p = do {
     linked \<leftarrow> sys_ok E (C_linkat (proc_fd_path fd) p);
     return (if linked then 0 else -1) }"

definition fast_rename2 :: "'w env \<Rightarrow> path \<Rightarrow> path \<Rightarrow> rename_flag \<Rightarrow> ('w, int) prog" where
  "fast_rename2 E a b flag = do {
     done_ok \<leftarrow> sys_ok E (C_renameat2 a b flag);
     e \<leftarrow> get_errno;
     return (if done_ok then 0 else if e \<in> {EINVAL, ENOSYS, EOPNOTSUPP} then 1 else -1) }"

definition fast_rename_noreplace :: "'w env \<Rightarrow> path \<Rightarrow> path \<Rightarrow> ('w, int) prog" where
  "fast_rename_noreplace E from to = fast_rename2 E from to RENAME_NOREPLACE"

definition fast_exchange :: "'w env \<Rightarrow> path \<Rightarrow> path \<Rightarrow> ('w, int) prog" where
  "fast_exchange E a b = fast_rename2 E a b RENAME_EXCHANGE"

definition fast_writeback :: "'w env \<Rightarrow> fd \<Rightarrow> ('w, unit) prog" where
  "fast_writeback E fd = do { _ \<leftarrow> sys E (C_sync_file_range fd); return () }"

definition fast_spool :: "'w env \<Rightarrow> ('w, int \<times> fd) prog" where
  "fast_spool E = do {
     fd \<leftarrow> sys_int E C_memfd_create;
     e \<leftarrow> get_errno;
     return (if fd = -1 then (if e \<in> {ENOSYS, EPERM, EINVAL} then 1 else -1, -1) else (0, fd)) }"

text \<open>A pipe may never end: the loop is followed for \<open>n\<close> iterations.\<close>

fun splice_loop :: "'w env \<Rightarrow> nat \<Rightarrow> fd \<Rightarrow> fd \<Rightarrow> bool \<Rightarrow> ('w, int) prog" where
  "splice_loop E 0 dst_fd src_fd moved = do { out_of_fuel; return (-1) }"
| "splice_loop E (Suc n) dst_fd src_fd moved = do {
     nmoved \<leftarrow> sys_int E (C_splice src_fd dst_fd);
     e \<leftarrow> get_errno;
     if nmoved = 0 then return 0
     else if nmoved < 0 then return (if \<not> moved \<and> (e = EINVAL \<or> e = ENOSYS) then 1 else -1)
     else splice_loop E n dst_fd src_fd True }"

definition fast_splice :: "'w env \<Rightarrow> fd \<Rightarrow> fd \<Rightarrow> ('w, int) prog" where
  "fast_splice E dst_fd src_fd = splice_loop E (fuel E) dst_fd src_fd False"

end
