(* ===== verification/Place.thy ===== *)
theory Place
  imports Paths Pending Fastio
begin

text \<open>\<^verbatim>\<open>src/place.c\<close>: how a file comes to hold its name.\<close>

definition TEMP_STEM :: string where "TEMP_STEM = ''.newfile.''"

definition TEMP_RAND :: nat where "TEMP_RAND = 6"

definition TEMP_TRIES :: nat where "TEMP_TRIES = 100"

definition excl_flags :: "oflag list" where
  "excl_flags = [O_WRONLY, O_CREAT, O_EXCL, O_CLOEXEC]"

text \<open>The descriptor with the \<^verbatim>\<open>struct stat\<close> it filled, or nothing.\<close>

definition create_excl :: "'w env \<Rightarrow> path \<Rightarrow> mode_t \<Rightarrow> ('w, (fd \<times> stat) option) prog" where
  "create_excl E p mode = do {
     fd \<leftarrow> sys_int E (C_open p excl_flags mode);
     if fd = -1 then return None
     else do {
       st \<leftarrow> sys_stat E (C_fstat fd);
       case st of
         Some st \<Rightarrow> return (Some (fd, st))
       | None \<Rightarrow> do {
           _ \<leftarrow> keep_errno (do { _ \<leftarrow> sys E (C_close fd); sys E (C_unlink p) });
           return None } } }"

subsection \<open>Temporary names\<close>

definition temp_chars :: string where
  "temp_chars = ''ABCDEFGHIJKLMNOPQRSTUVWXYZabcdefghijklmnopqrstuvwxyz0123456789''"

text \<open>The fallback's linear congruential generator, on \<^verbatim>\<open>unsigned long\<close>.\<close>

fun lcg_bytes :: "nat \<Rightarrow> 64 word \<Rightarrow> nat list" where
  "lcg_bytes 0 seed = []"
| "lcg_bytes (Suc n) seed =
     (let seed' = seed * 1103515245 + 12345
      in unat (drop_bit 16 seed' AND 0xFF) # lcg_bytes n seed')"

definition temp_suffix :: "nat list \<Rightarrow> string" where
  "temp_suffix rnd = map (\<lambda>b. temp_chars ! (b mod length temp_chars)) (take TEMP_RAND rnd)"

definition temp_fill :: "'w env \<Rightarrow> ('w, string) prog" where
  "temp_fill E = do {
     got \<leftarrow> sys_bytes E (C_getentropy TEMP_RAND);
     case got of
       Some b \<Rightarrow> return (temp_suffix (map of_char b))
     | None \<Rightarrow> do {
         modify (counter_update (\<lambda>c. c + 1));
         c \<leftarrow> gets counter;
         pid \<leftarrow> sys_int E C_getpid;
         return (temp_suffix (lcg_bytes TEMP_RAND (push_bit 16 (word_of_int pid) XOR c))) } }"

text \<open>
  \<^verbatim>\<open>struct make_ctx\<close> and the three functions that make a name from it, which return the context
  as they left it, or nothing.
\<close>

record make_ctx =
  mc_src :: path
  mc_st :: stat
  mc_mode :: mode_t
  mc_fd :: fd

definition make_open :: "'w env \<Rightarrow> path \<Rightarrow> make_ctx \<Rightarrow> ('w, make_ctx option) prog" where
  "make_open E name mc = do {
     r \<leftarrow> create_excl E name (mc_mode mc);
     return (case r of None \<Rightarrow> None | Some (fd, st) \<Rightarrow> Some (mc\<lparr>mc_fd := fd, mc_st := st\<rparr>)) }"

definition make_fdlink :: "'w env \<Rightarrow> path \<Rightarrow> make_ctx \<Rightarrow> ('w, make_ctx option) prog" where
  "make_fdlink E name mc = do {
     ret \<leftarrow> fast_link E (mc_fd mc) name;
     return (if ret = 0 then Some mc else None) }"

definition make_link :: "'w env \<Rightarrow> path \<Rightarrow> make_ctx \<Rightarrow> ('w, make_ctx option) prog" where
  "make_link E name mc = do {
     linked \<leftarrow> sys_ok E (C_link (mc_src mc) name);
     return (if linked then Some mc else None) }"

type_synonym 'w maker = "path \<Rightarrow> make_ctx \<Rightarrow> ('w, make_ctx option) prog"

text \<open>One attempt: fill the name, and make it and arm it with signals held.\<close>

definition temp_try :: "'w env \<Rightarrow> path \<Rightarrow> nat \<Rightarrow> 'w maker \<Rightarrow> make_ctx \<Rightarrow> ('w, (path \<times> make_ctx) option) prog" where
  "temp_try E stem slot mk mc = do {
     suffix \<leftarrow> temp_fill E;
     let name = stem @ suffix;
     old \<leftarrow> pending_hold E;
     r \<leftarrow> mk name mc;
     (case r of None \<Rightarrow> return () | Some mc' \<Rightarrow> pending_arm slot name (mc_st mc'));
     pending_release E old;
     return (map_option (Pair name) r) }"

fun temp_loop :: "'w env \<Rightarrow> nat \<Rightarrow> path \<Rightarrow> nat \<Rightarrow> 'w maker \<Rightarrow> make_ctx \<Rightarrow> ('w, (path \<times> make_ctx) option) prog" where
  "temp_loop E 0 stem slot mk mc = return None"
| "temp_loop E (Suc tries) stem slot mk mc = do {
     r \<leftarrow> temp_try E stem slot mk mc;
     e \<leftarrow> get_errno;
     if r \<noteq> None \<or> e \<noteq> EEXIST then return r else temp_loop E tries stem slot mk mc }"

definition temp_make :: "'w env \<Rightarrow> path \<Rightarrow> nat \<Rightarrow> 'w maker \<Rightarrow> make_ctx \<Rightarrow> ('w, (path \<times> make_ctx) option) prog" where
  "temp_make E target slot mk mc = do {
     got \<leftarrow> alloc E;
     if \<not> got then return None
     else do {
       set_errno EEXIST;
       temp_loop E TEMP_TRIES (take (path_dir_len target) target @ TEMP_STEM) slot mk mc } }"

definition empty_ctx :: make_ctx where
  "empty_ctx = \<lparr>mc_src = [], mc_st = no_stat, mc_mode = 0, mc_fd = -1\<rparr>"

subsection \<open>Creating and naming\<close>

definition place_create :: "'w env \<Rightarrow> path \<Rightarrow> mode_t \<Rightarrow> nat \<Rightarrow> ('w, fd option) prog" where
  "place_create E p mode slot = do {
     old \<leftarrow> pending_hold E;
     r \<leftarrow> create_excl E p mode;
     (case r of None \<Rightarrow> return () | Some (fd, st) \<Rightarrow> pending_arm slot p st);
     pending_release E old;
     return (map_option fst r) }"

definition place_temp :: "'w env \<Rightarrow> path \<Rightarrow> mode_t \<Rightarrow> nat \<Rightarrow> ('w, (fd \<times> path) option) prog" where
  "place_temp E target mode slot = do {
     r \<leftarrow> temp_make E target slot (make_open E) (empty_ctx\<lparr>mc_mode := mode\<rparr>);
     return (map_option (\<lambda>(name, mc). (mc_fd mc, name)) r) }"

definition place_temp_link :: "'w env \<Rightarrow> fd \<Rightarrow> path \<Rightarrow> nat \<Rightarrow> ('w, path option) prog" where
  "place_temp_link E fd target slot = do {
     st \<leftarrow> sys_stat E (C_fstat fd);
     case st of
       None \<Rightarrow> return None
     | Some st \<Rightarrow> do {
         r \<leftarrow> temp_make E target slot (make_fdlink E) (empty_ctx\<lparr>mc_st := st, mc_fd := fd\<rparr>);
         return (map_option fst r) } }"

definition place_temp_alias :: "'w env \<Rightarrow> path \<Rightarrow> stat \<Rightarrow> nat \<Rightarrow> ('w, path option) prog" where
  "place_temp_alias E src st slot = do {
     r \<leftarrow> temp_make E src slot (make_link E) (empty_ctx\<lparr>mc_src := src, mc_st := st\<rparr>);
     return (map_option fst r) }"

text \<open>The two halves of \<^verbatim>\<open>place_over\<close>: what follows the creation of the target, and the whole.\<close>

definition over_created :: "'w env \<Rightarrow> path \<Rightarrow> path \<Rightarrow> nat \<Rightarrow> sigset \<Rightarrow> fd \<Rightarrow> stat \<Rightarrow> ('w, int) prog" where
  "over_created E tmp target slot old fd st = do {
     _ \<leftarrow> sys E (C_close fd);
     renamed \<leftarrow> sys_ok E (C_rename tmp target);
     if renamed then do {
       pending_clear slot;
       pending_release E old;
       return 0 }
     else do {
       keep_errno (do {
         ret \<leftarrow> pending_unlink E target st;
         e \<leftarrow> get_errno;
         whenM (ret < 0) (error_print E (''cannot remove '' @ quoted target @ '': '' @ strerror E e @ nl)) });
       pending_release E old;
       return (-1) } }"

definition place_over :: "'w env \<Rightarrow> path \<Rightarrow> path \<Rightarrow> nat \<Rightarrow> ('w, int) prog" where
  "place_over E tmp target slot = do {
     old \<leftarrow> pending_hold E;
     r \<leftarrow> create_excl E target (S_IRUSR OR S_IWUSR);
     case r of
       None \<Rightarrow> do { pending_release E old; return (-1) }
     | Some (fd, st) \<Rightarrow> over_created E tmp target slot old fd st }"

text \<open>The result of \<^verbatim>\<open>place_commit\<close>, and whether the temporary name still names the file.\<close>

definition place_commit :: "'w env \<Rightarrow> path \<Rightarrow> path \<Rightarrow> nat \<Rightarrow> ('w, int \<times> bool) prog" where
  "place_commit E tmp target slot = do {
     ret \<leftarrow> fast_rename_noreplace E tmp target;
     if ret = 0 then do { pending_clear slot; return (0, False) }
     else if ret < 0 then return (-1, False)
     else do {
       linked \<leftarrow> sys_ok E (C_link tmp target);
       if linked then return (0, True)
       else do {
         e \<leftarrow> get_errno;
         if e \<noteq> EPERM \<and> e \<noteq> EOPNOTSUPP \<and> e \<noteq> ENOSYS \<and> e \<noteq> EINVAL then return (-1, False)
         else do {
           ret \<leftarrow> place_over E tmp target slot;
           return (ret, False) } } } }"

definition place_rename :: "'w env \<Rightarrow> path \<Rightarrow> path \<Rightarrow> nat \<Rightarrow> ('w, int) prog" where
  "place_rename E tmp target slot = do {
     old \<leftarrow> pending_hold E;
     renamed \<leftarrow> sys_ok E (C_rename tmp target);
     whenM renamed (do { pending_clear slot; pending_clear PENDING_BACKUP });
     pending_release E old;
     return (if renamed then 0 else -1) }"

definition place_exchange :: "'w env \<Rightarrow> path \<Rightarrow> path \<Rightarrow> nat \<Rightarrow> stat \<Rightarrow> ('w, int) prog" where
  "place_exchange E tmp target slot old_st = do {
     old \<leftarrow> pending_hold E;
     ret \<leftarrow> fast_exchange E tmp target;
     whenM (ret = 0) (do { pending_retarget slot old_st; pending_clear PENDING_BACKUP });
     pending_release E old;
     return ret }"

subsection \<open>The mode a directory grants\<close>

definition find_probe :: "probe_entry list \<Rightarrow> path \<Rightarrow> mode_t option" where
  "find_probe ps dir = map_option pe_granted (find (\<lambda>p. pe_dir p = dir) ps)"

text \<open>The result and the mode granted.\<close>

definition place_probe_mode :: "'w env \<Rightarrow> path \<Rightarrow> mode_t \<Rightarrow> nat \<Rightarrow> ('w, int \<times> mode_t) prog" where
  "place_probe_mode E target mode slot = do {
     d \<leftarrow> path_dir E target;
     case d of
       None \<Rightarrow> return (-1, mode)
     | Some dir \<Rightarrow> do {
         ps \<leftarrow> gets probes;
         case find_probe ps dir of
           Some granted \<Rightarrow> return (0, granted)
         | None \<Rightarrow> do {
             r \<leftarrow> temp_make E target slot (make_open E) (empty_ctx\<lparr>mc_mode := mode\<rparr>);
             case r of
               None \<Rightarrow> return (-1, mode)
             | Some (name, mc) \<Rightarrow> do {
                 closed \<leftarrow> sys_ok E (C_close (mc_fd mc));
                 saved_errno \<leftarrow> get_errno;
                 left \<leftarrow> pending_remove E slot;
                 if \<not> closed then do { set_errno saved_errno; return (-1, mode) }
                 else do {
                   nprobes \<leftarrow> gets (\<lambda>s. length (probes s));
                   whenM (nprobes < NEWFILE_BATCH)
                     (modify (probes_update (\<lambda>ps. ps @ [\<lparr>pe_dir = dir, pe_granted = st_mode (mc_st mc)\<rparr>])));
                   return (if left \<noteq> 0 then 1 else 0, st_mode (mc_st mc)) } } } } }"

definition place_probe_reset :: "('w, unit) prog" where
  "place_probe_reset = modify (probes_update (\<lambda>_. []))"

end
