(* ===== verification/Backup.thy ===== *)
theory Backup
  imports Place
begin

text \<open>
  \<^verbatim>\<open>src/backup.c\<close>: a second name for a file about to be replaced. The numbered backups of a
  directory are listed once in a batch and kept, the highest number for each file.
\<close>

definition LIST_MIN :: nat where "LIST_MIN = 16"

subsection \<open>Numbers as digits\<close>

definition digits_cmp :: "string \<Rightarrow> string \<Rightarrow> int" where
  "digits_cmp a b =
     (if length a \<noteq> length b then (if length a < length b then -1 else 1) else strcmp a b)"

text \<open>The loop of \<^verbatim>\<open>digits_inc\<close> from the last digit, and whether it stopped at a digit below 9.\<close>

fun inc_loop :: "string \<Rightarrow> nat \<Rightarrow> string \<times> bool" where
  "inc_loop d 0 = (d, False)"
| "inc_loop d (Suc i) =
     (if d ! i \<noteq> CHR ''9'' then (d[i := char_of (of_char (d ! i) + 1 :: int)], True)
      else inc_loop (d[i := CHR ''0'']) i)"

text \<open>The number after: what \<^verbatim>\<open>*digits\<close> holds when \<^verbatim>\<open>digits_inc\<close> returns 0.\<close>

definition next_digits :: "string \<Rightarrow> string" where
  "next_digits d = (case inc_loop d (length d) of (d', stopped) \<Rightarrow> if stopped then d' else CHR ''1'' # d')"

definition digits_inc :: "'w env \<Rightarrow> string \<Rightarrow> ('w, string option) prog" where
  "digits_inc E d =
     (case inc_loop d (length d) of (d', stopped) \<Rightarrow>
        if stopped then return (Some d')
        else do {
          got \<leftarrow> alloc E;
          return (if got then Some (CHR ''1'' # d') else None) })"

subsection \<open>The names of backups\<close>

text \<open>The length of the base, and the rest of the name from its digits on.\<close>

definition backup_split :: "string \<Rightarrow> (nat \<times> string) option" where
  "backup_split name =
     (let len = length name in
      if len < 5 \<or> name ! (len - 1) \<noteq> CHR ''~'' then None
      else
        (let e = len - 1; p = e - length (takeWhile isdigit (rev (take e name))) in
         if p = e \<or> name ! p = CHR ''0'' \<or> p < 3 \<or> name ! (p - 1) \<noteq> CHR ''~'' \<or> name ! (p - 2) \<noteq> CHR ''.''
         then None else Some (p - 2, drop p name)))"

definition backup_text :: "path \<Rightarrow> string \<Rightarrow> path" where
  "backup_text filepath digits = filepath @ ''.~'' @ digits @ ''~''"

definition backup_name :: "'w env \<Rightarrow> path \<Rightarrow> string \<Rightarrow> ('w, path option) prog" where
  "backup_name E filepath digits = do {
     got \<leftarrow> alloc E;
     return (if got then Some (backup_text filepath digits) else None) }"

subsection \<open>The list of a directory\<close>

text \<open>\<^verbatim>\<open>qsort\<close> by \<^verbatim>\<open>entry_cmp\<close> orders by the base; which of two equal bases comes first is its choice.\<close>

definition entries_sort :: "backup_entry list \<Rightarrow> backup_entry list" where
  "entries_sort es = sort_key be_base es"

fun keep_loop :: "backup_entry list \<Rightarrow> backup_entry list \<Rightarrow> backup_entry list" where
  "keep_loop kept [] = kept"
| "keep_loop kept (e # es) =
     (if kept \<noteq> [] \<and> strcmp (be_base (last kept)) (be_base e) = 0 then
        (if 0 < digits_cmp (be_digits e) (be_digits (last kept))
         then keep_loop (butlast kept @ [(last kept)\<lparr>be_digits := be_digits e\<rparr>]) es
         else keep_loop kept es)
      else keep_loop (kept @ [e]) es)"

definition entries_keep_highest :: "backup_entry list \<Rightarrow> backup_entry list" where
  "entries_keep_highest es = keep_loop [] (entries_sort es)"

text \<open>
  The loop over the directory, followed for \<open>n\<close> entries: the error and the entries. \<open>cap\<close> is the
  room allocated.
\<close>

fun list_loop :: "'w env \<Rightarrow> nat \<Rightarrow> fd \<Rightarrow> nat \<Rightarrow> backup_entry list \<Rightarrow> ('w, errno \<times> backup_entry list) prog" where
  "list_loop E 0 dp cap es = do { out_of_fuel; return (EINTR, es) }"
| "list_loop E (Suc n) dp cap es = do {
     r \<leftarrow> sys E (C_readdir dp);
     case r of
       R_bytes name \<Rightarrow>
         (case backup_split name of
            None \<Rightarrow> list_loop E n dp cap es
          | Some (baselen, digits) \<Rightarrow> do {
              room \<leftarrow> (if length es = cap then alloc E else return True);
              if \<not> room then return (ENOMEM, es)
              else do {
                base_ok \<leftarrow> alloc E;
                digits_ok \<leftarrow> alloc E;
                if \<not> base_ok \<or> \<not> digits_ok then return (ENOMEM, es)
                else do {
                  set_errno E0;
                  list_loop E n dp
                    (if length es = cap then (if cap = 0 then LIST_MIN else cap * 2) else cap)
                    (es @ [\<lparr>be_base = take baselen name, be_digits = butlast digits\<rparr>]) } } })
     | _ \<Rightarrow> do { e \<leftarrow> get_errno; return (e, es) } }"

text \<open>The entries of the directory, or nothing with \<^verbatim>\<open>errno\<close> set.\<close>

definition backup_dir_list :: "'w env \<Rightarrow> path \<Rightarrow> ('w, backup_entry list option) prog" where
  "backup_dir_list E dir = do {
     dp \<leftarrow> sys_int E (C_opendir dir);
     if dp = -1 then return None
     else do {
       set_errno E0;
       r \<leftarrow> list_loop E (fuel E) dp 0 [];
       case r of (err, es) \<Rightarrow> do {
         _ \<leftarrow> sys E (C_closedir dp);
         if err \<noteq> E0 then do { set_errno err; return None }
         else return (Some (if es \<noteq> [] then entries_keep_highest es else es)) } } }"

definition backup_cache_reset :: "('w, unit) prog" where
  "backup_cache_reset = modify (backups_update (\<lambda>_. []))"

text \<open>The place of the directory of \<open>filepath\<close> in the cache.\<close>

definition backup_dir_get :: "'w env \<Rightarrow> path \<Rightarrow> ('w, nat option) prog" where
  "backup_dir_get E filepath = do {
     d \<leftarrow> path_dir E filepath;
     case d of
       None \<Rightarrow> return None
     | Some dir \<Rightarrow> do {
         bs \<leftarrow> gets backups;
         case find_index (\<lambda>b. bd_dir b = dir) bs of
           Some i \<Rightarrow> return (Some i)
         | None \<Rightarrow> do {
             whenM (length bs = NEWFILE_BATCH) backup_cache_reset;
             es \<leftarrow> backup_dir_list E dir;
             case es of
               None \<Rightarrow> return None
             | Some es \<Rightarrow> do {
                 bs \<leftarrow> gets backups;
                 modify (backups_update (\<lambda>bs. bs @ [\<lparr>bd_dir = dir, bd_entries = es\<rparr>]));
                 return (Some (length bs)) } } } }"

text \<open>\<^verbatim>\<open>bsearch\<close> of the C library, on the bases.\<close>

function bsearch :: "string \<Rightarrow> backup_entry list \<Rightarrow> nat \<Rightarrow> nat \<Rightarrow> nat option" where
  "bsearch key es lo hi =
     (if hi \<le> lo then None
      else
        (let mid = (lo + hi) div 2; c = strcmp key (be_base (es ! mid)) in
         if c < 0 then bsearch key es lo mid
         else if 0 < c then bsearch key es (mid + 1) hi
         else Some mid))"
  by pat_completeness auto
termination
  by (relation "measure (\<lambda>(key, es, lo, hi). hi - lo)") auto

declare bsearch.simps [simp del]

definition base_of :: "path \<Rightarrow> string" where
  "base_of filepath = drop (path_dir_len filepath) filepath"

definition backup_find :: "backup_entry list \<Rightarrow> path \<Rightarrow> nat option" where
  "backup_find es filepath = (if es = [] then None else bsearch (base_of filepath) es 0 (length es))"

text \<open>Whether it succeeded, and the best digits if there are any.\<close>

definition backup_best :: "'w env \<Rightarrow> path \<Rightarrow> ('w, int \<times> string option) prog" where
  "backup_best E filepath = do {
     b \<leftarrow> backup_dir_get E filepath;
     case b of
       None \<Rightarrow> return (-1, None)
     | Some i \<Rightarrow> do {
         bs \<leftarrow> gets backups;
         case backup_find (bd_entries (bs ! i)) filepath of
           None \<Rightarrow> return (0, None)
         | Some k \<Rightarrow> do {
             got \<leftarrow> alloc E;
             return (if got then (0, Some (be_digits (bd_entries (bs ! i) ! k))) else (-1, None)) } } }"

text \<open>The place for a new base: from the end, past every greater one.\<close>

definition insert_entry :: "backup_entry \<Rightarrow> backup_entry list \<Rightarrow> backup_entry list" where
  "insert_entry e es =
     (let k = length es - length (takeWhile (\<lambda>x. 0 < strcmp (be_base x) (be_base e)) (rev es))
      in take k es @ e # drop k es)"

definition set_entries :: "nat \<Rightarrow> backup_entry list \<Rightarrow> ('w, unit) prog" where
  "set_entries i es = modify (backups_update (\<lambda>bs. bs[i := (bs ! i)\<lparr>bd_entries := es\<rparr>]))"

definition backup_note :: "'w env \<Rightarrow> path \<Rightarrow> string \<Rightarrow> ('w, unit) prog" where
  "backup_note E filepath digits = do {
     b \<leftarrow> backup_dir_get E filepath;
     case b of
       None \<Rightarrow> return ()
     | Some i \<Rightarrow> do {
         copied \<leftarrow> alloc E;
         if \<not> copied then return ()
         else do {
           bs \<leftarrow> gets backups;
           let es = bd_entries (bs ! i);
           case backup_find es filepath of
             Some k \<Rightarrow>
               whenM (0 < digits_cmp digits (be_digits (es ! k)))
                 (set_entries i (es[k := (es ! k)\<lparr>be_digits := digits\<rparr>]))
           | None \<Rightarrow> do {
               base_ok \<leftarrow> alloc E;
               grown_ok \<leftarrow> alloc E;
               whenM (base_ok \<and> grown_ok)
                 (set_entries i (insert_entry \<lparr>be_base = base_of filepath, be_digits = digits\<rparr> es)) } } } }"

subsection \<open>Making a backup\<close>

definition first_backup_exists :: "'w env \<Rightarrow> path \<Rightarrow> ('w, bool) prog" where
  "first_backup_exists E filepath = do {
     name \<leftarrow> backup_name E filepath ''1'';
     case name of
       None \<Rightarrow> return False
     | Some n \<Rightarrow> sys_ok E (C_lstat n) }"

text \<open>Whether it succeeded, and the digits, or none for a simple backup.\<close>

definition backup_next :: "'w env \<Rightarrow> path \<Rightarrow> string \<Rightarrow> ('w, int \<times> string option) prog" where
  "backup_next E filepath control =
     (if control = ''simple'' \<or> control = ''never'' then return (0, None)
      else do {
        let wanted = (control = ''numbered'' \<or> control = ''t'');
        r \<leftarrow> backup_best E filepath;
        e \<leftarrow> get_errno;
        case r of (ret, best) \<Rightarrow>
          if ret \<noteq> 0 \<and> e \<noteq> EACCES \<and> e \<noteq> EPERM then return (-1, None)
          else do {
            numbered \<leftarrow> (if ret \<noteq> 0
              then (if wanted then return True else first_backup_exists E filepath)
              else return (wanted \<or> best \<noteq> None));
            if \<not> numbered then return (0, None)
            else case (if ret \<noteq> 0 then None else best) of
                None \<Rightarrow> do {
                  got \<leftarrow> alloc E;
                  return (if got then (0, Some ''1'') else (-1, None)) }
              | Some d \<Rightarrow> do {
                  d' \<leftarrow> digits_inc E d;
                  return (case d' of None \<Rightarrow> (-1, None) | Some x \<Rightarrow> (0, Some x)) } } })"

definition backup_link :: "'w env \<Rightarrow> path \<Rightarrow> path \<Rightarrow> stat \<Rightarrow> ('w, bool) prog" where
  "backup_link E filepath name st = do {
     old \<leftarrow> pending_hold E;
     linked \<leftarrow> sys_ok E (C_link filepath name);
     whenM linked (pending_arm PENDING_BACKUP name st);
     pending_release E old;
     return linked }"

text \<open>The loop over the numbers, followed for \<open>n\<close> of them: the name made, if any.\<close>

fun backup_numbered :: "'w env \<Rightarrow> nat \<Rightarrow> path \<Rightarrow> stat \<Rightarrow> string \<Rightarrow> ('w, path option) prog" where
  "backup_numbered E 0 filepath st digits = do { out_of_fuel; return None }"
| "backup_numbered E (Suc n) filepath st digits = do {
     name \<leftarrow> backup_name E filepath digits;
     case name of
       None \<Rightarrow> return None
     | Some nm \<Rightarrow> do {
         linked \<leftarrow> backup_link E filepath nm st;
         if linked then do {
           backup_note E filepath digits;
           return (Some nm) }
         else do {
           e \<leftarrow> get_errno;
           if e \<noteq> EEXIST then return None
           else do {
             d' \<leftarrow> digits_inc E digits;
             case d' of
               None \<Rightarrow> return None
             | Some d \<Rightarrow> backup_numbered E n filepath st d } } } }"

text \<open>The result, and the name of the backup when it is not -1.\<close>

definition backup_simple :: "'w env \<Rightarrow> path \<Rightarrow> stat \<Rightarrow> ('w, int \<times> path option) prog" where
  "backup_simple E filepath st = do {
     got \<leftarrow> alloc E;
     let name = filepath @ ''~'';
     if \<not> got then return (-1, None)
     else do {
       linked \<leftarrow> backup_link E filepath name st;
       if linked then return (0, Some name)
       else do {
         e \<leftarrow> get_errno;
         if e \<noteq> EEXIST then return (-1, None)
         else do {
           tmp \<leftarrow> place_temp_alias E filepath st PENDING_BACKUP;
           case tmp of
             None \<Rightarrow> return (-1, None)
           | Some t \<Rightarrow> do {
               renamed \<leftarrow> sys_ok E (C_rename t name);
               if \<not> renamed then do {
                 _ \<leftarrow> pending_remove E PENDING_BACKUP;
                 return (-1, None) }
               else do {
                 ret \<leftarrow> pending_remove E PENDING_BACKUP;
                 return (if ret = 0 then 0 else 1, Some name) } } } } } }"

text \<open>The result, the name of the backup, and the \<^verbatim>\<open>struct stat\<close> of the file backed up.\<close>

definition backup_make :: "'w env \<Rightarrow> path \<Rightarrow> string \<Rightarrow> ('w, int \<times> path option \<times> stat) prog" where
  "backup_make E filepath control =
     (if control = ''none'' \<or> control = ''off'' then return (0, None, no_stat)
      else do {
        st \<leftarrow> sys_stat E (C_lstat filepath);
        case st of
          None \<Rightarrow> do { e \<leftarrow> get_errno; return (if e = ENOENT then 0 else -1, None, no_stat) }
        | Some st \<Rightarrow>
            if \<not> S_ISREG (st_mode st) then do {
              set_errno (if S_ISDIR (st_mode st) then EISDIR else EINVAL);
              return (-1, None, st) }
            else do {
              r \<leftarrow> backup_next E filepath control;
              case r of (ret, digits) \<Rightarrow>
                if ret \<noteq> 0 then return (-1, None, st)
                else case digits of
                    None \<Rightarrow> do {
                      q \<leftarrow> backup_simple E filepath st;
                      return (fst q, snd q, st) }
                  | Some d \<Rightarrow> do {
                      nm \<leftarrow> backup_numbered E (fuel E) filepath st d;
                      return (if nm = None then -1 else 0, nm, st) } } })"

end
