(* ===== verification/Backup_Order.thy ===== *)
theory Backup_Order
  imports Backup
begin

text \<open>
  What the number arithmetic of \<^verbatim>\<open>src/backup.c\<close> computes: the digit strings are numbers without a
  bound, the names of backups can be read back, and the list of a directory keeps, sorted for the
  binary search, the highest number of each file.
\<close>

subsection \<open>Digit strings as numbers\<close>

text \<open>The numbers of backups: from 1 up, without leading zeros.\<close>

definition number :: "string \<Rightarrow> bool" where
  "number d \<longleftrightarrow> d \<noteq> [] \<and> list_all isdigit d \<and> hd d \<noteq> CHR ''0''"

lemma digits_val_append: "digits_val b (xs @ ys) = digits_val b xs * b ^ length ys + digits_val b ys"
proof (induction ys rule: rev_induct)
  case (snoc y ys)
  have "digits_val b (xs @ ys @ [y]) = digits_val b ((xs @ ys) @ [y])" by simp
  then show ?case using snoc by (simp only: digits_val_snoc) (simp add: algebra_simps)
qed simp

lemma digits_val_Cons: "digits_val b (x # xs) = digit_val x * b ^ length xs + digits_val b xs"
  using digits_val_append[of b "[x]" xs] by (simp add: digits_val_def)

lemma digits_val_less: "list_all isdigit xs \<Longrightarrow> digits_val 10 xs < 10 ^ length xs"
proof (induction xs)
  case (Cons x xs)
  then have "digit_val x * 10 ^ length xs \<le> 9 * 10 ^ length xs"
    using digit_val_bounds[of x] by (intro mult_right_mono) auto
  moreover have "digits_val 10 xs < 10 ^ length xs" using Cons by simp
  ultimately show ?case unfolding digits_val_Cons list.size(4) add_Suc_right power_Suc add_0_right by linarith
qed simp

lemma digits_val_nonneg_10: "list_all isdigit xs \<Longrightarrow> 0 \<le> digits_val 10 xs"
  using digits_val_nonneg[of 10 xs] by simp

lemma digit_val_eq_0: "digit_val c = 0 \<longleftrightarrow> c = CHR ''0''"
proof -
  have "(of_char c :: int) = of_char (CHR ''0'') \<longleftrightarrow> c = CHR ''0''" by (rule of_char_eq_iff)
  then show ?thesis by (simp add: digit_val_def)
qed

lemma number_lower: "number d \<Longrightarrow> 10 ^ (length d - 1) \<le> digits_val 10 d"
proof (cases d)
  case (Cons x xs)
  assume "number d"
  with Cons have x: "1 \<le> digit_val x" and xs: "0 \<le> digits_val 10 xs"
    using digit_val_bounds[of x] digit_val_eq_0[of x] by (auto simp: number_def digits_val_nonneg_10)
  have "1 * 10 ^ length xs \<le> digit_val x * 10 ^ length xs" using x by (intro mult_right_mono) auto
  with xs have "10 ^ length xs \<le> digits_val 10 (x # xs)" unfolding digits_val_Cons by linarith
  with Cons show ?thesis by simp
qed (simp add: number_def)

subsection \<open>Comparison\<close>

lemma strcmp_digits:
  assumes "length a = length b" "list_all isdigit a" "list_all isdigit b"
  shows "strcmp a b < 0 \<longleftrightarrow> digits_val 10 a < digits_val 10 b"
  using assms
proof (induction a b rule: list_induct2)
  case (Cons x xs y ys)
  let ?p = "10 ^ length ys :: int"
  have b: "digits_val 10 xs < ?p" "0 \<le> digits_val 10 xs" "digits_val 10 ys < ?p" "0 \<le> digits_val 10 ys"
    using Cons.prems Cons.hyps digits_val_less[of xs] digits_val_less[of ys] by (auto simp: digits_val_nonneg_10)
  consider "digit_val x = digit_val y" | "digit_val x < digit_val y" | "digit_val y < digit_val x" by linarith
  then show ?case
  proof cases
    case 1
    then show ?thesis using Cons by (simp add: digits_val_Cons digit_val_def)
  next
    case 2
    then have "(digit_val x + 1) * ?p \<le> digit_val y * ?p" by (intro mult_right_mono) auto
    with 2 b Cons.hyps show ?thesis by (simp add: digits_val_Cons digit_val_def algebra_simps)
  next
    case 3
    then have "(digit_val y + 1) * ?p \<le> digit_val x * ?p" by (intro mult_right_mono) auto
    with 3 b Cons.hyps show ?thesis by (simp add: digits_val_Cons digit_val_def algebra_simps)
  qed
qed simp

lemma number_length_less:
  assumes "number a" "number b" "length a < length b"
  shows "digits_val 10 a < digits_val 10 b"
proof -
  have "digits_val 10 a < 10 ^ length a" using assms(1) by (simp add: number_def digits_val_less)
  also have "(10 :: int) ^ length a \<le> 10 ^ (length b - 1)" using assms(3) by (intro power_increasing) auto
  also have "\<dots> \<le> digits_val 10 b" using assms(2) by (rule number_lower)
  finally show ?thesis .
qed

lemma digits_cmp_less: "number a \<Longrightarrow> number b \<Longrightarrow> digits_cmp a b < 0 \<longleftrightarrow> digits_val 10 a < digits_val 10 b"
  using number_length_less[of a b] number_length_less[of b a] strcmp_digits[of a b]
  by (cases "length a" "length b" rule: linorder_cases) (auto simp: digits_cmp_def number_def)

lemma digits_cmp_swap: "digits_cmp a b < 0 \<longleftrightarrow> 0 < digits_cmp b a"
  by (auto simp: digits_cmp_def strcmp_order)

lemma digits_cmp_eq: "digits_cmp a b = 0 \<longleftrightarrow> a = b"
  by (auto simp: digits_cmp_def)

lemma digits_cmp_greater: "number a \<Longrightarrow> number b \<Longrightarrow> 0 < digits_cmp a b \<longleftrightarrow> digits_val 10 b < digits_val 10 a"
  using digits_cmp_less[of b a] digits_cmp_swap[of b a] by simp

text \<open>
  C16. On the numbers of backups \<^verbatim>\<open>digits_cmp\<close> is the comparison of the numbers they stand for,
  however many digits they have: negative, zero or positive as the first is smaller, equal or greater.
\<close>

theorem digits_cmp_correct:
  assumes "number a" "number b"
  shows "sgn (digits_cmp a b) = sgn (digits_val 10 a - digits_val 10 b)"
proof -
  have "digits_cmp a b = 0 \<longleftrightarrow> digits_val 10 a = digits_val 10 b"
    using digits_cmp_less[OF assms] digits_cmp_greater[OF assms] by linarith
  then show ?thesis
    using digits_cmp_less[OF assms] digits_cmp_greater[OF assms] by (auto simp: sgn_if)
qed

theorem digits_cmp_witness: "sgn (digits_cmp ''99'' ''100'') = - 1"
  using digits_cmp_correct[of "''99''" "''100''"]
  by (simp add: number_def isdigit_def digits_val_def digit_val_def)

subsection \<open>The next number\<close>

lemma digit_succ:
  assumes "isdigit c" "c \<noteq> CHR ''9''"
  shows "isdigit (char_of (of_char c + 1 :: int))" "digit_val (char_of (of_char c + 1 :: int)) = digit_val c + 1"
    "char_of (of_char c + 1 :: int) \<noteq> CHR ''0''"
proof -
  have c: "48 \<le> (of_char c :: int)" "(of_char c :: int) \<le> 57" using assms(1) by (simp_all add: isdigit_def)
  have "(of_char c :: int) \<noteq> of_char (CHR ''9'')" using assms(2) unfolding of_char_eq_iff .
  with c have b: "(of_char c :: int) + 1 \<le> 57" by simp
  have o: "(of_char (char_of (of_char c + 1 :: int)) :: int) = of_char c + 1"
    unfolding of_char_of by (rule mod_pos_pos_trivial) (use c b in auto)
  show "isdigit (char_of (of_char c + 1 :: int))" using c b unfolding isdigit_def o by simp
  show "digit_val (char_of (of_char c + 1 :: int)) = digit_val c + 1" unfolding digit_val_def o by simp
  show "char_of (of_char c + 1 :: int) \<noteq> CHR ''0''"
  proof
    assume "char_of (of_char c + 1 :: int) = CHR ''0''"
    then have "(of_char c :: int) + 1 = of_char (CHR ''0'')" using o by metis
    then show False using c by simp
  qed
qed

text \<open>
  The loop on the digits \<open>p\<close> with \<open>q\<close> behind them: it either adds one, or finds only nines and
  leaves zeros.
\<close>

definition inc_result :: "string \<Rightarrow> string \<Rightarrow> string \<times> bool \<Rightarrow> bool" where
  "inc_result p q r \<longleftrightarrow> (\<exists>p'. fst r = p' @ q \<and> list_all isdigit p' \<and> length p' = length p \<and>
     (if snd r then digits_val 10 p' = digits_val 10 p + 1 \<and> p \<noteq> [] \<and> (hd p \<noteq> CHR ''0'' \<longrightarrow> hd p' \<noteq> CHR ''0'')
      else digits_val 10 p' = 0 \<and> digits_val 10 p + 1 = 10 ^ length p))"

lemma inc_loop_result: "list_all isdigit p \<Longrightarrow> inc_result p q (inc_loop (p @ q) (length p))"
proof (induction p arbitrary: q rule: rev_induct)
  case Nil
  then show ?case by (simp add: inc_result_def)
next
  case (snoc c p)
  show ?case
  proof (cases "c = CHR ''9''")
    case False
    then show ?thesis
      using snoc.prems digit_succ[of c]
      by (auto simp: inc_result_def list_update_append hd_append intro!: exI[of _ "p @ [char_of (of_char c + 1 :: int)]"])
  next
    case True
    then have "inc_loop ((p @ [c]) @ q) (length (p @ [c])) = inc_loop (p @ CHR ''0'' # q) (length p)"
      by (simp add: list_update_append)
    moreover obtain p' where "fst (inc_loop (p @ CHR ''0'' # q) (length p)) = p' @ CHR ''0'' # q"
      "list_all isdigit p'" "length p' = length p"
      "if snd (inc_loop (p @ CHR ''0'' # q) (length p))
       then digits_val 10 p' = digits_val 10 p + 1 \<and> p \<noteq> [] \<and> (hd p \<noteq> CHR ''0'' \<longrightarrow> hd p' \<noteq> CHR ''0'')
       else digits_val 10 p' = 0 \<and> digits_val 10 p + 1 = 10 ^ length p"
      using snoc.IH[of "CHR ''0'' # q"] snoc.prems by (auto simp: inc_result_def)
    ultimately show ?thesis
      using True
      by (auto simp: inc_result_def digit_val_def isdigit_def hd_append intro!: exI[of _ "p' @ [CHR ''0'']"] split: if_splits)
  qed
qed

lemma next_digits_number:
  assumes "number d"
  shows "number (next_digits d) \<and> digits_val 10 (next_digits d) = digits_val 10 d + 1"
proof -
  obtain d' st where r: "inc_loop d (length d) = (d', st)" by fastforce
  have "inc_result d [] (d', st)"
    using inc_loop_result[of d "[]"] assms r by (simp add: number_def)
  then show ?thesis
    using assms r
    by (auto simp: inc_result_def next_digits_def number_def digits_val_Cons digit_val_def isdigit_def split: if_splits)
qed

text \<open>
  C17. The number that \<^verbatim>\<open>digits_inc\<close> leaves is the next one, also when a digit is added: it has no
  leading zero and its value is one more.
\<close>

theorem next_digits_correct:
  assumes "number d"
  shows "number (next_digits d) \<and> digits_val 10 (next_digits d) = digits_val 10 d + 1 \<and>
    0 < digits_cmp (next_digits d) d"
  using next_digits_number[OF assms] digits_cmp_greater[of "next_digits d" d] assms by simp

theorem next_digits_witness: "next_digits ''1999'' = ''2000'' \<and> 0 < digits_cmp (next_digits ''1999'') ''1999''"
proof -
  have "number ''1999''" by (simp add: number_def isdigit_def)
  moreover have "next_digits ''1999'' = ''2000''" by code_simp
  ultimately show ?thesis using next_digits_correct[of "''1999''"] by simp
qed

subsection \<open>The names of backups\<close>

lemma takeWhile_rev_digits:
  assumes "list_all isdigit d" "\<not> isdigit c"
  shows "takeWhile isdigit (rev (p @ c # d)) = rev d"
proof -
  have "rev (p @ c # d) = rev d @ c # rev p" by simp
  then show ?thesis using assms by (simp only: takeWhile_append) (auto simp: list_all_iff)
qed

lemma backup_text_parts:
  "length (backup_text base d) = length base + length d + 3"
  "take (length (backup_text base d) - 1) (backup_text base d) = (base @ ''.'') @ CHR ''~'' # d"
  "backup_text base d ! (length (backup_text base d) - 1) = CHR ''~''"
  "drop (length base + 2) (backup_text base d) = d @ ''~''"
  "backup_text base d ! (length base + 1) = CHR ''~''" "backup_text base d ! length base = CHR ''.''"
  by (simp_all add: backup_text_def nth_append)

lemma backup_split_text:
  assumes "base \<noteq> []" "number d"
  shows "backup_split (backup_text base d) = Some (length base, d @ ''~'')"
proof -
  let ?n = "backup_text base d" and ?e = "length base + length d + 2"
  have d: "d \<noteq> []" "list_all isdigit d" "hd d \<noteq> CHR ''0''" using assms(2) by (auto simp: number_def)
  have tw: "takeWhile isdigit (rev (take ?e ?n)) = rev d"
    using backup_text_parts(2)[of base d] takeWhile_rev_digits[OF d(2), of "CHR ''~''" "base @ ''.''"]
    by (simp add: backup_text_parts(1) isdigit_def)
  have hd: "?n ! (length base + 2) = hd d"
    using d(1) by (cases d) (simp_all add: backup_text_def nth_append)
  have e: "length ?n - 1 = ?e" by (simp add: backup_text_parts(1))
  have p: "?e - length (takeWhile isdigit (rev (take ?e ?n))) = length base + 2" unfolding tw by simp
  have g: "\<not> (length ?n < 5 \<or> ?n ! ?e \<noteq> CHR ''~'')"
    using backup_text_parts(3)[of base d] assms(1) d(1) by (simp only: e) (cases base; cases d; simp add: backup_text_parts(1))
  have "\<not> (length base + 2 = ?e \<or> ?n ! (length base + 2) = CHR ''0'' \<or> length base + 2 < 3 \<or>
      ?n ! (length base + 2 - 1) \<noteq> CHR ''~'' \<or> ?n ! (length base + 2 - 2) \<noteq> CHR ''.'')"
    using assms(1) d hd backup_text_parts(5,6)[of base d] by simp
  with g show ?thesis
    unfolding backup_split_def Let_def e p by (simp only: if_False backup_text_parts(4)) simp
qed

lemma backup_split_Some:
  assumes "backup_split name = Some (n, t)"
  shows "\<exists>base d. name = backup_text base d \<and> base \<noteq> [] \<and> number d \<and> n = length base \<and> t = d @ ''~''"
proof -
  define e where "e = length name - 1"
  define ds where "ds = takeWhile isdigit (rev (take e name))"
  define p where "p = e - length ds"
  have g: "5 \<le> length name" "name ! e = CHR ''~''" "p \<noteq> e" "name ! p \<noteq> CHR ''0''" "3 \<le> p"
      "name ! (p - 1) = CHR ''~''" "name ! (p - 2) = CHR ''.''" "n = p - 2" "t = drop p name"
    using assms by (auto simp: backup_split_def Let_def e_def ds_def p_def split: if_splits)
  have split: "take e name = take p name @ rev ds"
  proof -
    have "rev (take e name) = ds @ dropWhile isdigit (rev (take e name))" by (simp add: ds_def)
    then have "rev (take e name) = ds @ drop (length ds) (rev (take e name))" by (simp add: ds_def dropWhile_eq_drop)
    then have "rev (rev (take e name)) = rev (ds @ drop (length ds) (rev (take e name)))" by (rule arg_cong)
    then have "take e name = rev (drop (length ds) (rev (take e name))) @ rev ds" by (simp only: rev_append rev_rev_ident)
    moreover have "length (take e name) = e" by (simp add: e_def)
    ultimately show ?thesis by (simp only: rev_drop rev_rev_ident length_rev) (simp add: p_def min_def)
  qed
  have name: "name = take e name @ [name ! e]"
    using g(1) by (simp add: e_def flip: take_Suc_conv_app_nth)
  have pl: "p < length name" "p \<le> e" using g(1) by (auto simp: p_def e_def)
  have base: "take p name = take (p - 2) name @ [name ! (p - 2), name ! (p - 1)]"
  proof -
    have q: "Suc (Suc (p - 2)) = p" "Suc (p - 2) = p - 1" using g(5) by linarith+
    have "take (Suc (Suc (p - 2))) name = take (p - 2) name @ [name ! (p - 2), name ! Suc (p - 2)]"
      using pl g(5) by (simp add: take_Suc_conv_app_nth)
    then show ?thesis unfolding q(1) unfolding q(2) .
  qed
  have nm: "name = backup_text (take (p - 2) name) (rev ds)"
    using name split base g(2,6,7) by (simp add: backup_text_def)
  have "length ds \<le> e" using length_takeWhile_le[of isdigit "rev (take e name)"] by (simp add: ds_def)
  then have "length ds = e - p" by (simp add: p_def)
  moreover have "drop p name = rev ds @ ''~''"
    using name split g(2) pl by (metis append_assoc append_eq_conv_conj length_take min.absorb2 less_imp_le)
  moreover have "number (rev ds)"
  proof -
    have "hd (rev ds) = name ! p"
      using \<open>drop p name = rev ds @ ''~''\<close> pl g(3) \<open>length ds = e - p\<close>
      by (metis hd_append2 hd_drop_conv_nth length_0_conv length_rev diff_is_0_eq le_antisym)
    moreover have "ds \<noteq> []" using g(3) \<open>length ds = e - p\<close> pl by auto
    moreover have "list_all isdigit ds" unfolding ds_def by (rule list_all_takeWhile_self)
    ultimately show ?thesis using g(4) by (simp add: number_def list_all_rev)
  qed
  ultimately show ?thesis
    using nm g(5,8,9) pl by (intro exI[of _ "take (p - 2) name"] exI[of _ "rev ds"]) auto
qed

text \<open>
  C15. A name is read as a backup exactly when it is the name \<^verbatim>\<open>backup_name\<close> gives to some number of
  some file, and it is read back as that file and that number: \<^verbatim>\<open>base.~n~\<close> with a base that is not
  empty and a number from 1 up without leading zeros.
\<close>

theorem backup_split_iff:
  "backup_split name = Some (n, t) \<longleftrightarrow>
     (\<exists>base d. name = backup_text base d \<and> base \<noteq> [] \<and> number d \<and> n = length base \<and> t = d @ ''~'')"
  using backup_split_Some backup_split_text by blast

subsection \<open>The list of a directory\<close>

abbreviation strictly_sorted :: "backup_entry list \<Rightarrow> bool" where
  "strictly_sorted es \<equiv> sorted_wrt (<) (map be_base es)"

text \<open>What a list of entries says of a file: the entries of its base, of which \<open>x\<close> has the highest number.\<close>

definition highest :: "backup_entry \<Rightarrow> backup_entry list \<Rightarrow> bool" where
  "highest x es \<longleftrightarrow> x \<in> set es \<and>
     (\<forall>y \<in> set es. be_base y = be_base x \<longrightarrow> \<not> 0 < digits_cmp (be_digits y) (be_digits x))"

lemma digits_cmp_trans: "\<not> 0 < digits_cmp a b \<Longrightarrow> \<not> 0 < digits_cmp b c \<Longrightarrow> \<not> 0 < digits_cmp a c"
  by (auto simp: digits_cmp_def strcmp_order split: if_splits)

lemma entry_eq: "be_base x = be_base y \<Longrightarrow> x\<lparr>be_digits := be_digits y\<rparr> = y" for x y :: backup_entry
  by (cases x; cases y) simp

lemma highest_snoc_other:
  "highest x es \<Longrightarrow> be_base y \<noteq> be_base x \<Longrightarrow> highest x (es @ [y])"
  "highest x es \<Longrightarrow> \<not> 0 < digits_cmp (be_digits y) (be_digits x) \<Longrightarrow> highest x (es @ [y])"
  by (auto simp: highest_def)

lemma highest_snoc_new:
  "\<forall>z \<in> set es. be_base z = be_base y \<longrightarrow> \<not> 0 < digits_cmp (be_digits z) (be_digits y) \<Longrightarrow> highest y (es @ [y])"
  by (auto simp: highest_def digits_cmp_def strcmp_order)

text \<open>What the loop holds after the entries \<open>done\<close>: for each base the highest entry, in order.\<close>

definition kept_ok :: "backup_entry list \<Rightarrow> backup_entry list \<Rightarrow> bool" where
  "kept_ok kept seen \<longleftrightarrow> strictly_sorted kept \<and> be_base ` set kept = be_base ` set seen \<and>
     (\<forall>x \<in> set kept. highest x seen)"

lemma kept_ok_new:
  assumes "kept_ok kept seen" "\<forall>x \<in> set kept. be_base x < be_base e"
  shows "kept_ok (kept @ [e]) (seen @ [e])"
proof -
  have "\<forall>y \<in> set seen. be_base y \<noteq> be_base e"
  proof
    fix y
    assume "y \<in> set seen"
    then have "be_base y \<in> be_base ` set kept" using assms(1) by (simp add: kept_ok_def)
    then show "be_base y \<noteq> be_base e" using assms(2) by auto
  qed
  then have "highest e (seen @ [e])" by (intro highest_snoc_new) blast
  moreover have "highest x (seen @ [e])" if "x \<in> set kept" for x
    using that assms by (intro highest_snoc_other(1)) (auto simp: kept_ok_def)
  moreover have "strictly_sorted kept" using assms(1) by (simp add: kept_ok_def)
  then have "strictly_sorted (kept @ [e])" using assms(2) by (simp add: sorted_wrt_append)
  ultimately show ?thesis using assms(1) by (auto simp: kept_ok_def)
qed

lemma kept_ok_same:
  assumes "kept_ok (kept @ [l]) seen" "be_base l = be_base e"
  shows "kept_ok (kept @ [if 0 < digits_cmp (be_digits e) (be_digits l) then e else l]) (seen @ [e])"
proof -
  have l: "highest l seen" and b: "\<forall>x \<in> set kept. be_base x \<noteq> be_base e"
    using assms by (auto simp: kept_ok_def sorted_wrt_append)
  have other: "highest x (seen @ [e])" if "x \<in> set kept" for x
    using that assms b by (intro highest_snoc_other(1)) (auto simp: kept_ok_def)
  have "highest (if 0 < digits_cmp (be_digits e) (be_digits l) then e else l) (seen @ [e])"
  proof (cases "0 < digits_cmp (be_digits e) (be_digits l)")
    case True
    have "\<not> 0 < digits_cmp (be_digits z) (be_digits e)" if "z \<in> set seen" "be_base z = be_base e" for z
    proof (rule digits_cmp_trans)
      show "\<not> 0 < digits_cmp (be_digits z) (be_digits l)" using l that assms(2) by (simp add: highest_def)
      show "\<not> 0 < digits_cmp (be_digits l) (be_digits e)"
        using True digits_cmp_swap[of "be_digits l" "be_digits e"] digits_cmp_swap[of "be_digits e" "be_digits l"] by linarith
    qed
    then show ?thesis using True by (simp add: highest_snoc_new)
  qed (use l in \<open>simp add: highest_snoc_other(2)\<close>)
  then show ?thesis using assms other by (auto simp: kept_ok_def)
qed

lemma keep_loop_ok:
  assumes "kept_ok kept seen" "sorted (map be_base es)"
    "\<forall>x \<in> set kept. \<forall>e \<in> set es. be_base x \<le> be_base e"
  shows "kept_ok (keep_loop kept es) (seen @ es)"
  using assms
proof (induction es arbitrary: kept seen)
  case (Cons e es)
  have step: "kept_ok (keep_loop k es) (seen @ e # es)"
    if "kept_ok k (seen @ [e])" "be_base ` set k \<subseteq> insert (be_base e) (be_base ` set kept)" for k
  proof -
    have "\<forall>x \<in> set k. \<forall>y \<in> set es. be_base x \<le> be_base y" using that(2) Cons.prems(2,3) by fastforce
    then show ?thesis using Cons.IH[OF that(1)] Cons.prems(2) by simp
  qed
  show ?case
  proof (cases "kept \<noteq> [] \<and> be_base (last kept) = be_base e")
    case True
    then obtain k l where k: "kept = k @ [l]" "be_base l = be_base e" by (metis append_butlast_last_id)
    have "keep_loop kept (e # es) = keep_loop (k @ [if 0 < digits_cmp (be_digits e) (be_digits l) then e else l]) es"
      using k by (simp add: entry_eq)
    moreover have "be_base ` set (k @ [if 0 < digits_cmp (be_digits e) (be_digits l) then e else l])
        \<subseteq> insert (be_base e) (be_base ` set kept)"
      using k by auto
    ultimately show ?thesis using step[OF kept_ok_same[OF Cons.prems(1)[unfolded k(1)] k(2)]] by simp
  next
    case False
    have less: "\<forall>x \<in> set kept. be_base x < be_base e"
    proof
      fix x
      assume x: "x \<in> set kept"
      then have ne: "kept \<noteq> []" by auto
      have "be_base x \<le> be_base (last kept)"
        using x Cons.prems(1) ne by (cases kept rule: rev_cases) (auto simp: kept_ok_def sorted_wrt_append)
      moreover have "be_base (last kept) < be_base e"
        using Cons.prems(3) False ne by (metis last_in_set list.set_intros(1) order.not_eq_order_implies_strict)
      ultimately show "be_base x < be_base e" by simp
    qed
    have "keep_loop kept (e # es) = keep_loop (kept @ [e]) es" using False by auto
    then show ?thesis using step[OF kept_ok_new[OF Cons.prems(1) less]] by simp
  qed
qed simp

lemma entries_keep_highest_ok: "kept_ok (entries_keep_highest es) (entries_sort es)"
  using keep_loop_ok[of "[]" "[]" "entries_sort es"] by (simp add: entries_keep_highest_def entries_sort_def kept_ok_def)

text \<open>
  C13. The list of a directory is left sorted by base without doubles, with an entry for exactly the
  files that have numbered backups, and for each of them the entry with the highest number.
\<close>

theorem entries_keep_highest_correct:
  "strictly_sorted (entries_keep_highest es) \<and>
   be_base ` set (entries_keep_highest es) = be_base ` set es \<and>
   list_all (\<lambda>x. highest x es) (entries_keep_highest es)"
  using entries_keep_highest_ok[of es] by (simp add: kept_ok_def entries_sort_def highest_def list_all_iff)

subsection \<open>The search\<close>

lemma bsearch_found: "bsearch key es lo hi = Some k \<Longrightarrow> be_base (es ! k) = key \<and> lo \<le> k \<and> k < hi"
proof (induction key es lo hi rule: bsearch.induct)
  case (1 key es lo hi)
  then show ?case by (subst (asm) (3) bsearch.simps) (force simp: Let_def split: if_splits)
qed

lemma bsearch_complete:
  assumes "strictly_sorted es" "hi \<le> length es" "lo \<le> k" "k < hi"
  shows "bsearch (be_base (es ! k)) es lo hi = Some k"
  using assms
proof (induction "be_base (es ! k)" es lo hi rule: bsearch.induct)
  case (1 es lo hi)
  let ?mid = "(lo + hi) div 2"
  have mid: "?mid < length es" "?mid < hi" "lo \<le> ?mid" using 1 by auto
  have nth: "be_base (es ! i) < be_base (es ! j)" if "i < j" "j < length es" for i j
    using sorted_wrt_nth_less[OF 1(3), of i j] that by simp
  let ?c = "strcmp (be_base (es ! k)) (be_base (es ! ?mid))"
  have unf: "bsearch (be_base (es ! k)) es lo hi =
      (if ?c < 0 then bsearch (be_base (es ! k)) es lo ?mid
       else if 0 < ?c then bsearch (be_base (es ! k)) es (?mid + 1) hi else Some ?mid)"
    using 1(5,6) by (subst bsearch.simps) (simp add: Let_def)
  consider "k < ?mid" | "?mid < k" | "k = ?mid" by linarith
  then show ?case
  proof cases
    case left: 1
    then have "?c < 0" using nth[of k ?mid] mid by (simp add: strcmp_order)
    then show ?thesis using 1 left mid unf by simp
  next
    case right: 2
    then have "0 < ?c" "\<not> ?c < 0" using nth[of ?mid k] mid 1 by (simp_all add: strcmp_order)
    then show ?thesis using 1 right mid unf by simp
  next
    case 3
    then show ?thesis using unf by (simp add: strcmp_order)
  qed
qed

lemma backup_find_iff:
  assumes "strictly_sorted es"
  shows "backup_find es p = Some k \<longleftrightarrow> k < length es \<and> be_base (es ! k) = base_of p"
  using bsearch_found[of "base_of p" es 0 "length es" k] bsearch_complete[OF assms, of "length es" 0 k]
  by (auto simp: backup_find_def)

lemma backup_find_None:
  assumes "strictly_sorted es"
  shows "backup_find es p = None \<longleftrightarrow> base_of p \<notin> be_base ` set es"
proof (cases "backup_find es p")
  case None
  then have "\<forall>k < length es. be_base (es ! k) \<noteq> base_of p" using backup_find_iff[OF assms, of p] by auto
  then show ?thesis using None by (auto simp: in_set_conv_nth)
next
  case (Some k)
  then have "k < length es" "be_base (es ! k) = base_of p" using backup_find_iff[OF assms, of p] by auto
  then have "base_of p \<in> be_base ` set es" by (metis nth_mem image_eqI)
  then show ?thesis using Some by simp
qed

text \<open>
  C14. In the list kept for a directory the binary search finds a file exactly when some name listed
  is a numbered backup of it, and what it finds is the highest number of them.
\<close>

theorem backup_find_highest:
  "case backup_find (entries_keep_highest es) p of
     None \<Rightarrow> base_of p \<notin> be_base ` set es
   | Some k \<Rightarrow> be_base (entries_keep_highest es ! k) = base_of p \<and> highest (entries_keep_highest es ! k) es"
proof -
  have r: "strictly_sorted (entries_keep_highest es)" "be_base ` set (entries_keep_highest es) = be_base ` set es"
    "\<forall>x \<in> set (entries_keep_highest es). highest x es"
    using entries_keep_highest_ok[of es] by (auto simp: kept_ok_def entries_sort_def highest_def)
  show ?thesis
  proof (cases "backup_find (entries_keep_highest es) p")
    case None
    then show ?thesis using backup_find_None[OF r(1), of p] r(2) by simp
  next
    case (Some k)
    then have "k < length (entries_keep_highest es)" "be_base (entries_keep_highest es ! k) = base_of p"
      using backup_find_iff[OF r(1), of p] by auto
    then show ?thesis using Some r(3) by simp
  qed
qed

end
