(* ===== verification/Io.thy ===== *)
theory Io
  imports Fastio
begin

text \<open>
  \<^verbatim>\<open>src/io.c\<close> and \<^verbatim>\<open>src/holes.c\<close>: whole writes, transfer buffers, filling a range with NUL, and
  where the data of a file sits.
\<close>

definition IO_BUFSIZE_MIN :: int where "IO_BUFSIZE_MIN = 131072"

definition IO_BUFSIZE_MAX :: int where "IO_BUFSIZE_MAX = 1048576"

text \<open>The buffer is what is left to write; the offset follows it.\<close>

function io_write :: "'w env \<Rightarrow> fd \<Rightarrow> bytes \<Rightarrow> ('w, int) prog" where
  "io_write E fd buf =
     (if buf = [] then return 0
      else do {
        nwritten \<leftarrow> sys_int E (C_write fd buf);
        if nwritten < 0 then return (-1)
        else if nwritten = 0 then do { set_errno EIO; return (-1) }
        else io_write E fd (drop (nat nwritten) buf) })"
  by pat_completeness auto
termination
  by (relation "measure (\<lambda>(E, fd, buf). length buf)") auto

function io_pwrite :: "'w env \<Rightarrow> fd \<Rightarrow> bytes \<Rightarrow> int \<Rightarrow> ('w, int) prog" where
  "io_pwrite E fd buf off =
     (if buf = [] then return 0
      else do {
        nwritten \<leftarrow> sys_int E (C_pwrite fd buf off);
        if nwritten < 0 then return (-1)
        else if nwritten = 0 then do { set_errno EIO; return (-1) }
        else io_pwrite E fd (drop (nat nwritten) buf) (off + nwritten) })"
  by pat_completeness auto
termination
  by (relation "measure (\<lambda>(E, fd, buf, off). length buf)") auto

declare io_write.simps [simp del] io_pwrite.simps [simp del]

definition io_bufsize :: "'w env \<Rightarrow> fd \<Rightarrow> ('w, int) prog" where
  "io_bufsize E fd = do {
     st \<leftarrow> sys_stat E (C_fstat fd);
     return (case st of
         None \<Rightarrow> IO_BUFSIZE_MIN
       | Some st \<Rightarrow>
           if IO_BUFSIZE_MIN < st_blksize st
           then (if IO_BUFSIZE_MAX < st_blksize st then IO_BUFSIZE_MAX else st_blksize st)
           else IO_BUFSIZE_MIN) }"

definition io_bufalloc :: "'w env \<Rightarrow> int \<Rightarrow> ('w, bool) prog" where
  "io_bufalloc E sz = do {
     page \<leftarrow> sys_int E C_pagesize;
     aligned \<leftarrow> (if 0 < page then sys_quiet E C_memory else return (R_fail E0));
     if 0 < page \<and> \<not> failed aligned then return True else alloc E }"

text \<open>
  The loop of \<^verbatim>\<open>io_fill\<close>. The buffer has at least one byte, since the length has and the buffer
  size of \<^const>\<open>io_bufsize\<close> is never below its minimum; the guard says so to the recursion.
\<close>

definition NUL :: char where "NUL = CHR 0x00"

function fill_loop :: "'w env \<Rightarrow> fd \<Rightarrow> int \<Rightarrow> int \<Rightarrow> int \<Rightarrow> ('w, int) prog" where
  "fill_loop E fd bufsize pos remaining =
     (if remaining \<le> 0 \<or> bufsize \<le> 0 then return 0
      else do {
        let chunk = (if bufsize < remaining then bufsize else remaining);
        ret \<leftarrow> io_pwrite E fd (replicate (nat chunk) NUL) pos;
        if ret \<noteq> 0 then return (-1)
        else fill_loop E fd bufsize (pos + chunk) (remaining - chunk) })"
  by pat_completeness auto
termination
  by (relation "measure (\<lambda>(E, fd, bufsize, pos, remaining). nat remaining)") (auto simp: Let_def)

declare fill_loop.simps [simp del]

definition io_fill :: "'w env \<Rightarrow> fd \<Rightarrow> int \<Rightarrow> int \<Rightarrow> ('w, int) prog" where
  "io_fill E fd off len =
     (if len \<le> 0 then return 0
      else do {
        ret \<leftarrow> fast_alloc E fd off len;
        if ret \<le> 0 then return ret
        else do {
          sz \<leftarrow> io_bufsize E fd;
          let bufsize = (if len < sz then len else sz);
          got \<leftarrow> alloc E;
          if \<not> got then return (-1) else fill_loop E fd bufsize off len } })"

subsection \<open>\<^verbatim>\<open>holes.c\<close>\<close>

definition seek_data :: "'w env \<Rightarrow> fd \<Rightarrow> int \<Rightarrow> ('w, int) prog" where
  "seek_data E fd from = sys_int E (C_lseek fd from SEEK_DATA)"

text \<open>The result with the bounds of the extent.\<close>

definition hole_next_data :: "'w env \<Rightarrow> fd \<Rightarrow> int \<Rightarrow> int \<Rightarrow> ('w, int \<times> int \<times> int) prog" where
  "hole_next_data E fd from sz =
     (if sz \<le> from then return (0, 0, 0)
      else do {
        data \<leftarrow> seek_data E fd from;
        if data = -1 then do {
          e \<leftarrow> get_errno;
          return (if e = ENXIO then (0, 0, 0)
                  else if e \<noteq> EINVAL \<and> e \<noteq> ENOTSUP then (-1, 0, 0)
                  else (1, from, sz)) }
        else do {
          gap \<leftarrow> sys_int E (C_lseek fd data SEEK_HOLE);
          let gap = (if gap = -1 then sz else gap);
          return (1, data, if sz < gap then sz else gap) } })"

definition hole_tail :: "'w env \<Rightarrow> fd \<Rightarrow> int \<Rightarrow> ('w, bool) prog" where
  "hole_tail E fd sz =
     (if sz \<le> 0 then return False
      else do {
        data \<leftarrow> seek_data E fd (sz - 1);
        e \<leftarrow> get_errno;
        return (data = -1 \<and> e = ENXIO) })"

definition hole_unknown :: "'w env \<Rightarrow> fd \<Rightarrow> ('w, bool) prog" where
  "hole_unknown E fd = do {
     data \<leftarrow> seek_data E fd 0;
     e \<leftarrow> get_errno;
     return (data = -1 \<and> (e = EINVAL \<or> e = ENOTSUP)) }"

end
