(* ===== verification/Template.thy ===== *)
theory Template
  imports Io Pending
begin

text \<open>
  \<^verbatim>\<open>src/template.c\<close>: what a new file starts out holding. A template is copied by its extents, by
  its blocks that are not zero, or as a stream.
\<close>

definition ST_NBLOCKSIZE :: int where "ST_NBLOCKSIZE = 512"

definition ZERO_BLOCK :: int where "ZERO_BLOCK = 4096"

text \<open>A stream may never end: the loop is followed for \<open>n\<close> reads.\<close>

fun stream_loop :: "'w env \<Rightarrow> nat \<Rightarrow> fd \<Rightarrow> fd \<Rightarrow> int \<Rightarrow> ('w, int) prog" where
  "stream_loop E 0 dst_fd src_fd bufsize = do { out_of_fuel; return (-1) }"
| "stream_loop E (Suc n) dst_fd src_fd bufsize = do {
     got \<leftarrow> sys_bytes E (C_read src_fd bufsize);
     case got of
       None \<Rightarrow> return (-1)
     | Some data \<Rightarrow>
         if data = [] then return 0
         else do {
           ret \<leftarrow> io_write E dst_fd data;
           if ret \<noteq> 0 then return (-1) else stream_loop E n dst_fd src_fd bufsize } }"

definition copy_stream :: "'w env \<Rightarrow> fd \<Rightarrow> fd \<Rightarrow> ('w, int) prog" where
  "copy_stream E dst_fd src_fd = do {
     bufsize \<leftarrow> io_bufsize E dst_fd;
     got \<leftarrow> io_bufalloc E bufsize;
     if \<not> got then return (-1) else stream_loop E (fuel E) dst_fd src_fd bufsize }"

text \<open>
  \<^verbatim>\<open>copy_slow\<close>: the buffer \<^verbatim>\<open>cb\<close> is its size once it is allocated. The result comes with the
  offset reached and the buffer.
\<close>

definition slow_buffer :: "'w env \<Rightarrow> fd \<Rightarrow> fd \<Rightarrow> int option \<Rightarrow> ('w, int option) prog" where
  "slow_buffer E dst_fd src_fd cb =
     (case cb of
        Some sz \<Rightarrow> return (Some sz)
      | None \<Rightarrow> do {
          srcsize \<leftarrow> io_bufsize E src_fd;
          dstsize \<leftarrow> io_bufsize E dst_fd;
          let sz = (if srcsize < dstsize then dstsize else srcsize);
          got \<leftarrow> io_bufalloc E sz;
          return (if got then Some sz else None) })"

function copy_slow ::
  "'w env \<Rightarrow> fd \<Rightarrow> fd \<Rightarrow> int \<Rightarrow> int \<Rightarrow> int \<Rightarrow> int option \<Rightarrow> ('w, int \<times> int \<times> int option) prog" where
  "copy_slow E dst_fd src_fd src_off dst_off end_off cb =
     (if end_off \<le> src_off then return (0, dst_off, cb)
      else do {
        buf \<leftarrow> slow_buffer E dst_fd src_fd cb;
        case buf of
          None \<Rightarrow> return (-1, dst_off, None)
        | Some sz \<Rightarrow> do {
            let chunk = (if sz < end_off - src_off then sz else end_off - src_off);
            got \<leftarrow> sys_bytes E (C_pread src_fd chunk src_off);
            case got of
              None \<Rightarrow> return (-1, dst_off, buf)
            | Some data \<Rightarrow>
                if data = [] then return (1, dst_off, buf)
                else do {
                  ret \<leftarrow> io_pwrite E dst_fd data dst_off;
                  if ret \<noteq> 0 then return (-1, dst_off, buf)
                  else copy_slow E dst_fd src_fd (src_off + int (length data)) (dst_off + int (length data)) end_off buf } } })"
  by pat_completeness auto
termination
  by (relation "measure (\<lambda>(E, dst_fd, src_fd, src_off, dst_off, end_off, cb). nat (end_off - src_off))") auto

declare copy_slow.simps [simp del]

text \<open>
  The loop of \<^verbatim>\<open>copy_extents\<close> over the extents, followed for \<open>n\<close> of them: the result is
  \<open>Inl\<close> the error of a copy, or what \<^verbatim>\<open>found\<close>, \<^verbatim>\<open>written\<close> and \<^verbatim>\<open>overstated\<close> hold after it.
\<close>

fun extents_loop ::
  "'w env \<Rightarrow> nat \<Rightarrow> fd \<Rightarrow> fd \<Rightarrow> int \<Rightarrow> int \<Rightarrow> int \<Rightarrow> int option \<Rightarrow> ('w, int + int \<times> int \<times> bool) prog" where
  "extents_loop E 0 dst_fd src_fd sz from written cb = do { out_of_fuel; return (Inl (-1)) }"
| "extents_loop E (Suc n) dst_fd src_fd sz from written cb = do {
     r \<leftarrow> hole_next_data E src_fd from sz;
     case r of (found, start, end_off) \<Rightarrow>
       if found \<noteq> 1 then return (Inr (found, written, False))
       else do {
         c \<leftarrow> fast_copy E dst_fd start src_fd start (end_off - start);
         case c of (ret, dst_off, src_off) \<Rightarrow> do {
           d \<leftarrow> (if 0 \<le> ret then copy_slow E dst_fd src_fd src_off dst_off end_off cb
                 else return (ret, dst_off, cb));
           case d of (ret, dst_off, cb) \<Rightarrow>
             if ret < 0 then return (Inl (-1))
             else if ret = 1 then return (Inr (found, dst_off, True))
             else extents_loop E n dst_fd src_fd sz end_off dst_off cb } } }"

definition copy_extents :: "'w env \<Rightarrow> fd \<Rightarrow> fd \<Rightarrow> int \<Rightarrow> ('w, int) prog" where
  "copy_extents E dst_fd src_fd sz = do {
     r \<leftarrow> extents_loop E (fuel E) dst_fd src_fd sz 0 0 None;
     case r of
       Inl ret \<Rightarrow> return ret
     | Inr (found, written, overstated) \<Rightarrow>
         if found < 0 then return (-1)
         else if written < sz \<and> \<not> overstated then do {
           trunc \<leftarrow> sys_ok E (C_ftruncate dst_fd sz);
           return (if trunc then 0 else -1) }
         else return 0 }"

text \<open>\<^verbatim>\<open>memcmp(buf, buf + 1, len - 1) == 0\<close>: each byte equals the one after it.\<close>

definition all_zero :: "bytes \<Rightarrow> bool" where
  "all_zero buf \<longleftrightarrow> buf = [] \<or> (hd buf = NUL \<and> butlast buf = tl buf)"

definition tail_zero :: "'w env \<Rightarrow> fd \<Rightarrow> int \<Rightarrow> ('w, bool) prog" where
  "tail_zero E fd sz = do {
     let len = (if sz < ZERO_BLOCK then sz else ZERO_BLOCK);
     got \<leftarrow> sys_bytes E (C_pread fd len (sz - len));
     return (case got of None \<Rightarrow> False | Some data \<Rightarrow> int (length data) = len \<and> all_zero data) }"

text \<open>The blocks of what was read, \<open>blksize\<close> bytes each and at least one.\<close>

function zero_blocks :: "'w env \<Rightarrow> fd \<Rightarrow> int \<Rightarrow> int \<Rightarrow> bytes \<Rightarrow> ('w, int) prog" where
  "zero_blocks E dst_fd blksize off data =
     (if data = [] \<or> blksize \<le> 0 then return 0
      else do {
        let blk = take (nat blksize) data;
        ret \<leftarrow> (if all_zero blk then return 0 else io_pwrite E dst_fd blk off);
        if ret \<noteq> 0 then return (-1)
        else zero_blocks E dst_fd blksize (off + int (length blk)) (drop (nat blksize) data) })"
  by pat_completeness auto
termination
  by (relation "measure (\<lambda>(E, fd, blksize, off, data). length data)") auto

function zeros_loop :: "'w env \<Rightarrow> fd \<Rightarrow> fd \<Rightarrow> int \<Rightarrow> int \<Rightarrow> int \<Rightarrow> int \<Rightarrow> ('w, int option) prog" where
  "zeros_loop E dst_fd src_fd bufsize blksize sz off =
     (if sz \<le> off then return (Some off)
      else do {
        let chunk = (if bufsize < sz - off then bufsize else sz - off);
        got \<leftarrow> sys_bytes E (C_pread src_fd chunk off);
        case got of
          None \<Rightarrow> return None
        | Some data \<Rightarrow>
            if data = [] then return (Some off)
            else do {
              ret \<leftarrow> zero_blocks E dst_fd blksize off data;
              if ret \<noteq> 0 then return None
              else zeros_loop E dst_fd src_fd bufsize blksize sz (off + int (length data)) } })"
  by pat_completeness auto
termination
  by (relation "measure (\<lambda>(E, dst_fd, src_fd, bufsize, blksize, sz, off). nat (sz - off))") auto

declare zero_blocks.simps [simp del] zeros_loop.simps [simp del]

definition copy_zeros :: "'w env \<Rightarrow> fd \<Rightarrow> fd \<Rightarrow> int \<Rightarrow> ('w, int) prog" where
  "copy_zeros E dst_fd src_fd sz = do {
     bufsize \<leftarrow> io_bufsize E src_fd;
     st \<leftarrow> sys_stat E (C_fstat dst_fd);
     let blksize = (case st of
         None \<Rightarrow> ZERO_BLOCK
       | Some st \<Rightarrow> if 0 < st_blksize st \<and> st_blksize st \<le> bufsize then st_blksize st else ZERO_BLOCK);
     got \<leftarrow> io_bufalloc E bufsize;
     if \<not> got then return (-1)
     else do {
       r \<leftarrow> zeros_loop E dst_fd src_fd bufsize blksize sz 0;
       case r of
         None \<Rightarrow> return (-1)
       | Some off \<Rightarrow> do {
           trunc \<leftarrow> sys_ok E (C_ftruncate dst_fd off);
           return (if trunc then 0 else -1) } } }"

text \<open>
  \<^verbatim>\<open>spool_open\<close>: \<^verbatim>\<open>mkstemp\<close> writes the name it chose into the path, so its reply holds that name
  with the descriptor.
\<close>

definition spool_path :: "'w env \<Rightarrow> path" where
  "spool_path E =
     (case getenv E ''TMPDIR'' of
        Some d \<Rightarrow> (if d = [] then ''/tmp'' else d)
      | None \<Rightarrow> ''/tmp'') @ ''/newfile.XXXXXX''"

definition spool_open :: "'w env \<Rightarrow> ('w, fd) prog" where
  "spool_open E = do {
     r \<leftarrow> fast_spool E;
     case r of (ret, fd) \<Rightarrow>
       if ret = 0 then return fd
       else if ret \<noteq> 1 then return (-1)
       else do {
         got \<leftarrow> alloc E;
         if \<not> got then return (-1)
         else do {
           old \<leftarrow> pending_hold E;
           r \<leftarrow> sys E (C_mkstemp (spool_path E));
           (if reply_int r \<noteq> -1 then do {
              gone \<leftarrow> sys_ok E (C_unlink (reply_path r));
              e \<leftarrow> get_errno;
              whenM (\<not> gone)
                (error_print E (''warning: cannot remove '' @ quoted (reply_path r) @ '': '' @ strerror E e @ nl)) }
            else return ());
           pending_release E old;
           return (reply_int r) } } }"

text \<open>The descriptor and the size, or nothing.\<close>

definition spool :: "'w env \<Rightarrow> fd \<Rightarrow> ('w, (fd \<times> int) option) prog" where
  "spool E src_fd = do {
     fd \<leftarrow> spool_open E;
     if fd = -1 then return None
     else do {
       ret \<leftarrow> fast_splice E fd src_fd;
       ret \<leftarrow> (if ret = 1 then copy_stream E fd src_fd else return ret);
       st \<leftarrow> (if ret \<noteq> 0 then return None else sys_stat E (C_fstat fd));
       case st of
         None \<Rightarrow> do { _ \<leftarrow> keep_errno (sys E (C_close fd)); return None }
       | Some st \<Rightarrow> return (Some (fd, st_size st)) } }"

definition STDIN_FILENO :: fd where "STDIN_FILENO = 0"

definition tmpl_fail :: "'w env \<Rightarrow> bool \<Rightarrow> fd \<Rightarrow> ('w, tmpl option) prog" where
  "tmpl_fail E owned fd = keep_errno (do {
     whenM (owned \<and> fd \<noteq> -1) (do { _ \<leftarrow> sys E (C_close fd); return () });
     return None })"

text \<open>How a regular file that is not empty is to be copied.\<close>

definition tmpl_regular :: "'w env \<Rightarrow> fd \<Rightarrow> bool \<Rightarrow> stat \<Rightarrow> ('w, tmpl option) prog" where
  "tmpl_regular E fd owned st = do {
     _ \<leftarrow> sys_quiet E (C_fadvise fd);
     unknown \<leftarrow> (if st_blocks st < st_size st div ST_NBLOCKSIZE then hole_unknown E fd else return False);
     if unknown then do {
       tail \<leftarrow> tail_zero E fd (st_size st);
       return (Some \<lparr>tm_size = st_size st, tm_kind = TMPL_ZEROS, tm_fd = fd, tm_own_fd = owned, tm_tail_hole = tail\<rparr>) }
     else do {
       tail \<leftarrow> hole_tail E fd (st_size st);
       return (Some \<lparr>tm_size = st_size st, tm_kind = TMPL_EXTENTS, tm_fd = fd, tm_own_fd = owned, tm_tail_hole = tail\<rparr>) } }"

definition tmpl_open :: "'w env \<Rightarrow> path \<Rightarrow> bool \<Rightarrow> ('w, tmpl option) prog" where
  "tmpl_open E p rpt = do {
     got \<leftarrow> alloc E;
     if \<not> got then return None
     else do {
       opened \<leftarrow> (if p = ''-'' then do {
           pos \<leftarrow> sys_int E (C_lseek STDIN_FILENO 0 SEEK_CUR);
           return (STDIN_FILENO, False, pos = 0) }
         else do {
           fd \<leftarrow> sys_int E (C_open p [O_RDONLY, O_NOCTTY, O_CLOEXEC] 0);
           return (fd, True, True) });
       case opened of (fd, owned, at_start) \<Rightarrow> do {
         st \<leftarrow> (if fd = -1 then return None else sys_stat E (C_fstat fd));
         case st of
           None \<Rightarrow> tmpl_fail E owned fd
         | Some st \<Rightarrow>
             if S_ISDIR (st_mode st) then do { set_errno EISDIR; tmpl_fail E owned fd }
             else if at_start \<and> S_ISREG (st_mode st) \<and> 0 < st_size st then tmpl_regular E fd owned st
             else if rpt then do {
               sp \<leftarrow> spool E fd;
               case sp of
                 None \<Rightarrow> tmpl_fail E owned fd
               | Some (spool_fd, sz) \<Rightarrow> do {
                   whenM owned (do { _ \<leftarrow> sys E (C_close fd); return () });
                   return (Some \<lparr>tm_size = sz, tm_kind = TMPL_EXTENTS, tm_fd = spool_fd, tm_own_fd = True,
                                 tm_tail_hole = False\<rparr>) } }
             else return (Some \<lparr>tm_size = 0, tm_kind = TMPL_STREAM, tm_fd = fd, tm_own_fd = owned, tm_tail_hole = False\<rparr>) } } }"

definition tmpl_apply :: "'w env \<Rightarrow> tmpl \<Rightarrow> fd \<Rightarrow> ('w, int) prog" where
  "tmpl_apply E t dst_fd =
     (case tm_kind t of
        TMPL_EXTENTS \<Rightarrow> copy_extents E dst_fd (tm_fd t) (tm_size t)
      | TMPL_ZEROS \<Rightarrow> copy_zeros E dst_fd (tm_fd t) (tm_size t)
      | TMPL_STREAM \<Rightarrow> copy_stream E dst_fd (tm_fd t))"

definition tmpl_tail_hole :: "tmpl option \<Rightarrow> bool" where
  "tmpl_tail_hole t = (case t of None \<Rightarrow> False | Some t \<Rightarrow> tm_tail_hole t)"

definition tmpl_close :: "'w env \<Rightarrow> tmpl option \<Rightarrow> ('w, unit) prog" where
  "tmpl_close E t =
     (case t of
        None \<Rightarrow> return ()
      | Some t \<Rightarrow>
          if tm_own_fd t then do { _ \<leftarrow> sys E (C_close (tm_fd t)); return () }
          else if tm_kind t \<noteq> TMPL_STREAM then do { _ \<leftarrow> sys E (C_lseek (tm_fd t) (tm_size t) SEEK_SET); return () }
          else return ())"

end
