(* ===== verification/Batch.thy ===== *)
theory Batch
  imports Template Backup
begin

text \<open>
  \<^verbatim>\<open>src/batch.c\<close>: build, flush, name and report the operands, a batch at a time. An operation
  is a record; a function that changes one returns it changed.
\<close>

definition FD_RESERVE :: nat where "FD_RESERVE = 16"

datatype op_way = WAY_PLAIN | WAY_UNNAMED | WAY_TEMP

record op =
  op_path :: path
  tmppath :: "path option"
  op_backup_name :: "path option"
  spare :: "path option"
  fail :: "string option"
  op_err :: errno
  op_fd :: fd
  way :: op_way
  leftover :: bool

definition new_op :: "path \<Rightarrow> op" where
  "new_op p = \<lparr>op_path = p, tmppath = None, op_backup_name = None, spare = None, fail = None, op_err = E0,
     op_fd = -1, way = WAY_PLAIN, leftover = False\<rparr>"

definition op_fail :: "'w env \<Rightarrow> op \<Rightarrow> nat \<Rightarrow> string \<Rightarrow> ('w, op) prog" where
  "op_fail E op slot what = do {
     saved_errno \<leftarrow> get_errno;
     whenM (op_fd op \<noteq> -1) (do { _ \<leftarrow> sys E (C_close (op_fd op)); return () });
     whenM (spare op = None) (do { _ \<leftarrow> pending_remove E slot; return () });
     set_errno saved_errno;
     return (op\<lparr>fail := Some what, op_err := saved_errno, op_fd := -1, tmppath := None\<rparr>) }"

subsection \<open>Building\<close>

definition apply_size :: "'w env \<Rightarrow> fd \<Rightarrow> int \<Rightarrow> bool \<Rightarrow> bool \<Rightarrow> bool \<Rightarrow> ('w, int) prog" where
  "apply_size E fd target sparse tail_hole filled = do {
     st \<leftarrow> (if filled then sys_stat E (C_fstat fd) else return (Some no_stat));
     case st of
       None \<Rightarrow> return (-1)
     | Some st \<Rightarrow> do {
         let sz = (if filled then st_size st else 0);
         if target \<le> sz \<or> sparse \<or> tail_hole then do {
           trunc \<leftarrow> sys_ok E (C_ftruncate fd target);
           return (if trunc then 0 else -1) }
         else io_fill E fd sz (target - sz) } }"

definition fill_one :: "'w env \<Rightarrow> fd \<Rightarrow> file_spec \<Rightarrow> ('w, int) prog" where
  "fill_one E fd spec = do {
     ret \<leftarrow> (case fs_tmpl spec of None \<Rightarrow> return 0 | Some t \<Rightarrow> tmpl_apply E t fd);
     if ret \<noteq> 0 then return 1
     else do {
       ret \<leftarrow> (if size_given spec
         then apply_size E fd (fs_size spec) (sparse_mode spec) (tmpl_tail_hole (fs_tmpl spec)) (fs_tmpl spec \<noteq> None)
         else return 0);
       return (if ret \<noteq> 0 then 2 else 0) } }"

text \<open>The operation, and the mode granted unless it failed.\<close>

definition open_built :: "'w env \<Rightarrow> op \<Rightarrow> nat \<Rightarrow> file_spec \<Rightarrow> ('w, op \<times> mode_t option) prog" where
  "open_built E op slot spec = do {
     let open_mode = (if absolute_given spec then S_IRUSR OR S_IWUSR else fs_mode spec);
     d \<leftarrow> path_dir E (op_path op);
     case d of
       None \<Rightarrow> do { op \<leftarrow> op_fail E op slot ''cannot create''; return (op, None) }
     | Some dir \<Rightarrow> do {
         r \<leftarrow> fast_tmpfile E dir open_mode;
         case r of (ret, fd) \<Rightarrow>
           if ret = 0 then do {
             let op = op\<lparr>op_fd := fd, way := WAY_UNNAMED\<rparr>;
             st \<leftarrow> sys_stat E (C_fstat fd);
             case st of
               Some st \<Rightarrow> return (op, Some (st_mode st))
             | None \<Rightarrow> do { op \<leftarrow> op_fail E op slot ''cannot create''; return (op, None) } }
           else if ret = 1 then do {
             let op = op\<lparr>way := WAY_TEMP\<rparr>;
             q \<leftarrow> (if absolute_given spec then return (0, fs_mode spec)
                   else place_probe_mode E (op_path op) open_mode slot);
             case q of (ret, granted) \<Rightarrow>
               if ret < 0 then do { op \<leftarrow> op_fail E op slot ''cannot create''; return (op, None) }
               else do {
                 let op = (if ret = 1 then op\<lparr>leftover := True\<rparr> else op);
                 t \<leftarrow> place_temp E (op_path op) (S_IRUSR OR S_IWUSR) slot;
                 case t of
                   Some (fd, tmp) \<Rightarrow> return (op\<lparr>op_fd := fd, tmppath := Some tmp\<rparr>, Some granted)
                 | None \<Rightarrow> do { op \<leftarrow> op_fail E op slot ''cannot create''; return (op, None) } } }
           else do { op \<leftarrow> op_fail E op slot ''cannot create''; return (op, None) } } }"

definition final_mode :: "file_spec \<Rightarrow> mode_t \<Rightarrow> mode_t" where
  "final_mode spec granted =
     (if absolute_given spec then fs_mode spec
      else (granted AND (S_IRWXU OR S_IRWXG OR S_IRWXO)) OR (fs_mode spec AND (S_ISUID OR S_ISGID OR S_ISVTX)))"

text \<open>A file that changes its owner gets a temporary name first, at mode 0600.\<close>

definition name_early :: "'w env \<Rightarrow> op \<Rightarrow> nat \<Rightarrow> file_spec \<Rightarrow> ('w, op) prog" where
  "name_early E op slot spec =
     (if way op = WAY_UNNAMED \<and> uid_changes spec then do {
        moded \<leftarrow> sys_ok E (C_fchmod (op_fd op) (S_IRUSR OR S_IWUSR));
        if \<not> moded then op_fail E op slot ''cannot set permissions of''
        else do {
          t \<leftarrow> place_temp_link E (op_fd op) (op_path op) slot;
          case t of
            None \<Rightarrow> op_fail E op slot ''cannot create''
          | Some tmp \<Rightarrow> return (op\<lparr>tmppath := Some tmp, way := WAY_TEMP\<rparr>) } }
      else return op)"

definition own_and_mode :: "'w env \<Rightarrow> op \<Rightarrow> nat \<Rightarrow> file_spec \<Rightarrow> bool \<Rightarrow> mode_t \<Rightarrow> ('w, op) prog" where
  "own_and_mode E op slot spec content mode = do {
     owned \<leftarrow> (if set_owner spec
       then sys_ok E (C_fchown (op_fd op) (if set_uid spec then fs_uid spec else -1) (if set_gid spec then fs_gid spec else -1))
       else return True);
     if \<not> owned then op_fail E op slot ''cannot change ownership of''
     else do {
       moded \<leftarrow> sys_ok E (C_fchmod (op_fd op) mode);
       if \<not> moded then op_fail E op slot ''cannot set permissions of''
       else do {
         whenM content (fast_writeback E (op_fd op));
         return op } } }"

definition finish_built :: "'w env \<Rightarrow> op \<Rightarrow> nat \<Rightarrow> file_spec \<Rightarrow> bool \<Rightarrow> mode_t \<Rightarrow> ('w, op) prog" where
  "finish_built E op slot spec content granted = do {
     op \<leftarrow> name_early E op slot spec;
     if fail op \<noteq> None then return op
     else do {
       ret \<leftarrow> fill_one E (op_fd op) spec;
       if ret \<noteq> 0 then op_fail E op slot (if ret = 1 then ''cannot copy template to'' else ''cannot set size of'')
       else own_and_mode E op slot spec content (final_mode spec granted) } }"

definition has_content :: "file_spec \<Rightarrow> bool" where
  "has_content spec \<longleftrightarrow> fs_tmpl spec \<noteq> None \<or> size_given spec"

definition build_file :: "'w env \<Rightarrow> op \<Rightarrow> nat \<Rightarrow> file_spec \<Rightarrow> ('w, op) prog" where
  "build_file E op slot spec = do {
     let content = has_content spec;
     if \<not> content \<and> \<not> set_owner spec \<and> \<not> absolute_given spec \<and> \<not> force_mode spec then do {
       fd \<leftarrow> place_create E (op_path op) (fs_mode spec) slot;
       case fd of
         None \<Rightarrow> op_fail E op slot ''cannot create''
       | Some fd \<Rightarrow> return (op\<lparr>op_fd := fd\<rparr>) }
     else do {
       exists \<leftarrow> (if content \<and> \<not> force_mode spec then sys_ok E (C_lstat (op_path op)) else return False);
       if exists then do {
         set_errno EEXIST;
         op_fail E op slot ''cannot create'' }
       else do {
         r \<leftarrow> open_built E op slot spec;
         case r of
           (op, None) \<Rightarrow> return op
         | (op, Some granted) \<Rightarrow> finish_built E op slot spec content granted } } }"

definition build_one :: "'w env \<Rightarrow> path \<Rightarrow> nat \<Rightarrow> file_spec \<Rightarrow> ('w, op) prog" where
  "build_one E p slot spec = do {
     let op = new_op p;
     if p = [] \<or> last p = CHR ''/'' then do {
       set_errno (if p = [] then ENOENT else EISDIR);
       op_fail E op slot ''cannot create'' }
     else do {
       parents \<leftarrow> (if parents_mode spec then path_make_parents E p else return 0);
       if parents \<noteq> 0 then op_fail E op slot ''cannot create parent directories for''
       else build_file E op slot spec } }"

fun build_all :: "'w env \<Rightarrow> file_spec \<Rightarrow> nat \<Rightarrow> path list \<Rightarrow> ('w, op list) prog" where
  "build_all E spec i [] = return []"
| "build_all E spec i (p # ps) = do {
     op \<leftarrow> build_one E p i spec;
     ops \<leftarrow> build_all E spec (Suc i) ps;
     return (op # ops) }"

subsection \<open>Flushing\<close>

definition unflushed :: "op list \<Rightarrow> nat list" where
  "unflushed ops = filter (\<lambda>i. fail (ops ! i) = None \<and> op_fd (ops ! i) \<noteq> -1) [0..<length ops]"

text \<open>Fails the operations whose flush failed, and returns the others' indices.\<close>

fun fail_unflushed :: "'w env \<Rightarrow> op list \<Rightarrow> (nat \<times> errno) list \<Rightarrow> nat list \<Rightarrow> ('w, op list \<times> nat list) prog" where
  "fail_unflushed E ops [] kept = return (ops, kept)"
| "fail_unflushed E ops ((i, err) # rest) kept =
     (if err \<noteq> E0 then do {
        set_errno err;
        op \<leftarrow> op_fail E (ops ! i) i ''cannot flush'';
        fail_unflushed E (ops[i := op]) rest kept }
      else fail_unflushed E ops rest (kept @ [i]))"

definition flush_ops :: "'w env \<Rightarrow> op list \<Rightarrow> ('w, op list \<times> nat list) prog" where
  "flush_ops E ops = do {
     let idx = unflushed ops;
     errs \<leftarrow> (if idx \<noteq> [] then flush_fds E (map (\<lambda>i. op_fd (ops ! i)) idx) False else return []);
     fail_unflushed E ops (zip idx errs) [] }"

text \<open>The operation, and whether it was closed.\<close>

definition close_op :: "'w env \<Rightarrow> op \<Rightarrow> nat \<Rightarrow> string \<Rightarrow> ('w, op \<times> bool) prog" where
  "close_op E op slot what = do {
     closed \<leftarrow> sys_ok E (C_close (op_fd op));
     let op = op\<lparr>op_fd := -1\<rparr>;
     if \<not> closed then do {
       op \<leftarrow> op_fail E op slot what;
       return (op, False) }
     else return (op, True) }"

fun close_plain :: "'w env \<Rightarrow> op list \<Rightarrow> nat list \<Rightarrow> ('w, op list) prog" where
  "close_plain E ops [] = return ops"
| "close_plain E ops (i # is) =
     (if way (ops ! i) = WAY_PLAIN then do {
        r \<leftarrow> close_op E (ops ! i) i ''cannot write'';
        close_plain E (ops[i := fst r]) is }
      else close_plain E ops is)"

definition flush_batch :: "'w env \<Rightarrow> op list \<Rightarrow> ('w, op list) prog" where
  "flush_batch E ops = do {
     r \<leftarrow> flush_ops E ops;
     case r of (ops, kept) \<Rightarrow> close_plain E ops kept }"

subsection \<open>Naming\<close>

text \<open>The operation, and whether it still stands.\<close>

definition replace_rename :: "'w env \<Rightarrow> op \<Rightarrow> nat \<Rightarrow> path \<Rightarrow> bool \<Rightarrow> ('w, op \<times> bool) prog" where
  "replace_rename E op slot tmp go = do {
     ret \<leftarrow> (if go then place_rename E tmp (op_path op) slot else return (-1));
     if ret \<noteq> 0 then do {
       _ \<leftarrow> pending_remove E PENDING_BACKUP;
       op \<leftarrow> op_fail E op slot ''cannot replace'';
       return (op, False) }
     else return (op\<lparr>tmppath := None\<rparr>, True) }"

definition replace_backed :: "'w env \<Rightarrow> op \<Rightarrow> nat \<Rightarrow> path \<Rightarrow> path \<Rightarrow> stat \<Rightarrow> ('w, op \<times> bool) prog" where
  "replace_backed E op slot dir tmp old = do {
     held \<leftarrow> gets spare_held;
     whenM (\<not> held) (do {
       m \<leftarrow> pending_hold E;
       modify (spare_mask_update (\<lambda>_. m));
       modify (spare_held_update (\<lambda>_. True)) });
     ret \<leftarrow> place_exchange E tmp (op_path op) slot old;
     if ret = 0 then return (op\<lparr>spare := Some tmp, tmppath := None\<rparr>, True)
     else do {
       whenM (\<not> held) (do {
         modify (spare_held_update (\<lambda>_. False));
         m \<leftarrow> gets spare_mask;
         pending_release E m });
       flushed \<leftarrow> (if ret = 1 then flush_dir E dir else return 0);
       if flushed \<noteq> 0 then do {
         _ \<leftarrow> pending_remove E PENDING_BACKUP;
         op \<leftarrow> op_fail E op slot ''cannot back up'';
         return (op, False) }
       else replace_rename E op slot tmp (0 \<le> ret) } }"

definition replace_one :: "'w env \<Rightarrow> op \<Rightarrow> nat \<Rightarrow> path \<Rightarrow> file_spec \<Rightarrow> ('w, op \<times> bool) prog" where
  "replace_one E op slot dir spec = do {
     let tmp = (case tmppath op of Some t \<Rightarrow> t | None \<Rightarrow> []);
     b \<leftarrow> (if backup_given spec
       then backup_make E (op_path op) (case backup_control spec of Some c \<Rightarrow> c | None \<Rightarrow> [])
       else return (0, None, no_stat));
     case b of (ret, bname, old) \<Rightarrow>
       if ret < 0 then do {
         op \<leftarrow> op_fail E op slot ''cannot back up'';
         return (op, False) }
       else do {
         let op = op\<lparr>op_backup_name := bname, leftover := leftover op \<or> ret = 1\<rparr>;
         if bname \<noteq> None then replace_backed E op slot dir tmp old
         else replace_rename E op slot tmp True } }"

definition name_force :: "'w env \<Rightarrow> op \<Rightarrow> nat \<Rightarrow> path \<Rightarrow> file_spec \<Rightarrow> ('w, op \<times> bool) prog" where
  "name_force E op slot dir spec =
     (if way op = WAY_UNNAMED then do {
        t \<leftarrow> place_temp_link E (op_fd op) (op_path op) slot;
        case t of
          None \<Rightarrow> do { op \<leftarrow> op_fail E op slot ''cannot create''; return (op, False) }
        | Some tmp \<Rightarrow> replace_one E (op\<lparr>tmppath := Some tmp\<rparr>) slot dir spec }
      else replace_one E op slot dir spec)"

definition name_new :: "'w env \<Rightarrow> op \<Rightarrow> nat \<Rightarrow> ('w, op \<times> bool) prog" where
  "name_new E op slot =
     (case way op of
        WAY_UNNAMED \<Rightarrow> do {
          ret \<leftarrow> fast_link E (op_fd op) (op_path op);
          if ret \<noteq> 0 then do { op \<leftarrow> op_fail E op slot ''cannot create''; return (op, False) }
          else return (op, True) }
      | WAY_TEMP \<Rightarrow> do {
          r \<leftarrow> place_commit E (case tmppath op of Some t \<Rightarrow> t | None \<Rightarrow> []) (op_path op) slot;
          case r of (ret, linked) \<Rightarrow>
            if ret \<noteq> 0 then do { op \<leftarrow> op_fail E op slot ''cannot create''; return (op, False) }
            else return (if linked then op else op\<lparr>tmppath := None\<rparr>, True) }
      | WAY_PLAIN \<Rightarrow> return (op, True))"

definition name_one :: "'w env \<Rightarrow> op \<Rightarrow> nat \<Rightarrow> file_spec \<Rightarrow> ('w, op) prog" where
  "name_one E op slot spec =
     (if fail op \<noteq> None then return op
      else do {
        d \<leftarrow> path_dir E (op_path op);
        case d of
          None \<Rightarrow> op_fail E op slot ''cannot create''
        | Some dir \<Rightarrow> do {
            r \<leftarrow> (if force_mode spec then name_force E op slot dir spec else name_new E op slot);
            case r of (op, named) \<Rightarrow>
              if \<not> named then return op
              else do {
                whenM (way op = WAY_PLAIN) (pending_clear slot);
                flush_set_add E dir;
                return op } } })"

fun name_all :: "'w env \<Rightarrow> file_spec \<Rightarrow> nat \<Rightarrow> op list \<Rightarrow> ('w, op list) prog" where
  "name_all E spec i [] = return []"
| "name_all E spec i (op # ops) = do {
     op \<leftarrow> name_one E op i spec;
     ops \<leftarrow> name_all E spec (Suc i) ops;
     return (op # ops) }"

subsection \<open>Settling and reporting\<close>

definition settle_one :: "'w env \<Rightarrow> op \<Rightarrow> nat \<Rightarrow> ('w, op) prog" where
  "settle_one E op slot = do {
     r \<leftarrow> close_op E op slot ''cannot close'';
     case r of (op, closed) \<Rightarrow>
       if \<not> closed \<or> tmppath op = None then return op
       else do {
         ret \<leftarrow> pending_remove E slot;
         return (op\<lparr>leftover := leftover op \<or> ret \<noteq> 0, tmppath := None\<rparr>) } }"

fun settle_each :: "'w env \<Rightarrow> op list \<Rightarrow> nat list \<Rightarrow> ('w, op list) prog" where
  "settle_each E ops [] = return ops"
| "settle_each E ops (i # is) = do {
     op \<leftarrow> settle_one E (ops ! i) i;
     settle_each E (ops[i := op]) is }"

definition settle_batch :: "'w env \<Rightarrow> op list \<Rightarrow> ('w, op list) prog" where
  "settle_batch E ops = do {
     r \<leftarrow> flush_ops E ops;
     case r of (ops, kept) \<Rightarrow> settle_each E ops kept }"

definition dir_unflushed :: "'w env \<Rightarrow> path \<Rightarrow> ('w, bool) prog" where
  "dir_unflushed E p = do {
     d \<leftarrow> path_dir E p;
     case d of None \<Rightarrow> return True | Some dir \<Rightarrow> flush_set_failed E dir }"

definition drop_spare :: "'w env \<Rightarrow> op \<Rightarrow> nat \<Rightarrow> ('w, op) prog" where
  "drop_spare E op i =
     (case spare op of
        None \<Rightarrow> return op
      | Some sp \<Rightarrow> do {
          unfl \<leftarrow> dir_unflushed E (op_path op);
          if unfl then do {
            error_print E (''warning: kept '' @ quoted sp @ '', the old '' @ quoted (op_path op) @ nl);
            pending_clear i;
            return (op\<lparr>spare := None\<rparr>) }
          else do {
            ret \<leftarrow> pending_remove E i;
            return (op\<lparr>leftover := leftover op \<or> ret \<noteq> 0, spare := None\<rparr>) } })"

fun drop_each :: "'w env \<Rightarrow> nat \<Rightarrow> op list \<Rightarrow> ('w, op list) prog" where
  "drop_each E i [] = return []"
| "drop_each E i (op # ops) = do {
     op \<leftarrow> drop_spare E op i;
     ops \<leftarrow> drop_each E (Suc i) ops;
     return (op # ops) }"

definition drop_spares :: "'w env \<Rightarrow> op list \<Rightarrow> ('w, op list) prog" where
  "drop_spares E ops = do {
     ops \<leftarrow> drop_each E 0 ops;
     held \<leftarrow> gets spare_held;
     whenM held (do {
       modify (spare_held_update (\<lambda>_. False));
       m \<leftarrow> gets spare_mask;
       pending_release E m });
     return ops }"

definition report_one :: "'w env \<Rightarrow> op \<Rightarrow> file_spec \<Rightarrow> ('w, bool) prog" where
  "report_one E op spec = do {
     (case fail op of
        Some what \<Rightarrow> error_print E (what @ '' '' @ quoted (op_path op) @ '': '' @ strerror E (op_err op) @ nl)
      | None \<Rightarrow>
          whenM (verbose spec)
            (put_stdout (''created '' @ quoted (op_path op) @
               (case op_backup_name op of Some b \<Rightarrow> '' (backup: '' @ quoted b @ '')'' | None \<Rightarrow> []) @ nl)));
     return (fail op = None \<and> \<not> leftover op) }"

fun report_all :: "'w env \<Rightarrow> file_spec \<Rightarrow> op list \<Rightarrow> ('w, bool) prog" where
  "report_all E spec [] = return True"
| "report_all E spec (op # ops) = do {
     good \<leftarrow> report_one E op spec;
     rest \<leftarrow> report_all E spec ops;
     return (good \<and> rest) }"

subsection \<open>The batches\<close>

definition batch_size :: "'w env \<Rightarrow> ('w, nat) prog" where
  "batch_size E = do {
     r \<leftarrow> sys E (C_getrlimit RLIMIT_NOFILE);
     let cur = reply_int r;
     return (if failed r \<or> cur < 0 \<or> int (2 * NEWFILE_BATCH + FD_RESERVE) \<le> cur then NEWFILE_BATCH
       else (let room = (if int FD_RESERVE < cur then (cur - int FD_RESERVE) div 2 else 0)
             in if 0 < room then nat room else 1)) }"

text \<open>The steps of a batch in the order of the code; the operations come back for the report.\<close>

definition run_batch :: "'w env \<Rightarrow> file_spec \<Rightarrow> path list \<Rightarrow> ('w, op list) prog" where
  "run_batch E spec ps = do {
     flush_set_forget;
     place_probe_reset;
     ops \<leftarrow> build_all E spec 0 ps;
     ops \<leftarrow> flush_batch E ops;
     backup_cache_reset;
     ops \<leftarrow> name_all E spec 0 ops;
     ops \<leftarrow> settle_batch E ops;
     flush_set_run E;
     drop_spares E ops }"

function batch_loop :: "'w env \<Rightarrow> file_spec \<Rightarrow> nat \<Rightarrow> path list \<Rightarrow> bool \<Rightarrow> ('w, bool) prog" where
  "batch_loop E spec batch ps ok =
     (if ps = [] \<or> batch = 0 then return ok
      else do {
        ops \<leftarrow> run_batch E spec (take batch ps);
        good \<leftarrow> report_all E spec ops;
        batch_loop E spec batch (drop batch ps) (ok \<and> good) })"
  by pat_completeness auto
termination
  by (relation "measure (\<lambda>(E, spec, batch, ps, ok). length ps)") auto

declare batch_loop.simps [simp del]

definition batch_run :: "'w env \<Rightarrow> path list \<Rightarrow> file_spec \<Rightarrow> ('w, bool) prog" where
  "batch_run E ps spec = do {
     batch \<leftarrow> batch_size E;
     flush_set_init batch;
     got \<leftarrow> alloc E;
     e \<leftarrow> get_errno;
     if \<not> got then do { error_exit E (strerror E e @ nl); return False }
     else do {
       ok \<leftarrow> batch_loop E spec batch ps True;
       flush_stop E;
       flush_set_forget;
       place_probe_reset;
       backup_cache_reset;
       nfailed \<leftarrow> flush_set_failures;
       return (ok \<and> nfailed = 0) } }"

end
