(* ===== verification/Main_Prog.thy ===== *)
theory Main_Prog
  imports Batch
begin

text \<open>\<^verbatim>\<open>src/main.c\<close>: from the argument vector to the exit status.\<close>

fun reserve_fds :: "'w env \<Rightarrow> fd list \<Rightarrow> ('w, unit) prog" where
  "reserve_fds E [] = return ()"
| "reserve_fds E (fd # fds) = do {
     r \<leftarrow> sys E (C_fcntl_getfd fd);
     (case r of
        R_fail EBADF \<Rightarrow> do {
          nfd \<leftarrow> sys_int E (C_open ''/dev/null'' [O_RDONLY] 0);
          if nfd = -1 then exit EXIT_FAILURE
          else if nfd \<noteq> fd then do {
            dup \<leftarrow> sys_int E (C_dup2 nfd fd);
            if dup = -1 then exit EXIT_FAILURE
            else do { _ \<leftarrow> sys E (C_close nfd); return () } }
          else return () }
      | _ \<Rightarrow> return ());
     reserve_fds E fds }"

definition reserve_std_fds :: "'w env \<Rightarrow> ('w, unit) prog" where
  "reserve_std_fds E = reserve_fds E [1, 2]"

definition program_base :: "string list \<Rightarrow> string" where
  "program_base argv =
     (case argv of
        (c # cs) # _ \<Rightarrow>
          (case strrchr (c # cs) (CHR ''/'') of Some k \<Rightarrow> drop (k + 1) (c # cs) | None \<Rightarrow> c # cs)
      | _ \<Rightarrow> ''newfile'')"

definition open_template :: "'w env \<Rightarrow> file_spec \<Rightarrow> bool \<Rightarrow> ('w, tmpl option) prog" where
  "open_template E spec rpt =
     (case template_file spec of
        None \<Rightarrow> return None
      | Some f \<Rightarrow> do {
          t \<leftarrow> tmpl_open E f rpt;
          e \<leftarrow> get_errno;
          whenM (t = None) (error_exit E (''cannot read template '' @ quoted f @ '': '' @ strerror E e @ nl));
          return t })"

text \<open>What is left to do once the command line is parsed: the exit status.\<close>

definition main_files :: "'w env \<Rightarrow> parsed \<Rightarrow> ('w, int) prog" where
  "main_files E p = do {
     pending_install E;
     let spec = pa_spec p;
     let ps = drop (pa_first p) (pa_argv p);
     t \<leftarrow> open_template E spec (1 < length ps);
     ok \<leftarrow> batch_run E ps (spec\<lparr>fs_tmpl := t\<rparr>);
     tmpl_close E t;
     closed \<leftarrow> error_close_std E;
     return (if ok \<and> closed then EXIT_SUCCESS else EXIT_FAILURE) }"

definition main_prog :: "'w env \<Rightarrow> spec_sys \<Rightarrow> string list \<Rightarrow> ('w, int) prog" where
  "main_prog Env sy argv = do {
     let E = Env\<lparr>program_name := program_base argv\<rparr>;
     reserve_std_fds E;
     case spec_parse (sy\<lparr>sy_program_name := program_base argv\<rparr>) argv of
       Inl stop \<Rightarrow> do {
         put_stdout (to_stdout stop);
         put_stderr (to_stderr stop);
         exit (exit_status stop);
         return (exit_status stop) }
     | Inr p \<Rightarrow> do {
         put_stderr (pa_stderr p);
         main_files E p } }"

end
