(* ===== verification/Keeps.thy ===== *)
theory Keeps
  imports Sys
begin

text \<open>
  Reasoning about programs: the weakest precondition of a program, and the invariants of the state
  that a program keeps, with a rule for each way to build a program. The rules that close the proofs
  of the components are collected in \<open>keeps_rules\<close>.
\<close>

named_theorems keeps_rules

subsection \<open>What a program does\<close>

definition wp :: "('s, 'a) state \<Rightarrow> ('a \<Rightarrow> 's \<Rightarrow> bool) \<Rightarrow> 's \<Rightarrow> bool" where
  "wp m Q s \<longleftrightarrow> (case run_state m s of (x, s') \<Rightarrow> Q x s')"

lemma wp_return [simp]: "wp (State_Monad.return x) Q = Q x"
  by (simp add: wp_def fun_eq_iff)

lemma wp_bind [simp]: "wp (State_Monad.bind m f) Q = wp m (\<lambda>x. wp (f x) Q)"
  by (simp add: wp_def fun_eq_iff split: prod.splits)

lemma wp_gets [simp]: "wp (gets f) Q = (\<lambda>s. Q (f s) s)"
  by (simp add: wp_def gets_def fun_eq_iff)

lemma wp_modify [simp]: "wp (modify f) Q = (\<lambda>s. Q () (f s))"
  by (simp add: wp_def modify_def fun_eq_iff)

lemma wp_get_errno [simp]: "wp get_errno Q = (\<lambda>s. Q (errno s) s)"
  by (simp add: get_errno_def)

lemma wp_set_errno [simp]: "wp (set_errno e) Q = (\<lambda>s. Q () (s\<lparr>errno := e\<rparr>))"
  by (simp add: set_errno_def)

lemma wp_whenM [simp]: "wp (whenM b m) Q = (if b then wp m Q else Q ())"
  by (simp add: whenM_def)

lemma wp_if [simp]: "wp (if b then m else n) Q = (if b then wp m Q else wp n Q)"
  by simp

lemma wp_case_option [simp]: "wp (case x of None \<Rightarrow> m | Some y \<Rightarrow> f y) Q = (case x of None \<Rightarrow> wp m Q | Some y \<Rightarrow> wp (f y) Q)"
  by (cases x) simp_all

lemma wp_case_prod [simp]: "wp (case x of (a, b) \<Rightarrow> f a b) Q = (case x of (a, b) \<Rightarrow> wp (f a b) Q)"
  by (cases x) simp

lemma wp_conj: "wp m P s \<Longrightarrow> wp m Q s \<Longrightarrow> wp m (\<lambda>x t. P x t \<and> Q x t) s"
  by (auto simp: wp_def split: prod.splits)

lemma wp_mono: "wp m Q s \<Longrightarrow> (\<And>x t. Q x t \<Longrightarrow> R x t) \<Longrightarrow> wp m R s"
  by (auto simp: wp_def split: prod.splits)

lemma wp_run: "wp m Q s \<Longrightarrow> run_state m s = (x, t) \<Longrightarrow> Q x t"
  by (simp add: wp_def)

text \<open>The state after a call that was made.\<close>

definition called :: "'w env \<Rightarrow> call \<Rightarrow> 'w pst \<Rightarrow> 'w pst" where
  "called E c s =
     (case kern E c (world s) of (r, w) \<Rightarrow>
        s\<lparr>world := w,
          trace := \<lparr>ev_call = c, ev_reply = r, ev_mask = mask s, ev_pending = pending s\<rparr> # trace s,
          errno := (case r of R_fail e \<Rightarrow> e | _ \<Rightarrow> errno s)\<rparr>)"

lemma wp_sys:
  "wp (sys E c) Q =
     (\<lambda>s. if run_status s \<noteq> Running then Q (R_fail E0) s
      else Q (fst (kern E c (world s))) (called E c s))"
  by (auto simp add: wp_def sys_def called_def fun_eq_iff split: prod.splits)

lemma wp_sys_int: "wp (sys_int E c) Q = wp (sys E c) (\<lambda>r. Q (reply_int r))"
  by (simp add: sys_int_def)

lemma wp_sys_ok: "wp (sys_ok E c) Q = wp (sys E c) (\<lambda>r. Q (\<not> failed r))"
  by (simp add: sys_ok_def)

lemma wp_sys_stat: "wp (sys_stat E c) Q = wp (sys E c) (\<lambda>r. Q (reply_stat r))"
  by (simp add: sys_stat_def)

lemma wp_sys_bytes: "wp (sys_bytes E c) Q = wp (sys E c) (\<lambda>r. Q (reply_bytes r))"
  by (simp add: sys_bytes_def)

lemma wp_keep_errno: "wp (keep_errno m) Q = (\<lambda>s. wp m (\<lambda>x t. Q x (t\<lparr>errno := errno s\<rparr>)) s)"
  by (simp add: keep_errno_def)

lemmas wp_calls = wp_sys wp_sys_int wp_sys_ok wp_sys_stat wp_sys_bytes wp_keep_errno

lemma reply_stat_Some: "reply_stat r = Some st \<longleftrightarrow> r = R_stat st"
  by (cases r) simp_all

lemma called_fields [simp]:
  "trace (called E c s) =
     \<lparr>ev_call = c, ev_reply = fst (kern E c (world s)), ev_mask = mask s, ev_pending = pending s\<rparr> # trace s"
  "run_status (called E c s) = run_status s" "mask (called E c s) = mask s" "pending (called E c s) = pending s"
  "errno (called E c s) = (case fst (kern E c (world s)) of R_fail e \<Rightarrow> e | _ \<Rightarrow> errno s)"
  "world (called E c s) = snd (kern E c (world s))"
  "dirs (called E c s) = dirs s" "dirs_max (called E c s) = dirs_max s" "dirs_nfailed (called E c s) = dirs_nfailed s"
  "failures (called E c s) = failures s" "failures_lost (called E c s) = failures_lost s"
  "probes (called E c s) = probes s" "backups (called E c s) = backups s" "nworkers (called E c s) = nworkers s"
  "grow_failed (called E c s) = grow_failed s" "cpus (called E c s) = cpus s"
  "spare_held (called E c s) = spare_held s" "spare_mask (called E c s) = spare_mask s"
  "out_stderr (called E c s) = out_stderr s" "out_stdout (called E c s) = out_stdout s"
  by (simp_all add: called_def split: prod.splits)

subsection \<open>What a program keeps\<close>

definition keeps :: "('s \<Rightarrow> bool) \<Rightarrow> ('s, 'a) state \<Rightarrow> bool" where
  "keeps I m \<longleftrightarrow> (\<forall>s. I s \<longrightarrow> I (snd (run_state m s)))"

lemma keeps_wp: "keeps I m \<longleftrightarrow> (\<forall>s. I s \<longrightarrow> wp m (\<lambda>_. I) s)"
  unfolding keeps_def wp_def by (auto split: prod.splits) (metis prod.collapse)

lemma keeps_wpI: "(\<And>s. I s \<Longrightarrow> wp m (\<lambda>_. I) s) \<Longrightarrow> keeps I m"
  by (simp add: keeps_wp)

lemma wp_bindI: "wp m R s \<Longrightarrow> (\<And>x t. R x t \<Longrightarrow> wp (f x) Q t) \<Longrightarrow> wp (State_Monad.bind m f) Q s"
  by (auto intro: wp_mono)

lemma keeps_wpD: "keeps I m \<Longrightarrow> I s \<Longrightarrow> wp m (\<lambda>_. I) s"
  by (simp add: keeps_wp)

text \<open>The same with one invariant before and another after.\<close>

definition hoare :: "('s \<Rightarrow> bool) \<Rightarrow> ('s, 'a) state \<Rightarrow> ('s \<Rightarrow> bool) \<Rightarrow> bool" where
  "hoare I m J \<longleftrightarrow> (\<forall>s. I s \<longrightarrow> wp m (\<lambda>_. J) s)"

lemma keeps_hoare: "keeps I m \<longleftrightarrow> hoare I m I"
  by (simp add: keeps_wp hoare_def)

lemma hoare_bind: "hoare I m J \<Longrightarrow> (\<And>x. hoare J (f x) K) \<Longrightarrow> hoare I (State_Monad.bind m f) K"
  unfolding hoare_def using wp_bindI by metis

lemma hoare_keeps_bind: "keeps I m \<Longrightarrow> (\<And>x. hoare I (f x) K) \<Longrightarrow> hoare I (State_Monad.bind m f) K"
  by (auto simp: keeps_hoare intro: hoare_bind)

lemma hoare_bind_keeps: "hoare I m J \<Longrightarrow> (\<And>x. keeps J (f x)) \<Longrightarrow> hoare I (State_Monad.bind m f) J"
  by (auto simp: keeps_hoare intro: hoare_bind)

lemma hoare_if: "(b \<Longrightarrow> hoare I m J) \<Longrightarrow> (\<not> b \<Longrightarrow> hoare I n J) \<Longrightarrow> hoare I (if b then m else n) J"
  by simp

lemma hoare_weaken: "keeps J m \<Longrightarrow> (\<And>s. I s \<Longrightarrow> J s) \<Longrightarrow> hoare I m J"
  by (simp add: keeps_hoare hoare_def)

lemma keepsD: "keeps I m \<Longrightarrow> I s \<Longrightarrow> run_state m s = (x, t) \<Longrightarrow> I t"
  by (metis keeps_def snd_conv)

lemma keeps_return [keeps_rules]: "keeps I (State_Monad.return x)"
  by (simp add: keeps_def)

lemma keeps_bind [keeps_rules]: "keeps I m \<Longrightarrow> (\<And>x. keeps I (f x)) \<Longrightarrow> keeps I (State_Monad.bind m f)"
  by (simp add: keeps_def split: prod.splits) (metis snd_conv)

lemma keeps_gets [keeps_rules]: "keeps I (gets f)"
  by (simp add: keeps_def gets_def)

lemma keeps_modify: "(\<And>s. I s \<Longrightarrow> I (f s)) \<Longrightarrow> keeps I (modify f)"
  by (simp add: keeps_def modify_def)

lemma keeps_get_errno [keeps_rules]: "keeps I get_errno"
  by (simp add: get_errno_def keeps_gets)

lemma keeps_if [keeps_rules]: "(b \<Longrightarrow> keeps I m) \<Longrightarrow> (\<not> b \<Longrightarrow> keeps I n) \<Longrightarrow> keeps I (if b then m else n)"
  by simp

lemma keeps_whenM [keeps_rules]: "(b \<Longrightarrow> keeps I m) \<Longrightarrow> keeps I (whenM b m)"
  by (simp add: whenM_def keeps_return)

lemma keeps_case_option [keeps_rules]:
  "(x = None \<Longrightarrow> keeps I m) \<Longrightarrow> (\<And>y. x = Some y \<Longrightarrow> keeps I (f y)) \<Longrightarrow>
     keeps I (case x of None \<Rightarrow> m | Some y \<Rightarrow> f y)"
  by (cases x) simp_all

lemma keeps_case_prod [keeps_rules]:
  "(\<And>a b. x = (a, b) \<Longrightarrow> keeps I (f a b)) \<Longrightarrow> keeps I (case x of (a, b) \<Rightarrow> f a b)"
  by (cases x) simp

lemma keeps_case_sum [keeps_rules]:
  "(\<And>y. x = Inl y \<Longrightarrow> keeps I (f y)) \<Longrightarrow> (\<And>y. x = Inr y \<Longrightarrow> keeps I (g y)) \<Longrightarrow>
     keeps I (case x of Inl y \<Rightarrow> f y | Inr y \<Rightarrow> g y)"
  by (cases x) simp_all

lemma keeps_Let [keeps_rules]: "(\<And>y. y = x \<Longrightarrow> keeps I (f y)) \<Longrightarrow> keeps I (let y = x in f y)"
  by simp

lemma keeps_conj: "keeps I m \<Longrightarrow> keeps J m \<Longrightarrow> keeps (\<lambda>s. I s \<and> J s) m"
  by (auto simp: keeps_def)

lemma keeps_case_reply [keeps_rules]:
  "(\<And>e. r = R_fail e \<Longrightarrow> keeps I (f1 e)) \<Longrightarrow> (\<And>n. r = R_int n \<Longrightarrow> keeps I (f2 n)) \<Longrightarrow>
   (\<And>st. r = R_stat st \<Longrightarrow> keeps I (f3 st)) \<Longrightarrow> (\<And>b. r = R_bytes b \<Longrightarrow> keeps I (f4 b)) \<Longrightarrow>
   (\<And>n p. r = R_named n p \<Longrightarrow> keeps I (f5 n p)) \<Longrightarrow>
   keeps I (case r of R_fail e \<Rightarrow> f1 e | R_int n \<Rightarrow> f2 n | R_stat st \<Rightarrow> f3 st | R_bytes b \<Rightarrow> f4 b | R_named n p \<Rightarrow> f5 n p)"
  by (cases r) simp_all

end
