(* ===== verification/Kept.thy ===== *)
theory Kept
  imports Main_Prog Keeps
begin

text \<open>
  What an invariant of the state has to survive for the whole program to keep it. The locales name
  the steps that an invariant must be shown to survive one by one; the rest of the program then
  keeps it, by one proof for all invariants.
\<close>

text \<open>The calls that make, replace or remove a name, and those that change a file's data or attributes.\<close>

fun naming_call :: "call \<Rightarrow> bool" where
  "naming_call (C_unlink p) = True"
| "naming_call (C_rename a b) = True"
| "naming_call (C_renameat2 a b f) = True"
| "naming_call (C_open p fl m) = (O_CREAT \<in> set fl)"
| "naming_call (C_mkstemp p) = True"
| "naming_call (C_link a b) = True"
| "naming_call (C_linkat a b) = True"
| "naming_call _ = False"

fun data_call :: "call \<Rightarrow> bool" where
  "data_call (C_fchmod fd m) = True"
| "data_call (C_fchown fd u g) = True"
| "data_call (C_ftruncate fd n) = True"
| "data_call (C_fallocate fd off len) = True"
| "data_call (C_write fd b) = True"
| "data_call (C_pwrite fd b off) = True"
| "data_call (C_copy_file_range s so d do' len) = True"
| "data_call (C_sendfile d s off len) = True"
| "data_call (C_splice s d) = True"
| "data_call _ = False"

definition plain_call :: "call \<Rightarrow> bool" where
  "plain_call c \<longleftrightarrow> \<not> naming_call c \<and> \<not> data_call c"

subsection \<open>What the results look like\<close>

lemma wp_any: "(\<And>x t. Q x t) \<Longrightarrow> wp m Q s"
  by (simp add: wp_def split: prod.split)

lemma wp_bind_any: "(\<And>x t. wp (f x) Q t) \<Longrightarrow> wp (State_Monad.bind m f) Q s"
  unfolding wp_bind by (rule wp_any)

lemma keeps_bind_res:
  assumes "keeps I m" "\<And>s. wp m (\<lambda>x _. R x) s" "\<And>x. R x \<Longrightarrow> keeps I (f x)"
  shows "keeps I (State_Monad.bind m f)"
proof (rule keeps_wpI)
  fix s
  assume "I s"
  then have "wp m (\<lambda>x t. R x \<and> I t) s" using wp_conj[OF assms(2) keeps_wpD[OF assms(1)]] by simp
  then show "wp (State_Monad.bind m f) (\<lambda>_. I) s"
    unfolding wp_bind by (rule wp_mono) (use assms(3) in \<open>auto intro: keeps_wpD\<close>)
qed

text \<open>There is an operation for each operand, and its place is its slot.\<close>

lemma build_all_length: "wp (build_all E spec i ps) (\<lambda>ops _. length ops = length ps) s"
proof (induction ps arbitrary: i s)
  case (Cons p ps)
  show ?case
    unfolding build_all.simps by (rule wp_bind_any) (simp only: wp_bind, rule wp_mono[OF Cons.IH], simp)
qed simp

lemma name_all_length: "wp (name_all E spec i ops) (\<lambda>ops' _. length ops' = length ops) s"
proof (induction ops arbitrary: i s)
  case (Cons op ops)
  show ?case
    unfolding name_all.simps by (rule wp_bind_any) (simp only: wp_bind, rule wp_mono[OF Cons.IH], simp)
qed simp

lemma fail_unflushed_res:
  "wp (fail_unflushed E ops xs kept) (\<lambda>r _. length (fst r) = length ops \<and> set (snd r) \<subseteq> set kept \<union> fst ` set xs) s"
proof (induction E ops xs kept arbitrary: s rule: fail_unflushed.induct)
  case (2 E ops i err rest kept)
  show ?case
  proof (cases "err \<noteq> E0")
    case True
    then show ?thesis
      unfolding fail_unflushed.simps if_P[OF True]
      by (intro wp_bind_any) (rule wp_mono[OF 2(1)[OF True]], auto)
  next
    case False
    then show ?thesis using 2(2) by (auto elim!: wp_mono)
  qed
qed simp

lemma unflushed_less: "i \<in> set (unflushed ops) \<Longrightarrow> i < length ops"
  by (simp add: unflushed_def)

lemma unflushed_length: "length (unflushed ops) \<le> length ops"
  unfolding unflushed_def by (rule order_trans[OF length_filter_le]) simp

lemma flush_ops_res:
  "wp (flush_ops E ops) (\<lambda>r _. length (fst r) = length ops \<and> (\<forall>i \<in> set (snd r). i < length ops)) s"
  unfolding flush_ops_def Let_def wp_bind
  by (intro wp_any wp_mono[OF fail_unflushed_res]) (force dest: set_zip_leftD unflushed_less)

lemma close_plain_length: "wp (close_plain E ops is) (\<lambda>ops' _. length ops' = length ops) s"
proof (induction "is" arbitrary: ops s)
  case (Cons i "is")
  have "wp (close_plain E (ops[i := x]) is) (\<lambda>ops' _. length ops' = length ops) t" for x t
    using Cons.IH[of "ops[i := x]" t] by simp
  then show ?case
    unfolding close_plain.simps using Cons.IH[of ops]
    by (cases "way (ops ! i) = WAY_PLAIN") (simp_all only: if_True if_False simp_thms wp_bind_any)
qed simp

lemma settle_each_length: "wp (settle_each E ops is) (\<lambda>ops' _. length ops' = length ops) s"
proof (induction "is" arbitrary: ops s)
  case (Cons i "is")
  have "wp (settle_each E (ops[i := x]) is) (\<lambda>ops' _. length ops' = length ops) t" for x t
    using Cons.IH[of "ops[i := x]" t] by simp
  then show ?case unfolding settle_each.simps by (rule wp_bind_any)
qed simp

lemma flush_batch_length: "wp (flush_batch E ops) (\<lambda>ops' _. length ops' = length ops) s"
  unfolding flush_batch_def wp_bind
  by (rule wp_mono[OF flush_ops_res]) (auto intro: wp_mono[OF close_plain_length])

lemma settle_batch_length: "wp (settle_batch E ops) (\<lambda>ops' _. length ops' = length ops) s"
  unfolding settle_batch_def wp_bind
  by (rule wp_mono[OF flush_ops_res]) (auto intro: wp_mono[OF settle_each_length])

lemma flush_want_le: "wp (flush_want E n) (\<lambda>m _. m \<le> n) s"
  unfolding flush_want_def Let_def by (rule wp_bind_any)+ simp

lemma batch_size_range: "wp (batch_size E) (\<lambda>n _. 1 \<le> n \<and> n \<le> NEWFILE_BATCH) s"
  unfolding batch_size_def by (rule wp_bind_any) (auto simp: Let_def NEWFILE_BATCH_def FD_RESERVE_def)

lemmas slot_bounds = NEWFILE_BATCH_def PENDING_SLOTS_def PENDING_BACKUP_def

lemma backup_slot [keeps_rules]: "PENDING_BACKUP < PENDING_SLOTS"
  by (simp add: slot_bounds)

subsection \<open>Calls and variables\<close>

locale kept_sys =
  fixes I :: "'w pst \<Rightarrow> bool" and E :: "'w env"
  assumes k_sys: "\<not> naming_call c \<Longrightarrow> \<not> data_call c \<Longrightarrow> keeps I (sys E c)"
    and k_errno: "keeps I (modify (errno_update f))"
    and k_mask: "keeps I (modify (mask_update g))"
    and k_stdout: "keeps I (put_stdout t)"
    and k_stderr: "keeps I (put_stderr t)"
    and k_counter: "keeps I (modify (counter_update h))"
    and k_proc_usable: "keeps I (modify (proc_usable_update j))"
    and k_size_limit: "keeps I (modify (size_limit_update l))"
    and k_cpus: "keeps I (modify (cpus_update j))"
    and k_spare_mask: "keeps I (modify (spare_mask_update g))"
    and k_spare_held: "keeps I (modify (spare_held_update b))"
    and k_fuel: "keeps I out_of_fuel"
    and k_exit: "keeps I (exit n)"
begin

lemmas k_basic [keeps_rules] = k_errno k_mask k_stdout k_stderr k_counter k_proc_usable k_size_limit k_cpus
  k_spare_mask k_spare_held k_fuel k_exit

lemma k_set_errno [keeps_rules]: "keeps I (set_errno e)"
  by (simp add: set_errno_def k_errno)

lemma k_sys_int [keeps_rules]: "keeps I (sys E c) \<Longrightarrow> keeps I (sys_int E c)"
  unfolding sys_int_def by (intro keeps_rules)

lemma k_sys_ok [keeps_rules]: "keeps I (sys E c) \<Longrightarrow> keeps I (sys_ok E c)"
  unfolding sys_ok_def by (intro keeps_rules)

lemma k_sys_stat [keeps_rules]: "keeps I (sys E c) \<Longrightarrow> keeps I (sys_stat E c)"
  unfolding sys_stat_def by (intro keeps_rules)

lemma k_sys_bytes [keeps_rules]: "keeps I (sys E c) \<Longrightarrow> keeps I (sys_bytes E c)"
  unfolding sys_bytes_def by (intro keeps_rules)

lemma k_sys_quiet [keeps_rules]: "keeps I (sys E c) \<Longrightarrow> keeps I (sys_quiet E c)"
  unfolding sys_quiet_def by (intro keeps_rules)

declare k_sys [keeps_rules]

lemma k_alloc [keeps_rules]: "keeps I (alloc E)"
  unfolding alloc_def by (intro keeps_rules; simp)

lemma k_keep_errno [keeps_rules]: "keeps I m \<Longrightarrow> keeps I (keep_errno m)"
  unfolding keep_errno_def by (intro keeps_rules)

lemma k_error_print [keeps_rules]: "keeps I (error_print E' msg)"
  unfolding error_print_def by (intro keeps_rules)

lemma k_error_exit [keeps_rules]: "keeps I (error_exit E' msg)"
  unfolding error_exit_def by (intro keeps_rules)

lemma k_hold [keeps_rules]: "keeps I (pending_hold E)"
  unfolding pending_hold_def by (intro keeps_rules; simp)

lemma k_release [keeps_rules]: "keeps I (pending_release E m)"
  unfolding pending_release_def by (intro keeps_rules; simp)

lemma k_sync_loop [keeps_rules]: "keeps I (sync_loop E n fd dir)"
  by (induction n) (simp only: sync_loop.simps, (intro keeps_rules; simp))+

lemma k_sync_one [keeps_rules]: "keeps I (sync_one E fd dir)"
  unfolding sync_one_def by (intro keeps_rules)

lemma k_sync_each [keeps_rules]: "keeps I (sync_each E fds dir)"
  by (induction fds) (simp only: sync_each.simps, (intro keeps_rules; simp))+

lemma k_take_jobs [keeps_rules]: "keeps I (take_jobs E fds dir is errs)"
  by (induction "is" arbitrary: errs) (simp only: take_jobs.simps, (intro keeps_rules; simp))+

lemma k_flush_want [keeps_rules]: "keeps I (flush_want E n)"
  unfolding flush_want_def by (intro keeps_rules; simp)

lemma k_flush_order [keeps_rules]: "keeps I (flush_order E n)"
  unfolding flush_order_def by (intro keeps_rules; simp)

lemma k_path_dir [keeps_rules]: "keeps I (path_dir E p)"
  unfolding path_dir_def by (intro keeps_rules; simp)

lemma k_ensure_directory [keeps_rules]: "keeps I (ensure_directory E p)"
  unfolding ensure_directory_def by (intro keeps_rules; simp)

lemma k_open_dir [keeps_rules]: "keeps I (open_dir E d)"
  unfolding open_dir_def by (intro keeps_rules; simp)

lemma k_fast_size_limit [keeps_rules]: "keeps I (fast_size_limit E)"
  unfolding fast_size_limit_def by (intro keeps_rules; simp)

lemma k_fast_tmpfile [keeps_rules]: "keeps I (fast_tmpfile E d m)"
  unfolding fast_tmpfile_def by (intro keeps_rules; simp)

lemma k_temp_fill [keeps_rules]: "keeps I (temp_fill E)"
  unfolding temp_fill_def by (intro keeps_rules; simp)

lemma k_digits_inc [keeps_rules]: "keeps I (digits_inc E d)"
  unfolding digits_inc_def by (intro keeps_rules; simp)

lemma k_backup_name [keeps_rules]: "keeps I (backup_name E p d)"
  unfolding backup_name_def by (intro keeps_rules; simp)

lemma k_first_backup_exists [keeps_rules]: "keeps I (first_backup_exists E p)"
  unfolding first_backup_exists_def by (intro keeps_rules; simp)

lemma k_list_loop [keeps_rules]: "keeps I (list_loop E n dp cap es)"
  by (induction n arbitrary: cap es) (simp only: list_loop.simps, (intro keeps_rules; simp))+

lemma k_backup_dir_list [keeps_rules]: "keeps I (backup_dir_list E d)"
  unfolding backup_dir_list_def by (intro keeps_rules; simp)

lemma k_failed_loop [keeps_rules]: "keeps I (failed_loop E d fs st)"
  by (induction fs arbitrary: st) (simp only: failed_loop.simps, (intro keeps_rules; simp))+

lemma k_flush_set_failed [keeps_rules]: "keeps I (flush_set_failed E d)"
  unfolding flush_set_failed_def by (intro keeps_rules; simp)

lemma k_dir_unflushed [keeps_rules]: "keeps I (dir_unflushed E d)"
  unfolding dir_unflushed_def by (intro keeps_rules; simp)

lemma k_flush_set_failures [keeps_rules]: "keeps I flush_set_failures"
  unfolding flush_set_failures_def by (intro keeps_rules)

lemma k_io_bufsize [keeps_rules]: "keeps I (io_bufsize E fd)"
  unfolding io_bufsize_def by (intro keeps_rules; simp)

lemma k_io_bufalloc [keeps_rules]: "keeps I (io_bufalloc E n)"
  unfolding io_bufalloc_def by (intro keeps_rules; simp)

lemma k_seek_data [keeps_rules]: "keeps I (seek_data E fd n)"
  unfolding seek_data_def by (intro keeps_rules; simp)

lemma k_hole_next_data [keeps_rules]: "keeps I (hole_next_data E fd n m)"
  unfolding hole_next_data_def by (intro keeps_rules; simp)

lemma k_hole_tail [keeps_rules]: "keeps I (hole_tail E fd n)"
  unfolding hole_tail_def by (intro keeps_rules; simp)

lemma k_hole_unknown [keeps_rules]: "keeps I (hole_unknown E fd)"
  unfolding hole_unknown_def by (intro keeps_rules; simp)

lemma k_tail_zero [keeps_rules]: "keeps I (tail_zero E fd n)"
  unfolding tail_zero_def by (intro keeps_rules; simp)

lemma k_slow_buffer [keeps_rules]: "keeps I (slow_buffer E d s cb)"
  unfolding slow_buffer_def by (intro keeps_rules; simp)

lemma k_fast_writeback [keeps_rules]: "keeps I (fast_writeback E fd)"
  unfolding fast_writeback_def by (intro keeps_rules; simp)

lemma k_fast_spool [keeps_rules]: "keeps I (fast_spool E)"
  unfolding fast_spool_def by (intro keeps_rules; simp)

lemma k_tmpl_fail [keeps_rules]: "keeps I (tmpl_fail E own fd)"
  unfolding tmpl_fail_def by (intro keeps_rules; simp)

lemma k_tmpl_regular [keeps_rules]: "keeps I (tmpl_regular E fd own st)"
  unfolding tmpl_regular_def by (intro keeps_rules; simp)

lemma k_tmpl_close [keeps_rules]: "keeps I (tmpl_close E t)"
  unfolding tmpl_close_def by (intro keeps_rules; simp)

lemma k_batch_size [keeps_rules]: "keeps I (batch_size E)"
  unfolding batch_size_def by (intro keeps_rules; simp)

lemma k_report_one [keeps_rules]: "keeps I (report_one E op spec)"
  unfolding report_one_def by (intro keeps_rules)

lemma k_report_all [keeps_rules]: "keeps I (report_all E spec ops)"
  by (induction ops) (simp only: report_all.simps, (intro keeps_rules; simp))+

lemma k_install_handlers [keeps_rules]: "keeps I (install_handlers E sigs)"
  by (induction sigs) (simp only: install_handlers.simps, (intro keeps_rules; simp))+

lemma k_pending_install [keeps_rules]: "keeps I (pending_install E)"
  unfolding pending_install_def by (intro keeps_rules; simp)

lemma k_close_stream [keeps_rules]: "keeps I (close_stream E n)"
  unfolding close_stream_def by (intro keeps_rules; simp)

lemma k_error_close_std [keeps_rules]: "keeps I (error_close_std E)"
  unfolding error_close_std_def by (intro keeps_rules; simp)

end

subsection \<open>Data\<close>

locale kept_data = kept_sys +
  assumes k_data: "data_call c \<Longrightarrow> keeps I (sys E c)"
    and k_spool_open: "keeps I (spool_open E)"
begin

declare k_data [keeps_rules] k_spool_open [keeps_rules]

lemma k_sys_data [keeps_rules]: "\<not> naming_call c \<Longrightarrow> keeps I (sys E c)"
  using k_sys k_data by blast

lemma k_io_write [keeps_rules]: "keeps I (io_write E fd b)"
proof -
  have "E' = E \<Longrightarrow> keeps I (io_write E' fd b)" for E'
    by (induction E' fd b rule: io_write.induct) (hypsubst, subst io_write.simps, (intro keeps_rules; simp))
  then show ?thesis by simp
qed

lemma k_io_pwrite [keeps_rules]: "keeps I (io_pwrite E fd b off)"
proof -
  have "E' = E \<Longrightarrow> keeps I (io_pwrite E' fd b off)" for E'
    by (induction E' fd b off rule: io_pwrite.induct) (hypsubst, subst io_pwrite.simps, (intro keeps_rules; simp))
  then show ?thesis by simp
qed

lemma k_fill_loop [keeps_rules]: "keeps I (fill_loop E fd sz pos r)"
proof -
  have "E' = E \<Longrightarrow> keeps I (fill_loop E' fd sz pos r)" for E'
    by (induction E' fd sz pos r rule: fill_loop.induct) (hypsubst, subst fill_loop.simps, (intro keeps_rules; simp))
  then show ?thesis by simp
qed

lemma k_fast_alloc [keeps_rules]: "keeps I (fast_alloc E fd off len)"
  unfolding fast_alloc_def by (intro keeps_rules; simp)

lemma k_io_fill [keeps_rules]: "keeps I (io_fill E fd off len)"
  unfolding io_fill_def by (intro keeps_rules)

lemma k_sendfile_loop [keeps_rules]: "keeps I (sendfile_loop E d s doff soff len)"
proof -
  have "E' = E \<Longrightarrow> keeps I (sendfile_loop E' d s doff soff len)" for E'
    by (induction E' d s doff soff len rule: sendfile_loop.induct) (hypsubst, subst sendfile_loop.simps, (intro keeps_rules; simp))
  then show ?thesis by simp
qed

lemma k_fast_sendfile [keeps_rules]: "keeps I (fast_sendfile E d doff s soff len)"
  unfolding fast_sendfile_def by (intro keeps_rules; simp)

lemma k_fast_copy [keeps_rules]: "keeps I (fast_copy E d doff s soff len)"
proof -
  have "E' = E \<Longrightarrow> keeps I (fast_copy E' d doff s soff len)" for E'
    by (induction E' d doff s soff len rule: fast_copy.induct) (hypsubst, subst fast_copy.simps, (intro keeps_rules; simp))
  then show ?thesis by simp
qed

lemma k_splice_loop [keeps_rules]: "keeps I (splice_loop E n d s moved)"
  by (induction n arbitrary: moved) (simp only: splice_loop.simps, (intro keeps_rules; simp))+

lemma k_fast_splice [keeps_rules]: "keeps I (fast_splice E d s)"
  unfolding fast_splice_def by (intro keeps_rules)

lemma k_stream_loop [keeps_rules]: "keeps I (stream_loop E n d s sz)"
  by (induction n) (simp only: stream_loop.simps, (intro keeps_rules; simp))+

lemma k_copy_stream [keeps_rules]: "keeps I (copy_stream E d s)"
  unfolding copy_stream_def by (intro keeps_rules)

lemma k_copy_slow [keeps_rules]: "keeps I (copy_slow E d s soff doff en cb)"
proof -
  have "E' = E \<Longrightarrow> keeps I (copy_slow E' d s soff doff en cb)" for E'
    by (induction E' d s soff doff en cb rule: copy_slow.induct) (hypsubst, subst copy_slow.simps, (intro keeps_rules; simp))
  then show ?thesis by simp
qed

lemma k_extents_loop [keeps_rules]: "keeps I (extents_loop E n d s sz fr w cb)"
  by (induction n arbitrary: fr w cb) (simp only: extents_loop.simps, (intro keeps_rules; simp))+

lemma k_copy_extents [keeps_rules]: "keeps I (copy_extents E d s sz)"
  unfolding copy_extents_def by (intro keeps_rules; simp)

lemma k_zero_blocks [keeps_rules]: "keeps I (zero_blocks E d bs off data)"
proof -
  have "E' = E \<Longrightarrow> keeps I (zero_blocks E' d bs off data)" for E'
    by (induction E' d bs off data rule: zero_blocks.induct) (hypsubst, subst zero_blocks.simps, (intro keeps_rules; simp))
  then show ?thesis by simp
qed

lemma k_zeros_loop [keeps_rules]: "keeps I (zeros_loop E d s sz bs n off)"
proof -
  have "E' = E \<Longrightarrow> keeps I (zeros_loop E' d s sz bs n off)" for E'
    by (induction E' d s sz bs n off rule: zeros_loop.induct) (hypsubst, subst zeros_loop.simps, (intro keeps_rules; simp))
  then show ?thesis by simp
qed

lemma k_copy_zeros [keeps_rules]: "keeps I (copy_zeros E d s sz)"
  unfolding copy_zeros_def by (intro keeps_rules; simp)

lemma k_spool [keeps_rules]: "keeps I (spool E fd)"
  unfolding spool_def by (intro keeps_rules; simp)

lemma k_tmpl_open [keeps_rules]: "keeps I (tmpl_open E p rpt)"
  unfolding tmpl_open_def by (intro keeps_rules; simp)

lemma k_tmpl_apply [keeps_rules]: "keeps I (tmpl_apply E t fd)"
  unfolding tmpl_apply_def by (cases "tm_kind t"; simp only: tmpl_kind.case; intro keeps_rules)

lemma k_apply_size [keeps_rules]: "keeps I (apply_size E fd n sp th fi)"
  unfolding apply_size_def by (intro keeps_rules; simp)

lemma k_fill_one [keeps_rules]: "keeps I (fill_one E fd spec)"
  unfolding fill_one_def by (intro keeps_rules)

lemma k_open_template [keeps_rules]: "keeps I (open_template E spec rpt)"
  unfolding open_template_def by (intro keeps_rules)

end

subsection \<open>Flushing\<close>

locale kept_flush = kept_sys +
  assumes k_flush_grow: "want \<le> NEWFILE_BATCH \<Longrightarrow> keeps I (flush_grow E want)"
    and k_dir_failed: "keeps I (dir_failed E name err known dev ino)"
    and k_flush_set_run: "keeps I (flush_set_run E)"
begin

declare k_flush_grow [keeps_rules] k_dir_failed [keeps_rules] k_flush_set_run [keeps_rules]

lemma k_flush_threaded [keeps_rules]: "length fds \<le> NEWFILE_BATCH \<Longrightarrow> keeps I (flush_threaded E fds dir)"
  unfolding flush_threaded_def by (rule keeps_bind_res[OF k_flush_want flush_want_le]) (intro keeps_rules; simp)

lemma k_flush_fds [keeps_rules]: "length fds \<le> NEWFILE_BATCH \<Longrightarrow> keeps I (flush_fds E fds dir)"
  unfolding flush_fds_def by (intro keeps_rules)

lemma k_flush_dir [keeps_rules]: "keeps I (flush_dir E d)"
  unfolding flush_dir_def by (intro keeps_rules; simp add: NEWFILE_BATCH_def)

end

subsection \<open>Names\<close>

locale kept_names = kept_flush +
  assumes k_arm: "slot < PENDING_SLOTS \<Longrightarrow> keeps I (pending_arm slot p st)"
    and k_retarget: "slot < PENDING_SLOTS \<Longrightarrow> keeps I (pending_retarget slot st)"
    and k_clear: "slot < PENDING_SLOTS \<Longrightarrow> keeps I (pending_clear slot)"
    and k_create_excl: "keeps I (create_excl E p m)"
    and k_pending_remove: "slot < PENDING_SLOTS \<Longrightarrow> keeps I (pending_remove E slot)"
    and k_place_over: "slot < PENDING_SLOTS \<Longrightarrow> keeps I (place_over E tmp target slot)"
    and k_link: "keeps I (sys E (C_link a b))"
    and k_linkat: "keeps I (sys E (C_linkat a b))"
    and k_noreplace: "keeps I (sys E (C_renameat2 a b RENAME_NOREPLACE))"
begin

declare k_arm [keeps_rules] k_retarget [keeps_rules] k_clear [keeps_rules] k_create_excl [keeps_rules]
  k_pending_remove [keeps_rules] k_place_over [keeps_rules] k_link [keeps_rules] k_linkat [keeps_rules]
  k_noreplace [keeps_rules]

lemma k_fast_link [keeps_rules]: "keeps I (fast_link E fd p)"
  unfolding fast_link_def by (intro keeps_rules)

lemma k_fast_rename_noreplace [keeps_rules]: "keeps I (fast_rename_noreplace E a b)"
  unfolding fast_rename_noreplace_def fast_rename2_def by (intro keeps_rules)

lemma k_make_open [keeps_rules]: "keeps I (make_open E n mc)"
  unfolding make_open_def by (intro keeps_rules)

lemma k_make_fdlink [keeps_rules]: "keeps I (make_fdlink E n mc)"
  unfolding make_fdlink_def by (intro keeps_rules)

lemma k_make_link [keeps_rules]: "keeps I (make_link E n mc)"
  unfolding make_link_def by (intro keeps_rules)

lemma k_temp_try [keeps_rules]: "slot < PENDING_SLOTS \<Longrightarrow> (\<And>n mc. keeps I (mk n mc)) \<Longrightarrow> keeps I (temp_try E stem slot mk mc)"
  unfolding temp_try_def by (intro keeps_rules)

lemma k_temp_loop [keeps_rules]: "slot < PENDING_SLOTS \<Longrightarrow> (\<And>n mc. keeps I (mk n mc)) \<Longrightarrow> keeps I (temp_loop E n stem slot mk mc)"
  by (induction n) (simp only: temp_loop.simps, (intro keeps_rules; simp))+

lemma k_temp_make [keeps_rules]: "slot < PENDING_SLOTS \<Longrightarrow> (\<And>n mc. keeps I (mk n mc)) \<Longrightarrow> keeps I (temp_make E t slot mk mc)"
  unfolding temp_make_def by (intro keeps_rules)

lemma k_place_create [keeps_rules]: "slot < PENDING_SLOTS \<Longrightarrow> keeps I (place_create E p m slot)"
  unfolding place_create_def by (intro keeps_rules)

lemma k_place_temp [keeps_rules]: "slot < PENDING_SLOTS \<Longrightarrow> keeps I (place_temp E p m slot)"
  unfolding place_temp_def by (intro keeps_rules)

lemma k_place_temp_link [keeps_rules]: "slot < PENDING_SLOTS \<Longrightarrow> keeps I (place_temp_link E fd p slot)"
  unfolding place_temp_link_def by (intro keeps_rules; simp)

lemma k_place_temp_alias [keeps_rules]: "slot < PENDING_SLOTS \<Longrightarrow> keeps I (place_temp_alias E p st slot)"
  unfolding place_temp_alias_def by (intro keeps_rules)

lemma k_place_commit [keeps_rules]: "slot < PENDING_SLOTS \<Longrightarrow> keeps I (place_commit E tmp target slot)"
  unfolding place_commit_def by (intro keeps_rules)

lemma k_backup_link [keeps_rules]: "keeps I (backup_link E p n st)"
  unfolding backup_link_def by (intro keeps_rules)

lemma k_op_fail [keeps_rules]: "slot < PENDING_SLOTS \<Longrightarrow> keeps I (op_fail E op slot what)"
  unfolding op_fail_def by (intro keeps_rules; simp)

lemma k_close_op [keeps_rules]: "slot < PENDING_SLOTS \<Longrightarrow> keeps I (close_op E op slot what)"
  unfolding close_op_def by (intro keeps_rules; simp)

lemma k_fail_unflushed [keeps_rules]:
  "(\<And>x. x \<in> set xs \<Longrightarrow> fst x < PENDING_SLOTS) \<Longrightarrow> keeps I (fail_unflushed E ops xs kept)"
proof (induction xs arbitrary: ops kept)
  case (Cons y xs)
  moreover have "fst y < PENDING_SLOTS" using Cons.prems by simp
  ultimately show ?case by (cases y) (simp only: fail_unflushed.simps fst_conv, (intro keeps_rules; simp))
qed (simp add: keeps_return)

lemma k_flush_ops [keeps_rules]: "length ops \<le> NEWFILE_BATCH \<Longrightarrow> keeps I (flush_ops E ops)"
  unfolding flush_ops_def using unflushed_length[of ops]
  by (intro keeps_rules) (auto simp: slot_bounds dest!: set_zip_leftD unflushed_less)

lemma k_close_plain [keeps_rules]: "(\<And>i. i \<in> set is \<Longrightarrow> i < PENDING_SLOTS) \<Longrightarrow> keeps I (close_plain E ops is)"
  by (induction "is" arbitrary: ops) (simp only: close_plain.simps, (intro keeps_rules; simp))+

lemma k_flush_batch [keeps_rules]: "length ops \<le> NEWFILE_BATCH \<Longrightarrow> keeps I (flush_batch E ops)"
  unfolding flush_batch_def
  by (rule keeps_bind_res[OF k_flush_ops flush_ops_res]) (auto intro!: keeps_rules simp: slot_bounds, fastforce)

lemma k_settle_one [keeps_rules]: "slot < PENDING_SLOTS \<Longrightarrow> keeps I (settle_one E op slot)"
  unfolding settle_one_def by (intro keeps_rules)

lemma k_settle_each [keeps_rules]: "(\<And>i. i \<in> set is \<Longrightarrow> i < PENDING_SLOTS) \<Longrightarrow> keeps I (settle_each E ops is)"
  by (induction "is" arbitrary: ops) (simp only: settle_each.simps, (intro keeps_rules; simp))+

lemma k_settle_batch [keeps_rules]: "length ops \<le> NEWFILE_BATCH \<Longrightarrow> keeps I (settle_batch E ops)"
  unfolding settle_batch_def
  by (rule keeps_bind_res[OF k_flush_ops flush_ops_res]) (auto intro!: keeps_rules simp: slot_bounds, fastforce)

lemma k_drop_spare [keeps_rules]: "slot < PENDING_SLOTS \<Longrightarrow> keeps I (drop_spare E op slot)"
  unfolding drop_spare_def by (intro keeps_rules)

lemma k_drop_each [keeps_rules]: "i + length ops \<le> PENDING_SLOTS \<Longrightarrow> keeps I (drop_each E i ops)"
  by (induction ops arbitrary: i) (simp only: drop_each.simps, (intro keeps_rules; simp))+

lemma k_drop_spares [keeps_rules]: "length ops \<le> NEWFILE_BATCH \<Longrightarrow> keeps I (drop_spares E ops)"
  unfolding drop_spares_def by (intro keeps_rules) (simp add: slot_bounds)

end

subsection \<open>Naming, and the tables\<close>

text \<open>
  The tables with room for a batch change in the operations named here; backups are made from the
  steps of \<open>kept_cache\<close> and \<open>kept_backup\<close>. \<open>may_replace\<close> says whether the run was told to replace files: only then are
  a file's old contents taken away.
\<close>

locale kept_cache = kept_sys +
  assumes b_backup_dir_get: "keeps I (backup_dir_get E p)"
    and b_set_entries: "keeps I (set_entries i es)"
begin

declare b_backup_dir_get [keeps_rules] b_set_entries [keeps_rules]

lemma b_backup_best [keeps_rules]: "keeps I (backup_best E p)"
  unfolding backup_best_def by (intro keeps_rules)

lemma b_backup_note [keeps_rules]: "keeps I (backup_note E p d)"
  unfolding backup_note_def by (intro keeps_rules)

lemma b_backup_next [keeps_rules]: "keeps I (backup_next E p c)"
  unfolding backup_next_def by (intro keeps_rules)

end

locale kept_backup = kept_names + kept_cache +
  fixes may_replace :: bool
  assumes b_rename: "may_replace \<Longrightarrow> keeps I (sys E (C_rename a b))"
begin

declare b_rename [keeps_rules]

lemma b_backup_numbered [keeps_rules]: "keeps I (backup_numbered E n p st d)"
  by (induction n arbitrary: d) (simp only: backup_numbered.simps, (intro keeps_rules; simp))+

lemma b_backup_simple [keeps_rules]: "may_replace \<Longrightarrow> keeps I (backup_simple E p st)"
  unfolding backup_simple_def by (intro keeps_rules)

lemma b_backup_make [keeps_rules]: "may_replace \<Longrightarrow> keeps I (backup_make E p c)"
  unfolding backup_make_def by (intro keeps_rules; simp)

end

locale kept = kept_names +
  fixes may_replace :: bool
  assumes k_rename: "may_replace \<Longrightarrow> keeps I (sys E (C_rename a b))"
    and k_exchange: "may_replace \<Longrightarrow> keeps I (sys E (C_renameat2 a b RENAME_EXCHANGE))"
    and k_flush_set_add: "keeps I (flush_set_add E d)"
    and k_flush_set_forget: "keeps I flush_set_forget"
    and k_flush_stop: "keeps I (flush_stop E)"
    and k_place_probe_mode: "slot < PENDING_SLOTS \<Longrightarrow> keeps I (place_probe_mode E p m slot)"
    and k_place_probe_reset: "keeps I place_probe_reset"
    and k_backup_make: "may_replace \<Longrightarrow> keeps I (backup_make E p c)"
    and k_backup_cache_reset: "keeps I backup_cache_reset"
begin

declare k_rename [keeps_rules] k_exchange [keeps_rules] k_flush_set_add [keeps_rules]
  k_flush_set_forget [keeps_rules] k_flush_stop [keeps_rules] k_place_probe_mode [keeps_rules]
  k_place_probe_reset [keeps_rules] k_backup_make [keeps_rules] k_backup_cache_reset [keeps_rules]

lemma k_make_parents [keeps_rules]: "keeps I (make_parents E ds)"
  by (induction ds) (simp only: make_parents.simps, (intro keeps_rules; simp))+

lemma k_path_make_parents [keeps_rules]: "keeps I (path_make_parents E p)"
  unfolding path_make_parents_def by (intro keeps_rules)

lemma k_place_rename [keeps_rules]: "may_replace \<Longrightarrow> slot < PENDING_SLOTS \<Longrightarrow> keeps I (place_rename E a b slot)"
  unfolding place_rename_def by (intro keeps_rules)

lemma k_fast_exchange [keeps_rules]: "may_replace \<Longrightarrow> keeps I (fast_exchange E a b)"
  unfolding fast_exchange_def fast_rename2_def by (intro keeps_rules)

lemma k_place_exchange [keeps_rules]: "may_replace \<Longrightarrow> slot < PENDING_SLOTS \<Longrightarrow> keeps I (place_exchange E a b slot st)"
  unfolding place_exchange_def by (intro keeps_rules)

lemma k_replace_rename [keeps_rules]: "may_replace \<Longrightarrow> slot < PENDING_SLOTS \<Longrightarrow> keeps I (replace_rename E op slot t go)"
  unfolding replace_rename_def by (intro keeps_rules)

lemma k_replace_backed [keeps_rules]: "may_replace \<Longrightarrow> slot < PENDING_SLOTS \<Longrightarrow> keeps I (replace_backed E op slot d t st)"
  unfolding replace_backed_def by (intro keeps_rules)

lemma k_replace_one [keeps_rules]: "may_replace \<Longrightarrow> slot < PENDING_SLOTS \<Longrightarrow> keeps I (replace_one E op slot d spec)"
  unfolding replace_one_def by (intro keeps_rules)

lemma k_name_force [keeps_rules]: "may_replace \<Longrightarrow> slot < PENDING_SLOTS \<Longrightarrow> keeps I (name_force E op slot d spec)"
  unfolding name_force_def by (intro keeps_rules)

lemma k_name_new [keeps_rules]: "slot < PENDING_SLOTS \<Longrightarrow> keeps I (name_new E op slot)"
  unfolding name_new_def by (cases "way op"; simp only: op_way.case; intro keeps_rules)

lemma k_name_one [keeps_rules]: "(force_mode spec \<Longrightarrow> may_replace) \<Longrightarrow> slot < PENDING_SLOTS \<Longrightarrow> keeps I (name_one E op slot spec)"
  unfolding name_one_def by (intro keeps_rules; simp)

lemma k_name_all [keeps_rules]:
  "(force_mode spec \<Longrightarrow> may_replace) \<Longrightarrow> i + length ops \<le> PENDING_SLOTS \<Longrightarrow> keeps I (name_all E spec i ops)"
  by (induction ops arbitrary: i) (simp only: name_all.simps, (intro keeps_rules; simp))+

end

subsection \<open>Building, and the whole run\<close>

locale kept_build = kept + kept_data
begin

lemma k_open_built [keeps_rules]: "slot < PENDING_SLOTS \<Longrightarrow> keeps I (open_built E op slot spec)"
  unfolding open_built_def by (intro keeps_rules; simp)

lemma k_name_early [keeps_rules]: "slot < PENDING_SLOTS \<Longrightarrow> keeps I (name_early E op slot spec)"
  unfolding name_early_def by (intro keeps_rules; simp)

lemma k_own_and_mode [keeps_rules]: "slot < PENDING_SLOTS \<Longrightarrow> keeps I (own_and_mode E op slot spec c m)"
  unfolding own_and_mode_def by (intro keeps_rules; simp)

lemma k_finish_built [keeps_rules]: "slot < PENDING_SLOTS \<Longrightarrow> keeps I (finish_built E op slot spec c m)"
  unfolding finish_built_def by (intro keeps_rules)

lemma k_build_file [keeps_rules]: "slot < PENDING_SLOTS \<Longrightarrow> keeps I (build_file E op slot spec)"
  unfolding build_file_def by (intro keeps_rules; simp)

lemma k_build_one [keeps_rules]: "slot < PENDING_SLOTS \<Longrightarrow> keeps I (build_one E p slot spec)"
  unfolding build_one_def by (intro keeps_rules)

lemma k_build_all [keeps_rules]: "i + length ps \<le> PENDING_SLOTS \<Longrightarrow> keeps I (build_all E spec i ps)"
  by (induction ps arbitrary: i) (simp only: build_all.simps, (intro keeps_rules; simp))+

lemma k_run_batch [keeps_rules]:
  assumes "force_mode spec \<Longrightarrow> may_replace" and "length ps \<le> NEWFILE_BATCH"
  shows "keeps I (run_batch E spec ps)"
proof -
  have "keeps I (do {
      ops \<leftarrow> settle_batch E ops;
      flush_set_run E;
      drop_spares E ops })" if "length ops = length ps" for ops
    by (rule keeps_bind_res[OF k_settle_batch settle_batch_length]) (use that assms in \<open>auto intro!: keeps_rules\<close>)
  then have "keeps I (do {
      backup_cache_reset;
      ops \<leftarrow> name_all E spec 0 ops;
      ops \<leftarrow> settle_batch E ops;
      flush_set_run E;
      drop_spares E ops })" if "length ops = length ps" for ops
    using that assms
    by (intro keeps_bind[OF k_backup_cache_reset] keeps_bind_res[OF k_name_all name_all_length]) (auto simp: slot_bounds)
  then have "keeps I (do {
      ops \<leftarrow> flush_batch E ops;
      backup_cache_reset;
      ops \<leftarrow> name_all E spec 0 ops;
      ops \<leftarrow> settle_batch E ops;
      flush_set_run E;
      drop_spares E ops })" if "length ops = length ps" for ops
    using that assms by (intro keeps_bind_res[OF k_flush_batch flush_batch_length]) auto
  then show ?thesis
    unfolding run_batch_def using assms(2)
    by (intro keeps_bind[OF k_flush_set_forget] keeps_bind[OF k_place_probe_reset]
        keeps_bind_res[OF k_build_all build_all_length]) (auto simp: slot_bounds)
qed

lemma k_batch_loop [keeps_rules]:
  assumes "force_mode spec \<Longrightarrow> may_replace" and "n \<le> NEWFILE_BATCH"
  shows "keeps I (batch_loop E spec n ps ok)"
proof -
  have "E' = E \<Longrightarrow> spec' = spec \<Longrightarrow> n' = n \<Longrightarrow> keeps I (batch_loop E' spec' n' ps ok)" for E' spec' n'
    by (induction E' spec' n' ps ok rule: batch_loop.induct)
      (hypsubst, subst batch_loop.simps, (intro keeps_rules; simp add: assms min.coboundedI2))
  then show ?thesis by simp
qed

end

locale kept_run = kept_build +
  assumes k_flush_set_init: "keeps I (flush_set_init n)"
begin

declare k_flush_set_init [keeps_rules]

lemma k_batch_run [keeps_rules]: "(force_mode spec \<Longrightarrow> may_replace) \<Longrightarrow> keeps I (batch_run E ps spec)"
  unfolding batch_run_def
  by (rule keeps_bind_res[OF k_batch_size batch_size_range]) (intro keeps_rules; simp)

lemma k_main_files [keeps_rules]: "(force_mode (pa_spec p) \<Longrightarrow> may_replace) \<Longrightarrow> keeps I (main_files E p)"
  unfolding main_files_def by (intro keeps_rules; simp)

end

subsection \<open>Invariants that do not look at the tables\<close>

text \<open>An invariant that survives every change of the tables needs no proof for their operations.\<close>

locale kept_workers = kept_sys +
  assumes v_dirs_nfailed: "keeps I (modify (dirs_nfailed_update Suc))"
    and v_failures: "keeps I (modify (failures_update f3))"
    and v_failures_lost: "keeps I (modify (failures_lost_update f4))"
    and v_nworkers: "keeps I (modify (nworkers_update f2))"
    and v_grow_failed: "keeps I (modify (grow_failed_update f4))"
begin

declare v_dirs_nfailed [keeps_rules] v_failures [keeps_rules] v_failures_lost [keeps_rules] v_nworkers [keeps_rules]
  v_grow_failed [keeps_rules]

lemma v_grow_loop: "keeps I (grow_loop E n)"
  by (induction n) (simp only: grow_loop.simps, (intro keeps_rules; simp))+

lemma v_flush_grow [keeps_rules]: "keeps I (flush_grow E want)"
  unfolding flush_grow_def by (intro keeps_rules v_grow_loop; simp)

lemma v_dir_failed [keeps_rules]: "keeps I (dir_failed E name err known dev ino)"
  unfolding dir_failed_def by (intro keeps_rules)

lemma v_join_workers: "keeps I (join_workers E n)"
  by (induction n) (simp only: join_workers.simps, (intro keeps_rules; simp))+

lemma v_flush_fds [keeps_rules]: "keeps I (flush_fds E fds dir)"
  unfolding flush_fds_def flush_threaded_def by (intro keeps_rules)

lemma v_set_open [keeps_rules]: "keeps I (set_open E ds acc)"
  by (induction ds arbitrary: acc) (simp only: set_open.simps, (intro keeps_rules; simp))+

lemma v_set_close [keeps_rules]: "keeps I (set_close E xs)"
proof (induction xs)
  case (Cons y xs)
  then show ?case by (cases y) (simp only: set_close.simps, (intro keeps_rules; simp))
qed (simp add: keeps_return)

end

text \<open>The set of directories, for an invariant that does not look at it.\<close>

locale kept_dirs = kept_workers +
  assumes v_dirs: "keeps I (modify (dirs_update f1))"
begin

declare v_dirs [keeps_rules]

lemma v_flush_set_run: "keeps I (flush_set_run E)"
  unfolding flush_set_run_def by (intro keeps_rules)

end

locale kept_tables = kept_workers +
  assumes v_dirs_append: "keeps I (modify (dirs_update (\<lambda>ds. ds @ [d])))"
    and v_set_run: "keeps I (flush_set_run E)"
    and v_dirs_max: "keeps I (modify (dirs_max_update f2))"
    and v_probes: "keeps I (modify (probes_update f5))"
    and v_pending: "keeps I (modify (pending_update f7))"
begin

declare v_dirs_append [keeps_rules] v_set_run [keeps_rules] v_dirs_max [keeps_rules] v_probes [keeps_rules]
  v_pending [keeps_rules]

end

locale kept_most = kept_tables +
  fixes may_replace :: bool
  assumes v_create_excl: "keeps I (create_excl E p m)"
    and v_pending_remove: "keeps I (pending_remove E slot)"
    and v_place_over: "keeps I (place_over E tmp target slot)"
    and v_link: "keeps I (sys E (C_link a b))"
    and v_linkat: "keeps I (sys E (C_linkat a b))"
    and v_noreplace: "keeps I (sys E (C_renameat2 a b RENAME_NOREPLACE))"
    and v_rename: "may_replace \<Longrightarrow> keeps I (sys E (C_rename a b))"
    and v_exchange: "may_replace \<Longrightarrow> keeps I (sys E (C_renameat2 a b RENAME_EXCHANGE))"
    and v_data: "data_call c \<Longrightarrow> keeps I (sys E c)"
    and v_spool_open: "keeps I (spool_open E)"

sublocale kept_most \<subseteq> kept_flush
  by unfold_locales (intro v_flush_grow v_dir_failed v_set_run)+

sublocale kept_most \<subseteq> kept_names
  by unfold_locales
    (simp_all add: pending_arm_def pending_retarget_def pending_clear_def v_pending v_create_excl v_pending_remove
      v_place_over v_link v_linkat v_noreplace)

context kept_most
begin

lemma v_flush_set_add: "keeps I (flush_set_add E d)"
  unfolding flush_set_add_def by (intro keeps_rules)

lemma v_flush_stop: "keeps I (flush_stop E)"
  unfolding flush_stop_def by (intro keeps_rules v_join_workers)

lemma v_place_probe_mode: "slot < PENDING_SLOTS \<Longrightarrow> keeps I (place_probe_mode E p m slot)"
  unfolding place_probe_mode_def by (intro keeps_rules; simp)

lemma v_flush_set_forget: "keeps I flush_set_forget"
  unfolding flush_set_forget_def by (intro keeps_rules)

lemma v_backup_simple: "may_replace \<Longrightarrow> keeps I (backup_simple E p st)"
  unfolding backup_simple_def by (intro keeps_rules v_rename)

end

text \<open>An invariant that no call touches at all is kept by the steps that make or remove a name too.\<close>

locale kept_calls = kept_tables +
  assumes c_sys: "keeps I (sys E c)"
begin

lemma c_remove_ours: "keeps I (remove_ours E p d i)"
  unfolding remove_ours_def by (intro keeps_rules c_sys)

lemma c_create_excl: "keeps I (create_excl E p m)"
  unfolding create_excl_def by (intro keeps_rules c_sys)

lemma c_pending_remove: "keeps I (pending_remove E slot)"
  unfolding pending_remove_def pending_clear_def by (intro keeps_rules c_remove_ours)

lemma c_place_over: "keeps I (place_over E tmp target slot)"
  unfolding place_over_def over_created_def pending_unlink_def pending_clear_def
  by (intro keeps_rules c_create_excl c_remove_ours c_sys)

lemma c_spool_open: "keeps I (spool_open E)"
  unfolding spool_open_def by (intro keeps_rules c_sys)

end

sublocale kept_calls \<subseteq> kept_most where may_replace = True
  by unfold_locales (simp_all add: c_sys c_create_excl c_pending_remove c_place_over c_spool_open)

text \<open>With the cache of backups too, the invariant is kept by the whole run.\<close>

locale kept_vars = kept_most +
  assumes v_backups: "keeps I (modify (backups_update f6))"
begin

declare v_backups [keeps_rules]

lemma v_backup_dir_get: "keeps I (backup_dir_get E p)"
  unfolding backup_dir_get_def backup_cache_reset_def by (intro keeps_rules)

end

sublocale kept_vars \<subseteq> kept_backup
  by unfold_locales (simp_all add: v_rename v_backup_dir_get set_entries_def v_backups)

sublocale kept_vars \<subseteq> kept_run
  by unfold_locales
    (simp_all add: v_rename v_exchange v_flush_set_add flush_set_init_def v_dirs_max v_flush_set_forget v_flush_stop
      v_place_probe_mode place_probe_reset_def v_probes b_backup_make backup_cache_reset_def v_backups v_data v_spool_open)

subsection \<open>A run that has ended\<close>

text \<open>
  After \<^verbatim>\<open>exit\<close>, or when a loop has not ended, nothing runs any more: the run stays ended and
  the record of its calls stays as it is.
\<close>

definition ended :: "event list \<Rightarrow> 'w pst \<Rightarrow> bool" where
  "ended tr s \<longleftrightarrow> run_status s \<noteq> Running \<and> trace s = tr"

lemma ended_sys: "keeps (ended tr) (sys E c)"
  by (simp add: keeps_wp wp_sys ended_def)

lemma ended_modify:
  "(\<And>s. run_status s \<noteq> Running \<Longrightarrow> run_status (f s) \<noteq> Running \<and> trace (f s) = trace s) \<Longrightarrow>
     keeps (ended tr) (modify f)"
  by (rule keeps_modify) (auto simp: ended_def)

interpretation ended: kept_dirs "ended tr" E for tr E
  by unfold_locales
    (simp_all add: ended_sys ended_modify put_stdout_def put_stderr_def out_of_fuel_def exit_def)

interpretation ended: kept_calls "ended tr" E for tr E
  by unfold_locales (simp_all add: ended_sys ended_modify ended.v_flush_set_run)

interpretation ended: kept_vars "ended tr" E True for tr E
  by unfold_locales (simp add: ended_modify)

end
