(* ===== verification/Bytes.thy ===== *)
theory Bytes
  imports Io
begin

text \<open>
  The bytes of files: reading one, where what was never written reads as NUL; writing at an offset; and
  setting the length.
\<close>

definition byte :: "bytes \<Rightarrow> nat \<Rightarrow> char" where
  "byte d i = (if i < length d then d ! i else NUL)"

definition write_at :: "nat \<Rightarrow> bytes \<Rightarrow> bytes \<Rightarrow> bytes" where
  "write_at off b d =
     (if b = [] then d else take off (d @ replicate (off - length d) NUL) @ b @ drop (off + length b) d)"

definition resize :: "nat \<Rightarrow> bytes \<Rightarrow> bytes" where
  "resize n d = take n (d @ replicate (n - length d) NUL)"

lemma byte_simps [simp]:
  "byte [] i = NUL" "byte (replicate n NUL) i = NUL" "i < length d \<Longrightarrow> byte d i = d ! i" "length d \<le> i \<Longrightarrow> byte d i = NUL"
  by (simp_all add: byte_def)

lemma bytes_eqI: "length a = length b \<Longrightarrow> (\<And>i. i < length a \<Longrightarrow> byte a i = byte b i) \<Longrightarrow> a = b"
  by (rule nth_equalityI) (simp_all add: byte_def)

lemma length_write_at: "length (write_at off b d) = (if b = [] then length d else max (length d) (off + length b))"
  by (auto simp: write_at_def)

lemma byte_write_at: "byte (write_at off b d) i = (if off \<le> i \<and> i < off + length b then b ! (i - off) else byte d i)"
proof (cases "b = []")
  case False
  have "length (take off (d @ replicate (off - length d) NUL)) = off" by simp
  then show ?thesis
    using False by (auto simp: write_at_def byte_def nth_append)
qed (auto simp: write_at_def)

lemma length_resize [simp]: "length (resize n d) = n"
  by (simp add: resize_def)

lemma byte_resize: "byte (resize n d) i = (if i < n then byte d i else NUL)"
  by (auto simp: resize_def byte_def nth_append)

lemma byte_append: "byte (a @ b) i = (if i < length a then byte a i else byte b (i - length a))"
  by (auto simp: byte_def nth_append)

lemma byte_take: "byte (take n d) i = (if i < n then byte d i else NUL)"
  by (simp add: byte_def)

lemma byte_drop: "byte (drop n d) i = byte d (n + i)"
  by (auto simp: byte_def)

text \<open>A write in two pieces.\<close>

lemma write_at_Nil [simp]: "write_at off [] d = d"
  by (simp add: write_at_def)

lemma write_at_pieces: "write_at (off + n) (drop n b) (write_at off (take n b) d) = write_at off b d"
proof (cases "n < length b")
  case True
  show ?thesis
  proof (rule bytes_eqI)
    show "length (write_at (off + n) (drop n b) (write_at off (take n b) d)) = length (write_at off b d)"
      using True by (auto simp: length_write_at)
  next
    fix i
    show "byte (write_at (off + n) (drop n b) (write_at off (take n b) d)) i = byte (write_at off b d) i"
      using True by (auto simp: byte_write_at)
  qed
qed simp

lemma write_at_end: "write_at (length d) b d = d @ b"
  by (simp add: write_at_def)

lemma resize_same [simp]: "resize (length d) d = d"
  by (simp add: resize_def)

lemma resize_longer: "length d \<le> n \<Longrightarrow> resize n d = d @ replicate (n - length d) NUL"
  by (simp add: resize_def)

lemma all_zero_iff: "butlast buf = tl buf \<and> buf \<noteq> [] \<and> hd buf = NUL \<longleftrightarrow> buf \<noteq> [] \<and> buf = replicate (length buf) NUL"
proof (induction buf)
  case (Cons c buf)
  then show ?case by (cases buf) auto
qed simp

end
