(* ===== verification/Sim.thy ===== *)
theory Sim
  imports Main_Prog Bytes
begin

text \<open>
  A small system to run the program on: directories, names, files and descriptors, with the
  documented effect of each call of a run and a umask of 022. It has no other processes and never
  runs out of anything. The witnesses of the theorems run the program here.
\<close>

record inode =
  in_mode :: mode_t
  in_data :: bytes
  in_owner :: "uid_t \<times> gid_t"
  in_synced :: bool

record fs =
  fs_dirs :: "path list"
  fs_names :: "(path \<times> nat) list"
  fs_inodes :: "(nat \<times> inode) list"
  fs_fds :: "(int \<times> nat) list"
  fs_pos :: "(int \<times> nat) list"
  fs_next :: nat
  fs_rand :: nat
  fs_tmpfile :: bool
  fs_rename2 :: bool

definition inode_of :: "fs \<Rightarrow> nat \<Rightarrow> inode" where
  "inode_of w i = (case map_of (fs_inodes w) i of
     Some x \<Rightarrow> x | None \<Rightarrow> \<lparr>in_mode = 0, in_data = [], in_owner = (0, 0), in_synced = True\<rparr>)"

definition set_inode :: "nat \<Rightarrow> inode \<Rightarrow> fs \<Rightarrow> fs" where
  "set_inode i x w = w\<lparr>fs_inodes := (i, x) # filter (\<lambda>y. fst y \<noteq> i) (fs_inodes w)\<rparr>"

definition unname :: "path \<Rightarrow> fs \<Rightarrow> fs" where
  "unname p w = w\<lparr>fs_names := filter (\<lambda>y. fst y \<noteq> p) (fs_names w)\<rparr>"

definition set_name :: "path \<Rightarrow> nat \<Rightarrow> fs \<Rightarrow> fs" where
  "set_name p i w = (unname p w)\<lparr>fs_names := (p, i) # fs_names (unname p w)\<rparr>"

definition named :: "fs \<Rightarrow> path \<Rightarrow> nat option" where
  "named w p = map_of (fs_names w) p"

definition stat_of :: "fs \<Rightarrow> nat \<Rightarrow> stat" where
  "stat_of w i = \<lparr>st_dev = 1, st_ino = int i, st_mode = 0x8000 OR in_mode (inode_of w i),
     st_size = int (length (in_data (inode_of w i))), st_blocks = int (length (in_data (inode_of w i))),
     st_blksize = 4096\<rparr>"

definition dir_stat :: "nat \<Rightarrow> stat" where
  "dir_stat k = \<lparr>st_dev = 1, st_ino = 1000 + int k, st_mode = 0x41ED, st_size = 0, st_blocks = 0, st_blksize = 4096\<rparr>"

definition new_file :: "mode_t \<Rightarrow> fs \<Rightarrow> nat \<times> fs" where
  "new_file m w =
     (let i = fs_next w
      in (i, set_inode i \<lparr>in_mode = m AND 0xFED, in_data = [], in_owner = (1000, 1000), in_synced = False\<rparr>
           (w\<lparr>fs_next := i + 1, fs_fds := (int i, i) # fs_fds w\<rparr>)))"

definition on_fd :: "fs \<Rightarrow> fd \<Rightarrow> (nat \<Rightarrow> reply \<times> fs) \<Rightarrow> reply \<times> fs" where
  "on_fd w fd f = (case map_of (fs_fds w) fd of None \<Rightarrow> (R_fail EBADF, w) | Some i \<Rightarrow> f i)"

definition change :: "fs \<Rightarrow> fd \<Rightarrow> (inode \<Rightarrow> inode) \<Rightarrow> reply \<Rightarrow> reply \<times> fs" where
  "change w fd f r = on_fd w fd (\<lambda>i. (r, set_inode i (f (inode_of w i)) w))"

text \<open>The offset of a descriptor.\<close>

definition pos_of :: "fs \<Rightarrow> fd \<Rightarrow> nat" where
  "pos_of w fd = (case map_of (fs_pos w) fd of Some k \<Rightarrow> k | None \<Rightarrow> 0)"

definition set_pos :: "fd \<Rightarrow> nat \<Rightarrow> fs \<Rightarrow> fs" where
  "set_pos fd k w = w\<lparr>fs_pos := (fd, k) # filter (\<lambda>x. fst x \<noteq> fd) (fs_pos w)\<rparr>"

text \<open>The first byte from \<open>off\<close> on that is not NUL, and the first that is.\<close>

definition sim_seek :: "fd \<Rightarrow> int \<Rightarrow> whence \<Rightarrow> fs \<Rightarrow> reply \<times> fs" where
  "sim_seek fd off wh w = on_fd w fd (\<lambda>i.
     let d = in_data (inode_of w i); k = nat off; rest = drop k d in
     case wh of
       SEEK_SET \<Rightarrow> (R_int off, set_pos fd k w)
     | SEEK_CUR \<Rightarrow> (R_int (int (pos_of w fd) + off), set_pos fd (nat (int (pos_of w fd) + off)) w)
     | SEEK_DATA \<Rightarrow> let n = k + length (takeWhile (\<lambda>c. c = NUL) rest) in
         if n < length d then (R_int (int n), w) else (R_fail ENXIO, w)
     | SEEK_HOLE \<Rightarrow> (if k < length d then R_int (int (k + length (takeWhile (\<lambda>c. c \<noteq> NUL) rest))) else R_fail ENXIO, w))"

definition stat_path :: "fs \<Rightarrow> path \<Rightarrow> reply" where
  "stat_path w p =
     (case named w p of
        Some i \<Rightarrow> R_stat (stat_of w i)
      | None \<Rightarrow> (case find_index (\<lambda>d. d = p) (fs_dirs w) of Some k \<Rightarrow> R_stat (dir_stat k) | None \<Rightarrow> R_fail ENOENT))"

definition sim_open :: "path \<Rightarrow> oflag list \<Rightarrow> mode_t \<Rightarrow> fs \<Rightarrow> reply \<times> fs" where
  "sim_open p fl m w =
     (if O_TMPFILE \<in> set fl then
        (if fs_tmpfile w then (case new_file m w of (i, w') \<Rightarrow> (R_int (int i), w')) else (R_fail EOPNOTSUPP, w))
      else if O_DIRECTORY \<in> set fl then
        (case find_index (\<lambda>d. d = p) (fs_dirs w) of Some k \<Rightarrow> (R_int (1000 + int k), w) | None \<Rightarrow> (R_fail ENOENT, w))
      else if O_CREAT \<in> set fl then
        (if dir_of p \<notin> set (fs_dirs w) then (R_fail ENOENT, w)
         else if named w p \<noteq> None \<or> p \<in> set (fs_dirs w) then (R_fail EEXIST, w)
         else case new_file m w of (i, w') \<Rightarrow> (R_int (int i), set_name p i w'))
      else case named w p of
          None \<Rightarrow> (R_fail ENOENT, w)
        | Some i \<Rightarrow> (R_int (int i), w\<lparr>fs_fds := (int i, i) # fs_fds w\<rparr>))"

definition sim_link :: "nat option \<Rightarrow> path \<Rightarrow> fs \<Rightarrow> reply \<times> fs" where
  "sim_link src p w =
     (case src of
        None \<Rightarrow> (R_fail ENOENT, w)
      | Some i \<Rightarrow> if named w p \<noteq> None then (R_fail EEXIST, w) else (R_int 0, set_name p i w))"

definition sim_rename2 :: "path \<Rightarrow> path \<Rightarrow> rename_flag \<Rightarrow> fs \<Rightarrow> reply \<times> fs" where
  "sim_rename2 a b fl w =
     (if \<not> fs_rename2 w then (R_fail ENOSYS, w)
      else case named w a of
          None \<Rightarrow> (R_fail ENOENT, w)
        | Some i \<Rightarrow>
            (case (fl, named w b) of
               (RENAME_NOREPLACE, Some _) \<Rightarrow> (R_fail EEXIST, w)
             | (RENAME_NOREPLACE, None) \<Rightarrow> (R_int 0, set_name b i (unname a w))
             | (RENAME_EXCHANGE, None) \<Rightarrow> (R_fail ENOENT, w)
             | (RENAME_EXCHANGE, Some j) \<Rightarrow> (R_int 0, set_name b i (set_name a j w))))"

fun sim :: "call \<Rightarrow> fs \<Rightarrow> reply \<times> fs" where
  "sim (C_open p fl m) w = sim_open p fl m w"
| "sim (C_fstat fd) w = (if 1000 \<le> fd then (R_stat (dir_stat (nat (fd - 1000))), w) else on_fd w fd (\<lambda>i. (R_stat (stat_of w i), w)))"
| "sim (C_lstat p) w = (stat_path w p, w)"
| "sim (C_stat p) w = (if p = ''/proc/self/fd'' then (R_stat (dir_stat 0), w) else (stat_path w p, w))"
| "sim (C_unlink p) w = (if named w p = None then (R_fail ENOENT, w) else (R_int 0, unname p w))"
| "sim (C_link a b) w = sim_link (named w a) b w"
| "sim (C_linkat a b) w =
     sim_link (map_option snd (find (\<lambda>x. proc_fd_path (fst x) = a) (fs_fds w))) b w"
| "sim (C_rename a b) w = (case named w a of
       None \<Rightarrow> (R_fail ENOENT, w)
     | Some i \<Rightarrow> (R_int 0, if named w b = Some i then w else set_name b i (unname a w)))"
| "sim (C_renameat2 a b fl) w = sim_rename2 a b fl w"
| "sim (C_mkdir p m) w =
     (if p \<in> set (fs_dirs w) \<or> named w p \<noteq> None then (R_fail EEXIST, w)
      else if dir_of p \<notin> set (fs_dirs w) then (R_fail ENOENT, w) else (R_int 0, w\<lparr>fs_dirs := fs_dirs w @ [p]\<rparr>))"
| "sim (C_fchmod fd m) w = change w fd (\<lambda>x. x\<lparr>in_mode := m, in_synced := False\<rparr>) (R_int 0)"
| "sim (C_fchown fd u g) w =
     change w fd (\<lambda>x. x\<lparr>in_owner := (if u = -1 then fst (in_owner x) else u, if g = -1 then snd (in_owner x) else g),
       in_mode := in_mode x AND 0x3FF, in_synced := False\<rparr>) (R_int 0)"
| "sim (C_ftruncate fd n) w = change w fd (\<lambda>x. x\<lparr>in_data := resize (nat n) (in_data x), in_synced := False\<rparr>) (R_int 0)"
| "sim (C_fallocate fd off len) w = (R_fail EOPNOTSUPP, w)"
| "sim (C_fsync fd) w = (if 1000 \<le> fd then (R_int 0, w) else change w fd (\<lambda>x. x\<lparr>in_synced := True\<rparr>) (R_int 0))"
| "sim (C_pwrite fd b off) w =
     change w fd (\<lambda>x. x\<lparr>in_data := write_at (nat off) b (in_data x), in_synced := False\<rparr>) (R_int (int (length b)))"
| "sim (C_write fd b) w =
     (let k = pos_of w fd in
      change (set_pos fd (k + length b) w) fd (\<lambda>x. x\<lparr>in_data := write_at k b (in_data x), in_synced := False\<rparr>) (R_int (int (length b))))"
| "sim (C_read fd n) w = on_fd w fd (\<lambda>i.
     let rest = drop (pos_of w fd) (in_data (inode_of w i)); b = take (nat (min n (int (length rest)))) rest
     in (R_bytes b, set_pos fd (pos_of w fd + length b) w))"
| "sim (C_pread fd n off) w =
     on_fd w fd (\<lambda>i. (R_bytes (take (nat n) (drop (nat off) (in_data (inode_of w i)))), w))"
| "sim (C_lseek fd off wh) w = sim_seek fd off wh w"
| "sim (C_copy_file_range s so d dof len) w = (R_fail EXDEV, w)"
| "sim (C_sendfile d s off len) w = (R_fail EINVAL, w)"
| "sim (C_close fd) w = (R_int 0, w\<lparr>fs_fds := filter (\<lambda>x. fst x \<noteq> fd) (fs_fds w),
     fs_pos := filter (\<lambda>x. fst x \<noteq> fd) (fs_pos w)\<rparr>)"
| "sim (C_getentropy n) w = (R_bytes (replicate n (char_of (fs_rand w))), w\<lparr>fs_rand := fs_rand w + 1\<rparr>)"
| "sim (C_opendir p) w = (case find_index (\<lambda>d. d = p) (fs_dirs w) of Some k \<Rightarrow> (R_int (2000 + int k), w) | None \<Rightarrow> (R_fail ENOENT, w))"
| "sim (C_readdir fd) w = (R_int 0, w)"
| "sim C_nprocessors w = (R_int 1, w)"
| "sim C_pthread_create w = (R_int 0, w)"
| "sim (C_getrlimit l) w = (R_int (-1), w)"
| "sim C_pagesize w = (R_int 4096, w)"
| "sim _ w = (R_int 0, w)"

definition sim_env :: "fs env" where
  "sim_env = \<lparr>kern = sim, strerror = (\<lambda>_. ''error''), getenv = (\<lambda>_. None), program_name = ''newfile'',
     schedule = (\<lambda>n w. rev [0..<n]), fuel = 20\<rparr>"

definition empty_fs :: "bool \<Rightarrow> bool \<Rightarrow> fs" where
  "empty_fs tmpfile rename2 =
     \<lparr>fs_dirs = [''.''], fs_names = [], fs_inodes = [], fs_fds = [], fs_pos = [], fs_next = 3, fs_rand = 0,
      fs_tmpfile = tmpfile, fs_rename2 = rename2\<rparr>"

text \<open>A system that already has a file \<open>p\<close> with the given contents.\<close>

definition add_file :: "path \<Rightarrow> bytes \<Rightarrow> fs \<Rightarrow> fs" where
  "add_file p d w =
     set_name p (fs_next w) (set_inode (fs_next w) \<lparr>in_mode = 0x1A4, in_data = d, in_owner = (1000, 1000), in_synced = True\<rparr>
       (w\<lparr>fs_next := fs_next w + 1\<rparr>))"

definition contents :: "fs \<Rightarrow> (path \<times> bytes \<times> mode_t) list" where
  "contents w = map (\<lambda>(p, i). (p, in_data (inode_of w i), in_mode (inode_of w i))) (fs_names w)"

end
