(* ===== verification/Safety.thy ===== *)
theory Safety
  imports Kept Sim
begin

text \<open>
  What the calls of a run never do, whatever the system answers and whatever other processes do
  between two calls: a name is removed only when it was just seen to hold a file of this run, and
  without the force option no name of a file is taken over.
\<close>

subsection \<open>Conditions on the record of a run\<close>

text \<open>\<open>P e t\<close> judges the event \<open>e\<close> by the record \<open>t\<close> before it, newest first.\<close>

fun tr_ok :: "(event \<Rightarrow> event list \<Rightarrow> bool) \<Rightarrow> event list \<Rightarrow> bool" where
  "tr_ok P [] = True"
| "tr_ok P (e # t) = (P e t \<and> tr_ok P t)"

definition start :: "'w \<Rightarrow> 'w pst" where
  "start w = \<lparr>world = w, trace = [], run_status = Running, errno = E0, mask = Initial,
     pending = (\<lambda>_. \<lparr>pn_path = None, pn_dev = 0, pn_ino = 0\<rparr>), counter = 0, probes = [], proc_usable = 0,
     size_limit = None, dirs = [], dirs_max = 1, dirs_nfailed = 0, failures = [], failures_lost = False, cpus = 0,
     nworkers = 0, grow_failed = False, backups = [], spare_mask = Initial, spare_held = False,
     out_stdout = [], out_stderr = []\<rparr>"

lemma start_trace [simp]: "trace (start w) = []"
  by (simp add: start_def)

text \<open>The exclusive creation of \<open>p\<close> as \<open>fd\<close>; and \<open>p\<close> created and found to be a given file.\<close>

definition created :: "path \<Rightarrow> fd \<Rightarrow> event \<Rightarrow> bool" where
  "created p fd e \<longleftrightarrow>
     (case ev_call e of C_open q fl m \<Rightarrow> q = p \<and> fl = excl_flags | _ \<Rightarrow> False) \<and>
     reply_int (ev_reply e) = fd \<and> fd \<noteq> -1"

fun made_as :: "path \<Rightarrow> int \<Rightarrow> int \<Rightarrow> event list \<Rightarrow> bool" where
  "made_as p dev ino (a # b # t) =
     ((\<exists>fd st. created p fd b \<and> ev_call a = C_fstat fd \<and> ev_reply a = R_stat st \<and>
         st_dev st = dev \<and> st_ino st = ino) \<or> made_as p dev ino (b # t))"
| "made_as p dev ino _ = False"

lemma made_as_Cons: "made_as p dev ino t \<Longrightarrow> made_as p dev ino (e # t)"
  by (cases t) auto

text \<open>A condition on events that only looks at the record is kept by a call that it accepts.\<close>

lemma tr_ok_sys:
  "(\<And>e t. ev_call e = c \<Longrightarrow> P e t) \<Longrightarrow> keeps (\<lambda>s. tr_ok P (trace s)) (sys E c)"
  by (simp add: keeps_wp wp_sys)

lemma tr_ok_modify: "(\<And>s. trace (f s) = trace s) \<Longrightarrow> keeps (\<lambda>s. tr_ok P (trace s)) (modify f)"
  by (rule keeps_modify) simp

lemma tr_ok_kept_sys:
  assumes "\<And>e t. \<not> naming_call (ev_call e) \<Longrightarrow> \<not> data_call (ev_call e) \<Longrightarrow> P e t"
  shows "kept_sys (\<lambda>s. tr_ok P (trace s)) E"
  by unfold_locales
    (simp_all add: tr_ok_sys assms tr_ok_modify put_stdout_def put_stderr_def out_of_fuel_def exit_def)

subsection \<open>Names are removed only when they hold a file of this run\<close>

definition unlink_ok :: "event \<Rightarrow> event list \<Rightarrow> bool" where
  "unlink_ok e t =
     (case ev_call e of
        C_unlink p \<Rightarrow>
          (case t of
             l # t' \<Rightarrow>
               (\<exists>st. ev_call l = C_lstat p \<and> ev_reply l = R_stat st \<and>
                  ((\<exists>slot. ev_pending e slot = \<lparr>pn_path = Some p, pn_dev = st_dev st, pn_ino = st_ino st\<rparr>) \<or>
                   made_as p (st_dev st) (st_ino st) t')) \<or>
               (\<exists>a b u fd. t = a # b # u \<and> ev_call a = C_close fd \<and> ev_call b = C_fstat fd \<and>
                  u \<noteq> [] \<and> created p fd (hd u)) \<or>
               (\<exists>q. ev_call l = C_mkstemp q \<and> reply_path (ev_reply l) = p)
           | [] \<Rightarrow> False)
      | _ \<Rightarrow> True)"

lemma unlink_ok_other: "\<forall>p. ev_call e \<noteq> C_unlink p \<Longrightarrow> unlink_ok e t"
  by (cases "ev_call e") (simp_all add: unlink_ok_def)

abbreviation unlinks_ok :: "'w pst \<Rightarrow> bool" where
  "unlinks_ok s \<equiv> tr_ok unlink_ok (trace s)"

interpretation unlinks: kept_sys unlinks_ok E for E
  by (rule tr_ok_kept_sys) (auto intro!: unlink_ok_other)

lemma unlinks_sys: "\<forall>p. c \<noteq> C_unlink p \<Longrightarrow> keeps unlinks_ok (sys E c)"
  by (rule tr_ok_sys) (simp add: unlink_ok_other)

text \<open>
  What \<^verbatim>\<open>remove_ours\<close> does to the record when the caller names the slot it works for, or the
  creation of the name.
\<close>

lemma unlinks_remove_ours:
  assumes "unlinks_ok s"
    and "(\<exists>slot. pending s slot = \<lparr>pn_path = Some p, pn_dev = dev, pn_ino = ino\<rparr>) \<or> made_as p dev ino (trace s)"
  shows "wp (remove_ours E p dev ino) (\<lambda>_. unlinks_ok) s"
  using assms
  by (auto simp: remove_ours_def wp_calls unlink_ok_def reply_stat_Some split: option.split)

lemma unlinks_pending_remove: "keeps unlinks_ok (pending_remove E slot)"
proof (rule keeps_wpI)
  fix s :: "'a pst"
  assume s: "unlinks_ok s"
  show "wp (pending_remove E slot) (\<lambda>_. unlinks_ok) s"
  proof (cases "pn_path (pending s slot)")
    case (Some p)
    then have "\<exists>k. pending s k = \<lparr>pn_path = Some p, pn_dev = pn_dev (pending s slot), pn_ino = pn_ino (pending s slot)\<rparr>"
      by (intro exI[of _ slot]) (simp add: pending_name.equality)
    with s have "wp (remove_ours E p (pn_dev (pending s slot)) (pn_ino (pending s slot))) (\<lambda>_. unlinks_ok) s"
      by (intro unlinks_remove_ours) auto
    then show ?thesis
      by (simp add: pending_remove_def Some error_print_def put_stderr_def pending_clear_def) (erule wp_mono, simp)
  qed (use s in \<open>simp add: pending_remove_def\<close>)
qed


lemma unlinks_create_excl:
  assumes "unlinks_ok s"
  shows "wp (create_excl E p m)
     (\<lambda>r t. unlinks_ok t \<and> (\<forall>fd st. r = Some (fd, st) \<longrightarrow> made_as p (st_dev st) (st_ino st) (trace t))) s"
  using assms
  by (auto simp: create_excl_def wp_calls unlink_ok_other reply_stat_Some created_def split: option.split)
    (auto simp: unlink_ok_def created_def)

text \<open>While the name stands as created, the calls that remove nothing keep the record so.\<close>

definition unlinks_made :: "path \<Rightarrow> int \<Rightarrow> int \<Rightarrow> 'w pst \<Rightarrow> bool" where
  "unlinks_made p dev ino s \<longleftrightarrow> unlinks_ok s \<and> made_as p dev ino (trace s)"

lemma unlinks_made_sys: "\<forall>q. c \<noteq> C_unlink q \<Longrightarrow> keeps (unlinks_made p dev ino) (sys E c)"
  by (simp add: keeps_wp wp_sys unlinks_made_def unlink_ok_other made_as_Cons)

lemma unlinks_made_modify: "(\<And>s. trace (f s) = trace s) \<Longrightarrow> keeps (unlinks_made p dev ino) (modify f)"
  by (rule keeps_modify) (simp add: unlinks_made_def)

interpretation unlinks_made: kept_sys "unlinks_made p dev ino" E for p dev ino E
  by unfold_locales
    (auto intro!: unlinks_made_sys unlinks_made_modify simp: put_stdout_def put_stderr_def out_of_fuel_def exit_def)

lemma unlinks_made_remove: "hoare (unlinks_made p dev ino) (remove_ours E p dev ino) unlinks_ok"
  by (simp add: hoare_def unlinks_remove_ours unlinks_made_def)

lemma unlinks_over_created:
  "hoare (unlinks_made target (st_dev st) (st_ino st)) (over_created E tmp target slot old fd st) unlinks_ok"
  unfolding over_created_def keep_errno_def pending_unlink_def pending_clear_def
  by (intro hoare_keeps_bind hoare_if unlinks_made_sys unlinks_made.k_sys_ok keeps_get_errno unlinks_made_modify
      hoare_bind_keeps[OF unlinks_made_remove] hoare_bind_keeps hoare_weaken
      keeps_rules unlinks.k_release unlinks.k_set_errno unlinks.k_error_print tr_ok_modify)
    (simp_all add: unlinks_made_def)

lemma unlinks_place_over: "keeps unlinks_ok (place_over E tmp target slot)"
proof (rule keeps_wpI)
  fix s :: "'a pst"
  assume s: "unlinks_ok s"
  show "wp (place_over E tmp target slot) (\<lambda>_. unlinks_ok) s"
    unfolding place_over_def
  proof (intro wp_bindI[OF keeps_wpD[OF unlinks.k_hold s]] wp_bindI[OF unlinks_create_excl])
    fix old t and r :: "(fd \<times> stat) option" and u :: "'a pst"
    assume "unlinks_ok u \<and> (\<forall>fd st. r = Some (fd, st) \<longrightarrow> made_as target (st_dev st) (st_ino st) (trace u))"
    then show "wp (case r of None \<Rightarrow> do { pending_release E old; return (-1) }
        | Some (fd, st) \<Rightarrow> over_created E tmp target slot old fd st) (\<lambda>_. unlinks_ok) u"
      using unlinks_over_created[of target _ E tmp slot old] keeps_wpD[OF unlinks.k_release]
      by (cases r) (auto simp: hoare_def unlinks_made_def)
  qed
qed

lemma unlinks_spool_open: "keeps unlinks_ok (spool_open E)"
proof -
  have tail: "keeps unlinks_ok (do { pending_release E old; return x })" for old x
    by (intro keeps_rules unlinks.k_release)
  have step: "keeps unlinks_ok (do {
      r \<leftarrow> sys E (C_mkstemp p);
      (if reply_int r \<noteq> -1 then do {
         gone \<leftarrow> sys_ok E (C_unlink (reply_path r));
         e \<leftarrow> get_errno;
         whenM (\<not> gone) (error_print E (''warning: cannot remove '' @ quoted (reply_path r) @ '': '' @ strerror E e @ nl)) }
       else return ());
      pending_release E old;
      return (reply_int r) })" for p old
    using keeps_wpD[OF tail]
    by (intro keeps_wpI) (auto simp: wp_calls unlink_ok_def error_print_def put_stderr_def)
  show ?thesis
    unfolding spool_open_def
    by (rule keeps_bind[OF unlinks.k_fast_spool], rule keeps_case_prod, rule keeps_if, rule keeps_return,
        rule keeps_if, rule keeps_return, rule keeps_bind[OF unlinks.k_alloc], rule keeps_if, rule keeps_return,
        rule keeps_bind[OF unlinks.k_hold], rule step)
qed

lemma unlinks_excl: "keeps unlinks_ok (create_excl E p m)"
  by (rule keeps_wpI) (erule wp_mono[OF unlinks_create_excl], simp)

interpretation unlinks: kept_dirs unlinks_ok E for E
  by unfold_locales (auto intro!: tr_ok_modify)

interpretation unlinks: kept_vars unlinks_ok E True for E
  by unfold_locales
    (auto intro!: unlinks.v_flush_set_run unlinks_sys tr_ok_modify unlinks_excl unlinks_pending_remove unlinks_place_over unlinks_spool_open
      elim: data_call.elims)

lemma unlinks_reserve_fds: "keeps unlinks_ok (reserve_fds E fds)"
  by (induction fds)
    (simp only: reserve_fds.simps, (intro keeps_rules; auto split: errno.split intro!: keeps_rules unlinks.k_sys_int unlinks_sys unlinks.k_exit))+

text \<open>
  C1. Whatever the system answers and whatever other processes do meanwhile, the program removes a
  name only if the call just before saw it hold the very file that the pending table has for it or
  that this run created under it, or when this run itself created the name in the calls just before.
  No other file is ever unlinked.
\<close>

theorem unlinks_only_own:
  "tr_ok unlink_ok (trace (snd (run_state (main_prog E sy argv) (start w))))"
proof -
  have "keeps unlinks_ok (main_prog E sy argv)"
    unfolding main_prog_def reserve_std_fds_def
    by (intro keeps_rules unlinks_reserve_fds unlinks.k_main_files unlinks.k_exit unlinks.k_stdout unlinks.k_stderr) simp
  then show ?thesis by (simp add: keeps_def)
qed

subsection \<open>Without the force option no name is taken over\<close>

text \<open>
  A rename may only go over a name that the three calls before it created exclusively, and names are
  never exchanged. The other calls that give a file a name fail when the name exists.
\<close>

definition replace_ok :: "event \<Rightarrow> event list \<Rightarrow> bool" where
  "replace_ok e t =
     (case ev_call e of
        C_rename a b \<Rightarrow>
          (case t of
             c # f # cr # _ \<Rightarrow> \<exists>fd. ev_call c = C_close fd \<and> ev_call f = C_fstat fd \<and> created b fd cr
           | _ \<Rightarrow> False)
      | C_renameat2 a b fl \<Rightarrow> fl = RENAME_NOREPLACE
      | _ \<Rightarrow> True)"

abbreviation replaces_ok :: "'w pst \<Rightarrow> bool" where
  "replaces_ok s \<equiv> tr_ok replace_ok (trace s)"

lemma replace_ok_other:
  "\<forall>a b. ev_call e \<noteq> C_rename a b \<and> ev_call e \<noteq> C_renameat2 a b RENAME_EXCHANGE \<Longrightarrow> replace_ok e t"
  by (cases "ev_call e") (simp_all add: replace_ok_def, metis rename_flag.exhaust)

lemma replaces_sys:
  "\<forall>a b. c \<noteq> C_rename a b \<and> c \<noteq> C_renameat2 a b RENAME_EXCHANGE \<Longrightarrow> keeps replaces_ok (sys E c)"
  by (rule tr_ok_sys) (simp add: replace_ok_other)

interpretation replaces: kept_sys replaces_ok E for E
  by (rule tr_ok_kept_sys) (rule replace_ok_other, auto)

lemma replaces_remove_ours: "keeps replaces_ok (remove_ours E p dev ino)"
  unfolding remove_ours_def by (intro keeps_rules replaces_sys) simp_all

lemma replaces_pending_remove: "keeps replaces_ok (pending_remove E slot)"
  unfolding pending_remove_def pending_clear_def by (intro keeps_rules replaces_remove_ours tr_ok_modify) simp_all

lemma replaces_excl: "keeps replaces_ok (create_excl E p m)"
  unfolding create_excl_def by (intro keeps_rules replaces_sys) simp_all

definition just_created :: "path \<Rightarrow> fd \<Rightarrow> 'w pst \<Rightarrow> bool" where
  "just_created p fd s \<longleftrightarrow> replaces_ok s \<and>
     (\<exists>f cr u. trace s = f # cr # u \<and> ev_call f = C_fstat fd \<and> created p fd cr)"

lemma replaces_create_excl:
  assumes "replaces_ok s"
  shows "wp (create_excl E p m) (\<lambda>r t. replaces_ok t \<and> (\<forall>fd st. r = Some (fd, st) \<longrightarrow> just_created p fd t)) s"
  using assms
  by (auto simp: create_excl_def wp_calls replace_ok_other just_created_def created_def split: option.split)

lemma replaces_over_created:
  "hoare (just_created target fd) (over_created E tmp target slot old fd st) replaces_ok"
proof -
  define closed where "closed t \<longleftrightarrow> replaces_ok t \<and> (run_status t = Running \<longrightarrow>
    (\<exists>c f cr u. trace t = c # f # cr # u \<and> ev_call c = C_close fd \<and> ev_call f = C_fstat fd \<and> created target fd cr))"
    for t :: "'a pst"
  have a: "hoare (just_created target fd) (sys E (C_close fd)) closed"
    by (auto simp: hoare_def wp_calls just_created_def closed_def replace_ok_other)
  have b: "hoare closed (sys_ok E (C_rename tmp target)) replaces_ok"
    by (auto simp: hoare_def wp_calls closed_def replace_ok_def)
  show ?thesis
    unfolding over_created_def pending_unlink_def pending_clear_def
    by (rule hoare_bind[OF a], rule hoare_bind_keeps[OF b], intro keeps_rules replaces_remove_ours tr_ok_modify) simp_all
qed

lemma replaces_place_over: "keeps replaces_ok (place_over E tmp target slot)"
proof (rule keeps_wpI)
  fix s :: "'a pst"
  assume s: "replaces_ok s"
  show "wp (place_over E tmp target slot) (\<lambda>_. replaces_ok) s"
    unfolding place_over_def
  proof (intro wp_bindI[OF keeps_wpD[OF replaces.k_hold s]] wp_bindI[OF replaces_create_excl])
    fix old t and r :: "(fd \<times> stat) option" and u :: "'a pst"
    assume "replaces_ok u \<and> (\<forall>fd st. r = Some (fd, st) \<longrightarrow> just_created target fd u)"
    then show "wp (case r of None \<Rightarrow> do { pending_release E old; return (-1) }
        | Some (fd, st) \<Rightarrow> over_created E tmp target slot old fd st) (\<lambda>_. replaces_ok) u"
      using replaces_over_created[of target _ E tmp slot old] keeps_wpD[OF replaces.k_release]
      by (cases r) (auto simp: hoare_def)
  qed
qed

lemma replaces_spool_open: "keeps replaces_ok (spool_open E)"
  unfolding spool_open_def by (intro keeps_rules replaces_sys) simp_all

interpretation replaces: kept_dirs replaces_ok E for E
  by unfold_locales (auto intro!: tr_ok_modify)

interpretation replaces: kept_vars replaces_ok E False for E
  by unfold_locales
    (auto intro!: replaces.v_flush_set_run replaces_sys tr_ok_modify replaces_excl replaces_pending_remove replaces_place_over
      replaces_spool_open elim: data_call.elims)

text \<open>
  C2. Without \<^verbatim>\<open>-f\<close> an existing file is never replaced, whatever the system answers and whatever
  other processes do meanwhile: no two names are exchanged, a rename that could replace is only made
  over an empty file that the same run created exclusively just before, and every other rename is
  one that fails when the target exists.
\<close>

theorem no_force_no_replace:
  assumes "\<not> force_mode (pa_spec p)"
  shows "tr_ok replace_ok (trace (snd (run_state (main_files E p) (start w))))"
  using replaces.k_main_files[of p E] assms by (simp add: keeps_def)

text \<open>
  A run without \<^verbatim>\<open>-f\<close> on an operand that exists, in a system that can neither make unnamed files nor rename
  without replacing.
\<close>

definition plain_run :: "parsed" where
  "plain_run =
     \<lparr>pa_spec = (fst spec_reset)\<lparr>size_given := True, fs_size := 2, fs_mode := 0x1B6\<rparr>,
      pa_argv = [''newfile'', ''x''], pa_first = 1, pa_stderr = []\<rparr>"

theorem no_force_no_replace_witness:
  "\<not> force_mode (pa_spec plain_run) \<and>
   tr_ok replace_ok (trace (snd (run_state (main_files sim_env plain_run)
     (start (add_file ''x'' ''old'' (empty_fs False False))))))"
proof -
  have "\<not> force_mode (pa_spec plain_run)" by (simp add: plain_run_def spec_reset_def)
  then show ?thesis using no_force_no_replace[of plain_run sim_env] by blast
qed

end
