(* ===== verification/Backup_Cache.thy ===== *)
theory Backup_Cache
  imports Backup_Order Safety
begin

text \<open>
  The cache of directory listings of \<^verbatim>\<open>src/backup.c\<close>: every operation keeps its lists sorted for the
  binary search, one list for a directory, and the number chosen for a new backup is above every
  number that the list has for the file.
\<close>

subsection \<open>The cache\<close>

definition entries_ok :: "backup_entry list \<Rightarrow> bool" where
  "entries_ok es \<longleftrightarrow> strictly_sorted es \<and> list_all (\<lambda>x. number (be_digits x)) es"

definition cache_ok :: "'w pst \<Rightarrow> bool" where
  "cache_ok s \<longleftrightarrow> list_all (\<lambda>b. entries_ok (bd_entries b)) (backups s) \<and> distinct (map bd_dir (backups s))"

lemma cache_ok_cong: "backups t = backups s \<Longrightarrow> cache_ok s \<Longrightarrow> cache_ok t"
  by (simp add: cache_ok_def)

lemma entries_ok_kept: "list_all (\<lambda>x. number (be_digits x)) es \<Longrightarrow> entries_ok (entries_keep_highest es)"
  using entries_keep_highest_ok[of es]
  by (auto simp: entries_ok_def kept_ok_def highest_def entries_sort_def list_all_iff)

lemma entries_ok_nth: "cache_ok s \<Longrightarrow> i < length (backups s) \<Longrightarrow> entries_ok (bd_entries (backups s ! i))"
  by (simp add: cache_ok_def list_all_length)

subsection \<open>Noting a backup\<close>

lemma takeWhile_split:
  "strictly_sorted es \<Longrightarrow> \<exists>lo hi. es = lo @ hi \<and>
     length (takeWhile (\<lambda>x. 0 < strcmp (be_base x) b) (rev es)) = length hi \<and>
     (\<forall>x \<in> set lo. be_base x \<le> b) \<and> (\<forall>x \<in> set hi. b < be_base x)"
proof (induction es rule: rev_induct)
  case (snoc e es)
  show ?case
  proof (cases "b < be_base e")
    case True
    moreover have "strictly_sorted es" using snoc.prems by (simp add: sorted_wrt_append)
    then obtain lo hi where "es = lo @ hi"
      "length (takeWhile (\<lambda>x. 0 < strcmp (be_base x) b) (rev es)) = length hi"
      "\<forall>x \<in> set lo. be_base x \<le> b" "\<forall>x \<in> set hi. b < be_base x"
      using snoc.IH by blast
    ultimately show ?thesis by (intro exI[of _ lo] exI[of _ "hi @ [e]"]) (auto simp: strcmp_order)
  next
    case False
    then have "\<forall>x \<in> set (es @ [e]). be_base x \<le> b"
      using snoc.prems by (auto simp: sorted_wrt_append dest: less_imp_le)
    then show ?thesis using False by (intro exI[of _ "es @ [e]"] exI[of _ "[]"]) (simp add: strcmp_order)
  qed
qed simp

lemma insert_entry_ok:
  assumes "entries_ok es" "number (be_digits e)" "be_base e \<notin> be_base ` set es"
  shows "entries_ok (insert_entry e es)"
proof -
  obtain lo hi where es: "es = lo @ hi"
    "length (takeWhile (\<lambda>x. 0 < strcmp (be_base x) (be_base e)) (rev es)) = length hi"
    "\<forall>x \<in> set lo. be_base x \<le> be_base e" "\<forall>x \<in> set hi. be_base e < be_base x"
    using takeWhile_split[of es "be_base e"] assms(1) by (auto simp: entries_ok_def)
  have "insert_entry e es = lo @ e # hi" using es(1,2) by (simp add: insert_entry_def)
  moreover have "\<forall>x \<in> set lo. be_base x \<noteq> be_base e" using es(1) assms(3) by (metis UnCI image_eqI set_append)
  then have "\<forall>x \<in> set lo. be_base x < be_base e" using es(3) by (simp add: less_le)
  ultimately show ?thesis using assms es by (auto simp: entries_ok_def sorted_wrt_append)
qed

lemma map_update_same: "f y = f (xs ! i) \<Longrightarrow> map f (xs[i := y]) = map f xs"
  by (cases "i < length xs") (auto intro!: nth_equalityI simp: nth_list_update)

lemma entries_ok_update:
  assumes "entries_ok es" "number d" "k < length es"
  shows "entries_ok (es[k := (es ! k)\<lparr>be_digits := d\<rparr>])"
proof -
  have "map be_base (es[k := (es ! k)\<lparr>be_digits := d\<rparr>]) = map be_base es"
    by (rule map_update_same) simp
  then show ?thesis
    using assms by (auto simp: entries_ok_def list_all_iff dest: set_update_subset_insert[THEN subsetD])
qed

lemma cache_ok_set_entries:
  "cache_ok s \<Longrightarrow> entries_ok es \<Longrightarrow> cache_ok (backups_update (\<lambda>bs. bs[i := (bs ! i)\<lparr>bd_entries := es\<rparr>]) s)"
  by (auto simp: cache_ok_def list_all_iff map_update_same dest: set_update_subset_insert[THEN subsetD])

subsection \<open>Listing a directory\<close>

lemma wp_alloc: "wp (alloc E) Q = wp (sys E C_memory) (\<lambda>r. Q (\<not> failed r))"
  by (simp add: alloc_def wp_sys_ok)

text \<open>A call changes none of the tables.\<close>

lemma wp_sys_backups: "(\<And>r t. backups t = backups s \<Longrightarrow> Q r t) \<Longrightarrow> wp (sys E c) Q s"
  by (simp add: wp_sys)

lemma backup_split_number: "backup_split name = Some (n, t) \<Longrightarrow> number (butlast t)"
  by (drule backup_split_Some) auto

lemma list_loop_numbers:
  assumes "list_all (\<lambda>x. number (be_digits x)) es"
  shows "wp (list_loop E n dp cap es) (\<lambda>r t. backups t = backups s \<and> list_all (\<lambda>x. number (be_digits x)) (snd r)) s"
  using assms
proof (induction n arbitrary: cap es s)
  case 0
  then show ?case by (simp add: out_of_fuel_def)
next
  case (Suc n)
  show ?case
    unfolding list_loop.simps wp_bind
  proof (rule wp_sys_backups)
    fix r and t :: "'a pst"
    assume t: "backups t = backups s"
    have IH: "wp (list_loop E n dp cap' es') (\<lambda>r t. backups t = backups s \<and> list_all (\<lambda>x. number (be_digits x)) (snd r)) u"
      if "backups u = backups s" "list_all (\<lambda>x. number (be_digits x)) es'" for cap' es' and u :: "'a pst"
      using Suc.IH[OF that(2), of cap' u] that(1) by simp
    show "wp (case r of
        R_bytes name \<Rightarrow>
          (case backup_split name of
             None \<Rightarrow> list_loop E n dp cap es
           | Some (baselen, digits) \<Rightarrow> do {
               room \<leftarrow> (if length es = cap then alloc E else return True);
               if \<not> room then return (ENOMEM, es)
               else do {
                 base_ok \<leftarrow> alloc E;
                 digits_ok \<leftarrow> alloc E;
                 if \<not> base_ok \<or> \<not> digits_ok then return (ENOMEM, es)
                 else do {
                   set_errno E0;
                   list_loop E n dp
                     (if length es = cap then (if cap = 0 then LIST_MIN else cap * 2) else cap)
                     (es @ [\<lparr>be_base = take baselen name, be_digits = butlast digits\<rparr>]) } } })
      | _ \<Rightarrow> do { e \<leftarrow> get_errno; return (e, es) })
      (\<lambda>r t. backups t = backups s \<and> list_all (\<lambda>x. number (be_digits x)) (snd r)) t"
      using t Suc.prems
      by (auto split: reply.split option.split intro!: IH wp_sys_backups simp: wp_alloc) (blast intro: backup_split_number)+
  qed
qed

lemma backup_dir_list_ok:
  "wp (backup_dir_list E dir) (\<lambda>r t. backups t = backups s \<and> (\<forall>es. r = Some es \<longrightarrow> entries_ok es)) s"
proof -
  have loop: "wp (list_loop E n dp cap []) (\<lambda>r t. backups t = backups s \<and> list_all (\<lambda>x. number (be_digits x)) (snd r)) u"
    if "backups u = backups s" for n dp cap and u :: "'a pst"
    using list_loop_numbers[of "[]" E n dp cap u] that by simp
  have "entries_ok []" by (simp add: entries_ok_def)
  then show ?thesis
    unfolding backup_dir_list_def wp_bind wp_sys_int
    by (intro wp_sys_backups)
      (auto simp: split_beta intro!: wp_sys_backups wp_mono[OF loop] intro: entries_ok_kept)
qed

subsection \<open>The list of a file's directory\<close>

text \<open>What the C library documents: the functions that allocate fail with \<^verbatim>\<open>ENOMEM\<close> only.\<close>

definition memory_errno :: "'w env \<Rightarrow> bool" where
  "memory_errno E \<longleftrightarrow> (\<forall>w e. fst (kern E C_memory w) = R_fail e \<longrightarrow> e = ENOMEM)"

lemma wp_alloc_backups:
  assumes "memory_errno E" "\<And>t. backups t = backups s \<Longrightarrow> run_status t = run_status s \<Longrightarrow> run_status s = Running \<Longrightarrow> Q True t"
    "\<And>t. backups t = backups s \<Longrightarrow> run_status t = run_status s \<Longrightarrow> (run_status t = Running \<longrightarrow> errno t = ENOMEM) \<Longrightarrow> Q False t"
  shows "wp (alloc E) Q s"
proof -
  have "errno (called E C_memory s) = ENOMEM" if "failed (fst (kern E C_memory (world s)))"
    using assms(1) that by (cases "fst (kern E C_memory (world s))") (auto simp: memory_errno_def)
  then show ?thesis
    using assms(2,3) by (cases "failed (fst (kern E C_memory (world s)))") (simp_all add: wp_alloc wp_sys)
qed

text \<open>The cache has no list of the directory, or the list says of the file what \<open>best\<close> says.\<close>

definition best_of :: "'w pst \<Rightarrow> path \<Rightarrow> string option \<Rightarrow> bool" where
  "best_of t p best \<longleftrightarrow> (\<forall>d. best = Some d \<longrightarrow> number d) \<and>
     (\<forall>b \<in> set (backups t). bd_dir b = dir_of p \<longrightarrow>
        (\<forall>e \<in> set (bd_entries b). be_base e = base_of p \<longrightarrow> best = Some (be_digits e)))"

lemma best_of_cong: "backups t = backups s \<Longrightarrow> best_of s p best \<Longrightarrow> best_of t p best"
  by (simp add: best_of_def)

definition get_post :: "path \<Rightarrow> nat option \<Rightarrow> 'w pst \<Rightarrow> bool" where
  "get_post p r t \<longleftrightarrow> cache_ok t \<and>
     (case r of
        Some i \<Rightarrow> i < length (backups t) \<and> bd_dir (backups t ! i) = dir_of p
      | None \<Rightarrow> run_status t = Running \<longrightarrow> errno t = ENOMEM \<or> best_of t p None)"

lemma backup_dir_get_ok:
  assumes "memory_errno E" "cache_ok s"
  shows "wp (backup_dir_get E p) (get_post p) s"
  unfolding backup_dir_get_def path_dir_def wp_bind
proof (rule wp_alloc_backups[OF assms(1)])
  fix t :: "'a pst"
  assume t: "backups t = backups s"
  then have ok: "cache_ok t" using assms(2) by (rule cache_ok_cong)
  let ?dir = "dir_of p"
  let ?new = "do {
      es \<leftarrow> backup_dir_list E ?dir;
      case es of
        None \<Rightarrow> return None
      | Some es \<Rightarrow> do {
          bs \<leftarrow> gets backups;
          modify (backups_update (\<lambda>bs. bs @ [\<lparr>bd_dir = ?dir, bd_entries = es\<rparr>]));
          return (Some (length bs)) } }"
  have new: "wp ?new (get_post p) u" if "cache_ok u" "?dir \<notin> bd_dir ` set (backups u)" for u :: "'a pst"
    unfolding wp_bind
    by (rule wp_mono[OF backup_dir_list_ok[of E ?dir u]])
      (use that in \<open>auto simp: get_post_def cache_ok_def best_of_def image_iff nth_append split: option.split\<close>)
  have reset: "cache_ok (t\<lparr>backups := []\<rparr>)" by (simp add: cache_ok_def)
  have none: "find_index (\<lambda>b. bd_dir b = ?dir) (backups t) = None \<Longrightarrow> ?dir \<notin> bd_dir ` set (backups t)"
    by (drule find_index_None) (auto simp: find_None_iff)
  show "wp (return (if True then Some ?dir else None)) (\<lambda>d. wp (case d of
       None \<Rightarrow> return None
     | Some dir \<Rightarrow> do {
         bs \<leftarrow> gets backups;
         case find_index (\<lambda>b. bd_dir b = dir) bs of
           Some i \<Rightarrow> return (Some i)
         | None \<Rightarrow> do {
             whenM (length bs = NEWFILE_BATCH) backup_cache_reset;
             es \<leftarrow> backup_dir_list E dir;
             case es of
               None \<Rightarrow> return None
             | Some es \<Rightarrow> do {
                 bs \<leftarrow> gets backups;
                 modify (backups_update (\<lambda>bs. bs @ [\<lparr>bd_dir = dir, bd_entries = es\<rparr>]));
                 return (Some (length bs)) } } }) (get_post p)) t"
    using new[OF ok] new[OF reset] none ok
    by (auto simp: backup_cache_reset_def get_post_def split: option.split dest: find_index_find)
qed (use assms(2) in \<open>auto simp: get_post_def cache_ok_def\<close>)

lemma best_of_found:
  assumes "cache_ok t" "i < length (backups t)" "bd_dir (backups t ! i) = dir_of p"
    "backup_find (bd_entries (backups t ! i)) p = r"
  shows "best_of t p (map_option (\<lambda>k. be_digits (bd_entries (backups t ! i) ! k)) r)"
proof -
  let ?es = "bd_entries (backups t ! i)"
  have es: "strictly_sorted ?es" "list_all (\<lambda>x. number (be_digits x)) ?es"
    using entries_ok_nth[OF assms(1,2)] by (simp_all add: entries_ok_def)
  have only: "b = backups t ! i" if "b \<in> set (backups t)" "bd_dir b = dir_of p" for b
    using that assms(1-3) by (auto simp: cache_ok_def in_set_conv_nth distinct_conv_nth) (metis nth_map length_map)
  have found: "map_option (\<lambda>k. be_digits (?es ! k)) r = Some (be_digits e)"
    if e: "e \<in> set ?es" "be_base e = base_of p" for e
  proof -
    obtain k where k: "k < length ?es" "?es ! k = e" using e(1) by (meson in_set_conv_nth)
    then have "backup_find ?es p = Some k" using backup_find_iff[OF es(1)] e(2) by simp
    then show ?thesis using assms(4) k by auto
  qed
  have "number d" if "map_option (\<lambda>k. be_digits (?es ! k)) r = Some d" for d
    using that assms(4) backup_find_iff[OF es(1), of p] es(2) by (auto simp: list_all_length)
  then show ?thesis using only found by (auto simp: best_of_def)
qed

definition best_post :: "path \<Rightarrow> int \<times> string option \<Rightarrow> 'w pst \<Rightarrow> bool" where
  "best_post p r t \<longleftrightarrow> cache_ok t \<and>
     (if fst r = 0 then best_of t p (snd r)
      else run_status t = Running \<longrightarrow> errno t = ENOMEM \<or> best_of t p None)"

lemma backup_best_ok:
  assumes "memory_errno E" "cache_ok s"
  shows "wp (backup_best E p) (best_post p) s"
  unfolding backup_best_def wp_bind
proof (rule wp_mono[OF backup_dir_get_ok[OF assms]])
  fix b and t :: "'a pst"
  assume b: "get_post p b t"
  show "wp (case b of
       None \<Rightarrow> return (-1, None)
     | Some i \<Rightarrow> do {
         bs \<leftarrow> gets backups;
         case backup_find (bd_entries (bs ! i)) p of
           None \<Rightarrow> return (0, None)
         | Some k \<Rightarrow> do {
             got \<leftarrow> alloc E;
             return (if got then (0, Some (be_digits (bd_entries (bs ! i) ! k))) else (-1, None)) } }) (best_post p) t"
  proof (cases b)
    case None
    then show ?thesis using b by (simp add: get_post_def best_post_def)
  next
    case (Some i)
    then have i: "cache_ok t" "i < length (backups t)" "bd_dir (backups t ! i) = dir_of p"
      using b by (simp_all add: get_post_def)
    show ?thesis
      using Some best_of_found[OF i refl] i(1)
      by (auto split: option.split intro!: wp_alloc_backups[OF assms(1)]
          simp: best_post_def cache_ok_cong best_of_cong)
  qed
qed

subsection \<open>The next number\<close>

lemma digits_inc_ok:
  assumes "memory_errno E"
  shows "wp (digits_inc E d) (\<lambda>r t. backups t = backups s \<and> run_status t = run_status s \<and> (\<forall>x. r = Some x \<longrightarrow> x = next_digits d)) s"
  by (auto simp: digits_inc_def next_digits_def split: prod.split intro!: wp_alloc_backups[OF assms])

text \<open>Above every number the cache has for the file.\<close>

definition above_all :: "'w pst \<Rightarrow> path \<Rightarrow> string \<Rightarrow> bool" where
  "above_all t p x \<longleftrightarrow> number x \<and>
     (\<forall>b \<in> set (backups t). bd_dir b = dir_of p \<longrightarrow>
        (\<forall>e \<in> set (bd_entries b). be_base e = base_of p \<longrightarrow> digits_val 10 (be_digits e) < digits_val 10 x))"

lemma above_next: "best_of t p (Some d) \<Longrightarrow> above_all t p (next_digits d)"
  using next_digits_number[of d] by (auto simp: best_of_def above_all_def)

lemma above_first: "best_of t p None \<Longrightarrow> above_all t p ''1''"
  by (auto simp: best_of_def above_all_def number_def isdigit_def)

lemma above_cong: "backups t = backups s \<Longrightarrow> above_all s p x \<Longrightarrow> above_all t p x"
  by (simp add: above_all_def)

lemma first_backup_exists_ok:
  assumes "memory_errno E"
  shows "wp (first_backup_exists E p) (\<lambda>_ t. backups t = backups s \<and> run_status t = run_status s) s"
  by (auto simp: first_backup_exists_def backup_name_def wp_alloc wp_sys wp_sys_ok)

text \<open>The last steps of \<^verbatim>\<open>backup_next\<close>: one more than the best number, or the first.\<close>

lemma next_step_ok:
  assumes "memory_errno E" "cache_ok s" "run_status s = Running \<longrightarrow> best_of s p best"
  shows "wp (case best of
       None \<Rightarrow> do { got \<leftarrow> alloc E; return (if got then (0, Some ''1'') else (-1, None)) }
     | Some d \<Rightarrow> do { d' \<leftarrow> digits_inc E d; return (case d' of None \<Rightarrow> (-1, None) | Some x \<Rightarrow> (0, Some x)) })
     (\<lambda>r t. cache_ok t \<and> (\<forall>x. run_status t = Running \<and> fst r = (0 :: int) \<and> snd r = Some x \<longrightarrow> above_all t p x)) s"
proof (cases best)
  case None
  then show ?thesis
    using assms above_first[of s p]
    by (auto intro!: wp_alloc_backups[OF assms(1)] simp: cache_ok_cong intro: above_cong)
next
  case (Some d)
  show ?thesis
    unfolding Some option.case wp_bind
    by (rule wp_mono[OF digits_inc_ok[OF assms(1)]])
      (use assms Some above_next[of s p d] in \<open>auto simp: cache_ok_cong intro: above_cong split: option.splits\<close>)
qed

lemma backup_next_ok:
  assumes "memory_errno E" "cache_ok s"
  shows "wp (backup_next E p control)
     (\<lambda>r t. cache_ok t \<and> (\<forall>x. run_status t = Running \<and> fst r = 0 \<and> snd r = Some x \<longrightarrow> above_all t p x)) s"
proof (cases "control = ''simple'' \<or> control = ''never''")
  case True
  then show ?thesis using assms(2) by (auto simp: backup_next_def)
next
  case False
  let ?post = "\<lambda>r t. cache_ok t \<and> (\<forall>x. run_status t = Running \<and> fst r = (0 :: int) \<and> snd r = Some x \<longrightarrow> above_all t p x)"
  let ?wanted = "control = ''numbered'' \<or> control = ''t''"
  have exists: "wp (first_backup_exists E p) (\<lambda>n. wp (if \<not> n then return (0, None)
      else case None of
          None \<Rightarrow> do { got \<leftarrow> alloc E; return (if got then (0, Some ''1'') else (-1, None)) }
        | Some d \<Rightarrow> do { d' \<leftarrow> digits_inc E d; return (case d' of None \<Rightarrow> (-1, None) | Some x \<Rightarrow> (0, Some x)) }) ?post) u"
    if "cache_ok u" "run_status u = Running \<longrightarrow> best_of u p None" for u :: "'a pst"
    by (rule wp_mono[OF first_backup_exists_ok[OF assms(1)]])
      (use that next_step_ok[OF assms(1), of _ p None] in \<open>auto simp: cache_ok_cong best_of_cong\<close>)
  show ?thesis
    unfolding backup_next_def wp_bind Let_def if_not_P[OF False]
  proof (rule wp_mono[OF backup_best_ok[OF assms]])
    fix r and t :: "'a pst"
    assume r: "best_post p r t"
    then show "wp get_errno (\<lambda>e. wp (case r of (ret, best) \<Rightarrow>
          if ret \<noteq> 0 \<and> e \<noteq> EACCES \<and> e \<noteq> EPERM then return (-1, None)
          else do {
            numbered \<leftarrow> (if ret \<noteq> 0
              then (if ?wanted then return True else first_backup_exists E p)
              else return (?wanted \<or> best \<noteq> None));
            if \<not> numbered then return (0, None)
            else case (if ret \<noteq> 0 then None else best) of
                None \<Rightarrow> do { got \<leftarrow> alloc E; return (if got then (0, Some ''1'') else (-1, None)) }
              | Some d \<Rightarrow> do { d' \<leftarrow> digits_inc E d; return (case d' of None \<Rightarrow> (-1, None) | Some x \<Rightarrow> (0, Some x)) } }) ?post) t"
      using exists[of t] next_step_ok[OF assms(1), of t p None] next_step_ok[OF assms(1), of t p "snd r"]
      by (cases r) (auto simp: best_post_def simp del: wp_case_option split: if_splits)
  qed
qed


text \<open>A cache that has the second backup of \<^verbatim>\<open>x\<close> in the working directory.\<close>

definition cached :: "fs pst" where
  "cached = (start (empty_fs True True))
     \<lparr>backups := [\<lparr>bd_dir = ''.'', bd_entries = [\<lparr>be_base = ''x'', be_digits = ''2''\<rparr>]\<rparr>]\<rparr>"

lemma cached_ok: "memory_errno sim_env \<and> cache_ok cached"
  by (simp add: memory_errno_def sim_env_def cached_def cache_ok_def entries_ok_def number_def isdigit_def)


subsection \<open>The cache stays in order\<close>

lemma same_backups_sys: "keeps (\<lambda>s. backups s = B) (sys E c)"
  by (simp add: keeps_wp wp_sys)

lemma same_backups_modify: "(\<And>s. backups (f s) = backups s) \<Longrightarrow> keeps (\<lambda>s. backups s = B) (modify f)"
  by (rule keeps_modify) simp

interpretation same_backups: kept_dirs "\<lambda>s. backups s = B" E for B E
  by unfold_locales
    (simp_all add: same_backups_sys same_backups_modify put_stdout_def put_stderr_def out_of_fuel_def exit_def)

interpretation same_backups: kept_calls "\<lambda>s. backups s = B" E for B E
  by unfold_locales (simp_all add: same_backups_sys same_backups_modify same_backups.v_flush_set_run)

lemma backup_note_ok:
  assumes "memory_errno E" "cache_ok s" "number d"
  shows "wp (backup_note E p d) (\<lambda>_. cache_ok) s"
  unfolding backup_note_def wp_bind
proof (rule wp_mono[OF backup_dir_get_ok[OF assms(1,2)]])
  fix b and t :: "'a pst"
  assume b: "get_post p b t"
  show "wp (case b of
       None \<Rightarrow> return ()
     | Some i \<Rightarrow> do {
         copied \<leftarrow> alloc E;
         if \<not> copied then return ()
         else do {
           bs \<leftarrow> gets backups;
           let es = bd_entries (bs ! i);
           case backup_find es p of
             Some k \<Rightarrow>
               whenM (0 < digits_cmp d (be_digits (es ! k)))
                 (set_entries i (es[k := (es ! k)\<lparr>be_digits := d\<rparr>]))
           | None \<Rightarrow> do {
               base_ok \<leftarrow> alloc E;
               grown_ok \<leftarrow> alloc E;
               whenM (base_ok \<and> grown_ok)
                 (set_entries i (insert_entry \<lparr>be_base = base_of p, be_digits = d\<rparr> es)) } } }) (\<lambda>_. cache_ok) t"
  proof (cases b)
    case None
    then show ?thesis using b by (simp add: get_post_def)
  next
    case (Some i)
    then have t: "cache_ok t" "i < length (backups t)" using b by (simp_all add: get_post_def)
    let ?es = "bd_entries (backups t ! i)"
    have es: "entries_ok ?es" "strictly_sorted ?es" using entries_ok_nth[OF t] by (simp_all add: entries_ok_def)
    have set: "cache_ok (backups_update (\<lambda>bs. bs[i := (bs ! i)\<lparr>bd_entries := es'\<rparr>]) u)"
      if "backups u = backups t" "entries_ok es'" for u :: "'a pst" and es'
      using that t(1) by (intro cache_ok_set_entries) (auto intro: cache_ok_cong)
    have new: "entries_ok (insert_entry \<lparr>be_base = base_of p, be_digits = d\<rparr> ?es)" if "backup_find ?es p = None"
      using that es assms(3) backup_find_None[OF es(2), of p] by (intro insert_entry_ok) auto
    have old: "entries_ok (?es[k := (?es ! k)\<lparr>be_digits := d\<rparr>])" if "backup_find ?es p = Some k" for k
      using that es assms(3) backup_find_iff[OF es(2), of p] by (intro entries_ok_update) auto
    show ?thesis
      using Some t(1) set new old
      by (auto simp: Let_def set_entries_def cache_ok_cong split: option.split intro!: wp_alloc_backups[OF assms(1)])
  qed
qed

lemma backup_link_ok:
  "wp (backup_link E p name st)
     (\<lambda>r t. backups t = backups s \<and> run_status t = run_status s \<and> (r \<longrightarrow> run_status s = Running)) s"
  by (auto simp: backup_link_def pending_hold_def pending_release_def sys_quiet_def pending_arm_def wp_calls)

lemma backup_numbered_ok:
  assumes "memory_errno E" "cache_ok s" "run_status s = Running \<longrightarrow> number d"
  shows "wp (backup_numbered E n p st d) (\<lambda>_. cache_ok) s"
  using assms(2,3)
proof (induction n arbitrary: d s)
  case 0
  then show ?case by (simp add: out_of_fuel_def cache_ok_def)
next
  case (Suc n)
  have link: "wp (backup_link E p nm st) (\<lambda>linked. wp (if linked then do {
         backup_note E p d;
         return (Some nm) }
       else do {
         e \<leftarrow> get_errno;
         if e \<noteq> EEXIST then return None
         else do {
           d' \<leftarrow> digits_inc E d;
           case d' of
             None \<Rightarrow> return None
           | Some d \<Rightarrow> backup_numbered E n p st d } }) (\<lambda>_. cache_ok)) u"
    if u: "cache_ok u" "run_status u = Running \<longrightarrow> number d" for u :: "'a pst" and nm
  proof (rule wp_mono[OF backup_link_ok])
    fix linked and t :: "'a pst"
    assume t: "backups t = backups u \<and> run_status t = run_status u \<and> (linked \<longrightarrow> run_status u = Running)"
    then have ok: "cache_ok t" using u(1) by (auto intro: cache_ok_cong)
    have again: "wp (digits_inc E d) (\<lambda>d'. wp (case d' of
             None \<Rightarrow> return None
           | Some d \<Rightarrow> backup_numbered E n p st d) (\<lambda>_. cache_ok)) t"
    proof (rule wp_mono[OF digits_inc_ok[OF assms(1)]])
      fix d' and v :: "'a pst"
      assume v: "backups v = backups t \<and> run_status v = run_status t \<and> (\<forall>x. d' = Some x \<longrightarrow> x = next_digits d)"
      then have "cache_ok v" using ok by (auto intro: cache_ok_cong)
      then show "wp (case d' of None \<Rightarrow> return None | Some d \<Rightarrow> backup_numbered E n p st d) (\<lambda>_. cache_ok) v"
        using v t u(2) next_digits_number[of d] Suc.IH[of v "next_digits d"] by (cases d') simp_all
    qed
    show "wp (if linked then do {
         backup_note E p d;
         return (Some nm) }
       else do {
         e \<leftarrow> get_errno;
         if e \<noteq> EEXIST then return None
         else do {
           d' \<leftarrow> digits_inc E d;
           case d' of
             None \<Rightarrow> return None
           | Some d \<Rightarrow> backup_numbered E n p st d } }) (\<lambda>_. cache_ok) t"
      using again ok t u(2) backup_note_ok[OF assms(1) ok] by (cases linked) auto
  qed
  show ?case
    unfolding backup_numbered.simps backup_name_def wp_bind
    by (rule wp_alloc_backups[OF assms(1)]) (use Suc.prems link in \<open>auto simp: cache_ok_cong\<close>)
qed

lemma cache_ok_same: "(\<And>B. keeps (\<lambda>s. backups s = B) m) \<Longrightarrow> cache_ok s \<Longrightarrow> wp m (\<lambda>_. cache_ok) s"
  by (rule wp_mono[OF keeps_wpD[of "\<lambda>t. backups t = backups s"]]) (auto intro: cache_ok_cong)

lemma backup_make_cache:
  assumes "memory_errno E"
  shows "keeps cache_ok (backup_make E p c)"
proof (rule keeps_wpI)
  fix s :: "'a pst"
  assume s: "cache_ok s"
  have simple: "wp (backup_simple E p st) (\<lambda>_. cache_ok) u"
    if "cache_ok u" for st and u :: "'a pst"
    using cache_ok_same[OF same_backups.v_backup_simple[OF TrueI] that] by simp
  have numbered: "wp (backup_numbered E n p st d) (\<lambda>_. cache_ok) u"
    if "cache_ok u" "run_status u = Running \<longrightarrow> number d" for n st d and u :: "'a pst"
    using backup_numbered_ok[OF assms that] by simp
  have next_ok: "wp (backup_next E p c) (\<lambda>r. wp (case r of (ret, digits) \<Rightarrow>
      if ret \<noteq> 0 then return (-1, None, st)
      else case digits of
          None \<Rightarrow> do { q \<leftarrow> backup_simple E p st; return (fst q, snd q, st) }
        | Some d \<Rightarrow> do {
            nm \<leftarrow> backup_numbered E (fuel E) p st d;
            return (if nm = None then -1 else 0, nm, st) }) (\<lambda>_. cache_ok)) u"
    if "cache_ok u" for st and u :: "'a pst"
    by (rule wp_mono[OF backup_next_ok[OF assms that]])
      (use simple numbered in \<open>auto simp: above_all_def split: option.split\<close>)
  have called: "cache_ok (called E c' u) = cache_ok u" for c' and u :: "'a pst" by (simp add: cache_ok_def)
  show "wp (backup_make E p c) (\<lambda>_. cache_ok) s"
    using s next_ok
    by (auto simp: backup_make_def wp_calls called split: option.split) (auto simp: cache_ok_def)
qed

lemma cache_ok_modify: "(\<And>s. backups (f s) = backups s) \<Longrightarrow> keeps cache_ok (modify f)"
  by (rule keeps_modify) (auto intro: cache_ok_cong)

lemma cache_ok_sys: "keeps cache_ok (sys E c)"
  by (simp add: keeps_wp wp_sys) (simp add: cache_ok_def)

interpretation cache: kept_dirs cache_ok E for E
  by unfold_locales
    (simp_all add: cache_ok_sys cache_ok_modify put_stdout_def put_stderr_def out_of_fuel_def exit_def)

interpretation cache: kept_calls cache_ok E for E
  by unfold_locales (simp_all add: cache_ok_sys cache_ok_modify cache.v_flush_set_run)

lemma cache_kept: "memory_errno E \<Longrightarrow> kept cache_ok E True"
  by unfold_locales
    (simp_all add: cache_ok_sys cache.v_flush_set_add cache.v_dirs_max flush_set_init_def cache.v_flush_set_forget
      cache.v_flush_stop cache.v_place_probe_mode cache.v_probes place_probe_reset_def backup_make_cache
      keeps_modify backup_cache_reset_def cache_ok_def cache.c_spool_open)

text \<open>
  C12. Naming the files of a batch keeps the cache in order: each directory has at most one list,
  each list is strictly sorted by base, as the binary search and the insertion need it, and holds
  numbers from 1 up without leading zeros.
\<close>

theorem naming_keeps_cache:
  assumes "memory_errno E" "cache_ok s" "length ops \<le> NEWFILE_BATCH"
  shows "cache_ok (snd (run_state (name_all E spec 0 ops) s))"
proof -
  have "keeps cache_ok (name_all E spec 0 ops)"
    by (rule kept.k_name_all[OF cache_kept[OF assms(1)]]) (use assms(3) in \<open>simp_all add: slot_bounds\<close>)
  then show ?thesis using assms(2) by (simp add: keeps_def)
qed

theorem naming_keeps_cache_witness:
  "cache_ok (snd (run_state (name_all sim_env (fst spec_reset) 0 [new_op ''x'']) cached))"
  using naming_keeps_cache[of sim_env cached "[new_op ''x'']"] cached_ok by (simp add: NEWFILE_BATCH_def)

end
