(* ===== verification/Bounds.thy ===== *)
theory Bounds
  imports Backup_Cache
begin

text \<open>
  The arrays of the program are never overrun: the directories to flush, their failures, the probes,
  the cached listings and the threads stay within their fixed sizes, and no slot beyond the table of
  pending names is used, in any run and whatever the system answers.
\<close>

definition tables_ok :: "'w pst \<Rightarrow> bool" where
  "tables_ok s \<longleftrightarrow>
     length (dirs s) \<le> dirs_max s \<and> 1 \<le> dirs_max s \<and> dirs_max s \<le> NEWFILE_BATCH \<and>
     length (failures s) \<le> NEWFILE_BATCH \<and> length (probes s) \<le> NEWFILE_BATCH \<and>
     length (backups s) \<le> NEWFILE_BATCH \<and> nworkers s \<le> NEWFILE_BATCH \<and>
     (\<forall>i \<ge> PENDING_SLOTS. pn_path (pending s i) = None)"

lemma tables_called: "tables_ok (called E c s) = tables_ok s"
  by (simp add: tables_ok_def)

lemma tables_sys: "keeps tables_ok (sys E c)"
  by (simp add: keeps_wp wp_sys tables_called)

text \<open>A change of the other variables.\<close>

lemma tables_modify:
  "(\<And>s. dirs (f s) = dirs s \<and> dirs_max (f s) = dirs_max s \<and> failures (f s) = failures s \<and> probes (f s) = probes s \<and>
      backups (f s) = backups s \<and> nworkers (f s) = nworkers s \<and> pending (f s) = pending s) \<Longrightarrow>
   keeps tables_ok (modify f)"
  by (rule keeps_modify) (simp add: tables_ok_def)

interpretation tables: kept_sys tables_ok E for E
  by unfold_locales (simp_all add: tables_sys tables_modify put_stdout_def put_stderr_def out_of_fuel_def exit_def)

lemma tables_spool_open: "keeps tables_ok (spool_open E)"
  unfolding spool_open_def by (intro keeps_rules tables_sys)

interpretation tables: kept_data tables_ok E for E
  by unfold_locales (simp_all add: tables_sys tables_spool_open)

subsection \<open>Threads and directories\<close>

lemma grow_loop_bound:
  "tables_ok s \<Longrightarrow> nworkers s + n \<le> NEWFILE_BATCH \<Longrightarrow> wp (grow_loop E n) (\<lambda>_. tables_ok) s"
  by (induction n arbitrary: s) (auto simp: sys_quiet_def wp_calls tables_ok_def)

lemma tables_flush_grow: "want \<le> NEWFILE_BATCH \<Longrightarrow> keeps tables_ok (flush_grow E want)"
proof (rule keeps_wpI)
  fix s :: "'a pst"
  assume s: "tables_ok s" and want: "want \<le> NEWFILE_BATCH"
  have mask: "wp (do { _ \<leftarrow> sys_quiet E (C_sigmask old); modify (mask_update (\<lambda>_. old)) }) (\<lambda>_. tables_ok) u"
    if "tables_ok u" for old and u :: "'a pst"
    using that by (simp add: sys_quiet_def wp_calls tables_ok_def)
  have grow: "wp (do { grow_loop E (want - nworkers s); _ \<leftarrow> sys_quiet E (C_sigmask old); modify (mask_update (\<lambda>_. old)) })
      (\<lambda>_. tables_ok) u" if "tables_ok u" "nworkers u = nworkers s" "nworkers s < want" for old and u :: "'a pst"
    using wp_mono[OF grow_loop_bound[OF that(1), of "want - nworkers s" E] mask] want that(2,3) by simp
  show "wp (flush_grow E want) (\<lambda>_. tables_ok) s"
    using s grow by (auto simp: flush_grow_def sys_quiet_def wp_calls tables_ok_def)
qed

lemma tables_dir_failed: "keeps tables_ok (dir_failed E name err known dev ino)"
  by (rule keeps_wpI) (auto simp: dir_failed_def error_print_def put_stderr_def wp_alloc wp_calls tables_ok_def)

text \<open>The directories that were opened are no more than those of the set.\<close>

lemma set_open_length: "wp (set_open E ds acc) (\<lambda>es _. length es \<le> length acc + length ds) s"
proof (induction ds arbitrary: acc s)
  case (Cons d ds)
  have IH: "wp (set_open E ds acc') (\<lambda>es _. length es \<le> Suc (length acc + length ds)) t"
    if "length acc' \<le> Suc (length acc)" for acc' and t :: "'a pst"
    by (rule wp_mono[OF Cons.IH]) (use that in simp)
  show ?case
    unfolding set_open.simps
    by (intro wp_bind_any) (auto intro!: wp_bind_any IH split: option.split simp del: wp_bind)
qed simp

lemma tables_set_open: "keeps tables_ok (set_open E ds acc)"
proof (induction ds arbitrary: acc)
  case (Cons d ds)
  then show ?case
    by (simp only: set_open.simps) (intro keeps_rules tables_dir_failed tables_sys; simp)
qed (simp add: keeps_return)

lemma tables_set_close: "keeps tables_ok (set_close E xs)"
proof (induction xs)
  case (Cons y xs)
  then show ?case
    by (cases y) (simp only: set_close.simps, (intro keeps_rules tables_dir_failed tables_sys; simp))
qed (simp add: keeps_return)

lemma tables_flush_fds: "length fds \<le> NEWFILE_BATCH \<Longrightarrow> keeps tables_ok (flush_fds E fds dir)"
  unfolding flush_fds_def flush_threaded_def
  by (intro keeps_rules keeps_bind_res[OF tables.k_flush_want flush_want_le] tables_flush_grow) simp_all

lemma tables_flush_set_run: "keeps tables_ok (flush_set_run E)"
proof (rule keeps_wpI)
  fix s :: "'a pst"
  assume s: "tables_ok s"
  have flush: "keeps tables_ok (do { errs \<leftarrow> flush_fds E (map od_fd entries) True; set_close E (zip entries errs) })"
    if "length entries \<le> length (dirs s)" for entries
    using that s by (intro keeps_bind tables_flush_fds tables_set_close) (simp_all add: tables_ok_def)
  have "wp (set_open E (dirs s) []) (\<lambda>es t. length es \<le> length (dirs s) \<and> tables_ok t) s"
    using wp_conj[OF set_open_length[of E "dirs s" "[]"] keeps_wpD[OF tables_set_open s]] by simp
  then have "wp (set_open E (dirs s) []) (\<lambda>es. wp (modify (dirs_update (\<lambda>_. []))) (\<lambda>_.
      wp (if es = [] then return () else do {
        errs \<leftarrow> flush_fds E (map od_fd es) True; set_close E (zip es errs) }) (\<lambda>_. tables_ok))) s"
  proof (rule wp_mono)
    fix es :: "open_dir_entry list" and t :: "'a pst"
    assume t: "length es \<le> length (dirs s) \<and> tables_ok t"
    then have "tables_ok (t\<lparr>dirs := []\<rparr>)" by (simp add: tables_ok_def)
    then show "wp (modify (dirs_update (\<lambda>_. []))) (\<lambda>_. wp (if es = [] then return () else do {
        errs \<leftarrow> flush_fds E (map od_fd es) True; set_close E (zip es errs) }) (\<lambda>_. tables_ok)) t"
      using keeps_wpD[OF flush[of es]] t by (cases "es = []") (simp_all del: wp_bind)
  qed
  then show "wp (flush_set_run E) (\<lambda>_. tables_ok) s"
    by (simp add: flush_set_run_def)
qed

lemma same_dirs_modify: "(\<And>s. dirs (f s) = dirs s) \<Longrightarrow> keeps (\<lambda>s. dirs s = D) (modify f)"
  by (rule keeps_modify) simp

interpretation same_dirs: kept_workers "\<lambda>s. dirs s = D" E for D E
  by unfold_locales
    (simp_all add: keeps_wp wp_sys same_dirs_modify put_stdout_def put_stderr_def out_of_fuel_def exit_def)

lemma flush_set_run_empty: "wp (flush_set_run E) (\<lambda>_ t. dirs t = []) s"
proof -
  have flush: "keeps (\<lambda>s. dirs s = []) (do { errs \<leftarrow> flush_fds E (map od_fd es) True; set_close E (zip es errs) })" for es
    by (intro keeps_bind same_dirs.v_flush_fds same_dirs.v_set_close)
  have tail: "wp (modify (dirs_update (\<lambda>_. []))) (\<lambda>_. wp (if es = [] then return () else do {
      errs \<leftarrow> flush_fds E (map od_fd es) True; set_close E (zip es errs) }) (\<lambda>_ t. dirs t = [])) t" for es and t :: "'a pst"
    using keeps_wpD[OF flush] by (cases "es = []") (simp_all del: wp_bind)
  show ?thesis
    unfolding flush_set_run_def by (rule wp_bind_any, rule wp_bind_any) (unfold wp_bind, rule tail[unfolded wp_bind])
qed

lemma tables_flush_dir: "keeps tables_ok (flush_dir E d)"
  unfolding flush_dir_def by (intro keeps_rules tables_flush_fds tables_sys; simp add: NEWFILE_BATCH_def)

lemma tables_flush_set_add: "keeps tables_ok (flush_set_add E d)"
proof (rule keeps_wpI)
  fix s :: "'a pst"
  assume s: "tables_ok s"
  have fallback: "keeps tables_ok (do { ret \<leftarrow> flush_dir E d; e \<leftarrow> get_errno; whenM (ret \<noteq> 0) (dir_failed E d e False 0 0) })"
    by (intro keeps_rules tables_flush_dir tables_dir_failed)
  have add: "wp (do {
      got \<leftarrow> alloc E;
      if \<not> got then do { ret \<leftarrow> flush_dir E d; e \<leftarrow> get_errno; whenM (ret \<noteq> 0) (dir_failed E d e False 0 0) }
      else modify (dirs_update (\<lambda>ds. ds @ [d])) }) (\<lambda>_. tables_ok) t"
    if t: "tables_ok t" "length (dirs t) < dirs_max t" for t :: "'a pst"
  proof -
    have "tables_ok (dirs_update (\<lambda>ds. ds @ [d]) u)" if "tables_ok u" "length (dirs u) < dirs_max u" for u :: "'a pst"
      using that by (simp add: tables_ok_def)
    then show ?thesis
      using t keeps_wpD[OF fallback, of t] keeps_wpD[OF fallback, of "called E C_memory t"]
      by (simp add: wp_alloc wp_sys tables_called)
  qed
  have run: "wp (flush_set_run E) (\<lambda>_ t. tables_ok t \<and> length (dirs t) < dirs_max t) s"
    by (rule wp_mono[OF wp_conj[OF flush_set_run_empty keeps_wpD[OF tables_flush_set_run s]]]) (simp add: tables_ok_def)
  have "wp (flush_set_run E) (\<lambda>_. wp (do {
      got \<leftarrow> alloc E;
      if \<not> got then do { ret \<leftarrow> flush_dir E d; e \<leftarrow> get_errno; whenM (ret \<noteq> 0) (dir_failed E d e False 0 0) }
      else modify (dirs_update (\<lambda>ds. ds @ [d])) }) (\<lambda>_. tables_ok)) s"
    by (rule wp_mono[OF run]) (rule add, auto)
  moreover have "length (dirs s) \<noteq> dirs_max s \<Longrightarrow> length (dirs s) < dirs_max s" using s by (simp add: tables_ok_def)
  ultimately show "wp (flush_set_add E d) (\<lambda>_. tables_ok) s"
    using s add[OF s] unfolding flush_set_add_def wp_bind wp_gets wp_if wp_whenM wp_return by simp
qed

interpretation tables: kept_flush tables_ok E for E
  by unfold_locales (simp_all add: tables_flush_grow tables_dir_failed tables_flush_set_run)

subsection \<open>Names, probes and listings\<close>

lemma tables_pending: "(\<And>t. \<forall>i \<ge> PENDING_SLOTS. pn_path (t i) = None \<Longrightarrow> \<forall>i \<ge> PENDING_SLOTS. pn_path (f t i) = None) \<Longrightarrow>
    keeps tables_ok (modify (pending_update f))"
  by (rule keeps_modify) (simp add: tables_ok_def)

lemma tables_arm: "slot < PENDING_SLOTS \<Longrightarrow> keeps tables_ok (pending_arm slot p st)"
  unfolding pending_arm_def by (rule tables_pending) auto

lemma tables_retarget: "keeps tables_ok (pending_retarget slot st)"
  unfolding pending_retarget_def by (rule tables_pending) auto

lemma tables_clear: "keeps tables_ok (pending_clear slot)"
  unfolding pending_clear_def by (rule tables_pending) auto

lemma tables_remove_ours: "keeps tables_ok (remove_ours E p d i)"
  unfolding remove_ours_def by (intro keeps_rules tables_sys)

lemma tables_create_excl: "keeps tables_ok (create_excl E p m)"
  unfolding create_excl_def by (intro keeps_rules tables_sys)

lemma tables_pending_remove: "keeps tables_ok (pending_remove E slot)"
  unfolding pending_remove_def by (intro keeps_rules tables_remove_ours tables_clear)

lemma tables_place_over: "keeps tables_ok (place_over E tmp target slot)"
  unfolding place_over_def over_created_def pending_unlink_def
  by (intro keeps_rules tables_create_excl tables_remove_ours tables_clear tables_sys)

interpretation tables: kept_names tables_ok E for E
  by unfold_locales
    (simp_all add: tables_arm tables_retarget tables_clear tables_create_excl tables_pending_remove tables_place_over
      tables_sys)

lemma tables_probe_mode: "slot < PENDING_SLOTS \<Longrightarrow> keeps tables_ok (place_probe_mode E p m slot)"
proof -
  assume slot: "slot < PENDING_SLOTS"
  have keep: "keeps tables_ok (do {
      n \<leftarrow> gets (\<lambda>s. length (probes s));
      whenM (n < NEWFILE_BATCH) (modify (probes_update (\<lambda>ps. ps @ [x])));
      return y })" for x and y :: "int \<times> mode_t"
    by (rule keeps_wpI) (auto simp: tables_ok_def)
  show ?thesis
    unfolding place_probe_mode_def
    by (intro keeps_rules keep tables_sys tables_pending_remove slot; simp)
qed

lemma tables_backup_dir_get: "keeps tables_ok (backup_dir_get E p)"
proof (rule keeps_wpI)
  fix s :: "'a pst"
  assume s: "tables_ok s"
  have new: "wp (backup_dir_list E dir)
      (case_option tables_ok (\<lambda>es s. tables_ok (backups_update (\<lambda>bs. bs @ [\<lparr>bd_dir = dir, bd_entries = es\<rparr>]) s))) t"
    if t: "tables_ok t" "length (backups t) < NEWFILE_BATCH" for dir and t :: "'a pst"
    by (rule wp_mono[OF wp_conj[OF backup_dir_list_ok keeps_wpD[OF tables.k_backup_dir_list t(1)]]])
      (use t(2) in \<open>auto simp: tables_ok_def split: option.split\<close>)
  have "tables_ok (t\<lparr>backups := []\<rparr>)" if "tables_ok t" for t :: "'a pst" using that by (simp add: tables_ok_def)
  moreover have "length (backups t) < NEWFILE_BATCH" if "tables_ok t" "length (backups t) \<noteq> NEWFILE_BATCH" for t :: "'a pst"
    using that by (simp add: tables_ok_def)
  ultimately show "wp (backup_dir_get E p) (\<lambda>_. tables_ok) s"
    using s new
    by (auto simp: backup_dir_get_def path_dir_def wp_alloc wp_sys tables_called backup_cache_reset_def NEWFILE_BATCH_def
        split: option.split)
qed

lemma tables_set_entries: "keeps tables_ok (set_entries i es)"
  unfolding set_entries_def by (rule keeps_modify) (simp add: tables_ok_def)

interpretation tables: kept_backup tables_ok E True for E
  by unfold_locales (simp_all add: tables_sys tables_backup_dir_get tables_set_entries)

lemma tables_flush_stop: "keeps tables_ok (flush_stop E)"
proof -
  have join: "keeps tables_ok (join_workers E n)" for n
    by (induction n) (simp_all add: keeps_return, (intro keeps_rules tables_sys; simp))
  have stop: "keeps tables_ok (modify (nworkers_update (\<lambda>_. 0)))" by (rule keeps_modify) (simp add: tables_ok_def)
  have grow: "keeps tables_ok (modify (grow_failed_update f))" for f by (rule tables_modify) simp
  show ?thesis unfolding flush_stop_def by (intro keeps_rules join stop grow)
qed

lemma tables_resets:
  "keeps tables_ok flush_set_forget" "keeps tables_ok place_probe_reset" "keeps tables_ok backup_cache_reset"
  by (simp_all add: keeps_wp flush_set_forget_def place_probe_reset_def backup_cache_reset_def tables_ok_def)

interpretation tables: kept_build tables_ok E True for E
  by unfold_locales
    (simp_all add: tables_sys tables_flush_set_add tables_resets tables_flush_stop tables_probe_mode tables.b_backup_make)

subsection \<open>The whole run\<close>



lemma same_dirs_sys: "keeps (\<lambda>s. dirs s = D) (sys E c)"
  by (simp add: keeps_wp wp_sys)

lemma same_dirs_spool_open: "keeps (\<lambda>s. dirs s = D) (spool_open E)"
  unfolding spool_open_def by (intro keeps_rules same_dirs_sys)

interpretation same_dirs: kept_data "\<lambda>s. dirs s = D" E for D E
  by unfold_locales (simp_all add: same_dirs_sys same_dirs_spool_open)





end
