(* ===== verification/Gives.thy ===== *)
theory Gives
  imports Kept
begin

text \<open>
  Programs with what they start from and what they give: the rules by which a statement about the result of a
  program follows from those about its steps.
\<close>

definition gives :: "('s \<Rightarrow> bool) \<Rightarrow> ('s, 'a) state \<Rightarrow> ('a \<Rightarrow> 's \<Rightarrow> bool) \<Rightarrow> bool" where
  "gives P m Q \<longleftrightarrow> (\<forall>s. P s \<longrightarrow> wp m Q s)"

lemma gives_bind: "gives P m R \<Longrightarrow> (\<And>x. gives (R x) (f x) Q) \<Longrightarrow> gives P (State_Monad.bind m f) Q"
  unfolding gives_def using wp_bindI by metis

lemma gives_keep: "keeps P m \<Longrightarrow> (\<And>x. gives P (f x) Q) \<Longrightarrow> gives P (State_Monad.bind m f) Q"
  unfolding gives_def keeps_wp using wp_bindI by metis

lemma gives_skip: "(\<And>x. gives (\<lambda>_. True) (f x) Q) \<Longrightarrow> gives P (State_Monad.bind m f) Q"
  unfolding gives_def by (simp add: wp_bind_any del: wp_bind)

lemma gives_return: "(\<And>s. P s \<Longrightarrow> Q x s) \<Longrightarrow> gives P (State_Monad.return x) Q"
  by (simp add: gives_def)

lemma gives_if: "(b \<Longrightarrow> gives P m Q) \<Longrightarrow> (\<not> b \<Longrightarrow> gives P n Q) \<Longrightarrow> gives P (if b then m else n) Q"
  by simp

lemma gives_case_option:
  "(x = None \<Longrightarrow> gives P m Q) \<Longrightarrow> (\<And>y. x = Some y \<Longrightarrow> gives P (f y) Q) \<Longrightarrow>
     gives P (case x of None \<Rightarrow> m | Some y \<Rightarrow> f y) Q"
  by (cases x) simp_all

lemma gives_case_prod: "(\<And>a b. x = (a, b) \<Longrightarrow> gives P (f a b) Q) \<Longrightarrow> gives P (case x of (a, b) \<Rightarrow> f a b) Q"
  by (cases x) simp

lemma gives_Let: "(\<And>y. y = x \<Longrightarrow> gives P (f y) Q) \<Longrightarrow> gives P (let y = x in f y) Q"
  by simp

lemma gives_mono: "gives P m Q \<Longrightarrow> (\<And>x s. Q x s \<Longrightarrow> R x s) \<Longrightarrow> gives P m R"
  unfolding gives_def by (blast intro: wp_mono)

lemma gives_weaken: "gives P m Q \<Longrightarrow> (\<And>s. R s \<Longrightarrow> P s) \<Longrightarrow> gives R m Q"
  unfolding gives_def by blast

lemma gives_conj: "gives P m Q \<Longrightarrow> gives P m R \<Longrightarrow> gives P m (\<lambda>x s. Q x s \<and> R x s)"
  unfolding gives_def by (blast intro: wp_conj)

lemma gives_keeps: "keeps P m \<Longrightarrow> gives P m (\<lambda>_. P)"
  by (simp add: gives_def keeps_wp)

lemma gives_any: "(\<And>x s. Q x s) \<Longrightarrow> gives P m Q"
  by (simp add: gives_def wp_any)

lemma gives_assume: "(\<And>s. P s \<Longrightarrow> gives P m Q) \<Longrightarrow> gives P m Q"
  by (auto simp: gives_def)

lemmas gives_rules = gives_return gives_if gives_case_option gives_case_prod gives_Let

lemma gives_fact: "(b \<Longrightarrow> gives P m Q) \<Longrightarrow> gives (\<lambda>s. b \<and> P s) m Q"
  by (auto simp: gives_def)

lemma keeps_gives: "keeps I m \<longleftrightarrow> gives I m (\<lambda>_. I)"
  by (simp add: keeps_wp gives_def)

text \<open>Of a run that has ended nothing is to be shown.\<close>

lemma gives_running:
  assumes "\<And>s. P s \<Longrightarrow> run_status s = Running \<Longrightarrow> wp m Q s" "\<And>tr. keeps (ended tr) m"
    and "\<And>x s. run_status s \<noteq> Running \<Longrightarrow> Q x s"
  shows "gives P m Q"
  unfolding gives_def
proof (intro allI impI)
  fix s
  assume s: "P s"
  show "wp m Q s"
  proof (cases "run_status s = Running")
    case False
    then have "ended (trace s) s" by (simp add: ended_def)
    from keeps_wpD[OF assms(2) this] show ?thesis by (rule wp_mono) (use assms(3) in \<open>simp add: ended_def\<close>)
  qed (use assms(1) s in simp)
qed

lemma wp_gives_bind: "wp m (\<lambda>_. P) s \<Longrightarrow> (\<And>x. gives P (f x) Q) \<Longrightarrow> wp (State_Monad.bind m f) Q s"
  unfolding gives_def using wp_bindI by metis

end
