(* ===== verification/Seen.thy ===== *)
theory Seen
  imports Gives
begin

text \<open>
  Facts of the record of calls since a moment, which once they hold are carried through the rest of the
  program by the locales of \<open>Kept\<close>.
\<close>

text \<open>\<open>q\<close> held, at some moment, of the calls made since the record was \<open>b\<close>; or the run has ended early.\<close>

definition seen :: "event list \<Rightarrow> (event list \<Rightarrow> bool) \<Rightarrow> 'w pst \<Rightarrow> bool" where
  "seen b q s \<longleftrightarrow> run_status s \<noteq> Running \<or> (\<exists>later tr. trace s = later @ tr @ b \<and> q tr)"

lemma seen_modify:
  "(\<And>s. trace (f s) = trace s \<and> (run_status (f s) = Running \<longrightarrow> run_status s = Running)) \<Longrightarrow>
     keeps (seen b q) (modify f)"
  by (rule keeps_modify) (auto simp: seen_def)

lemma seen_sys: "keeps (seen b q) (sys E c)"
proof (rule keeps_wpI)
  fix s :: "'a pst"
  assume s: "seen b q s"
  have "seen b q (called E c s)" if run: "run_status s = Running"
  proof -
    obtain later tr where "trace s = later @ tr @ b" "q tr" using s run by (auto simp: seen_def)
    then have "trace (called E c s) = (hd (trace (called E c s)) # later) @ tr @ b \<and> q tr" by simp
    then show ?thesis unfolding seen_def by blast
  qed
  then show "wp (sys E c) (\<lambda>_. seen b q) s" using s by (simp add: wp_sys)
qed

interpretation seen: kept_dirs "seen b q" E for b q E
  by unfold_locales
    (simp_all add: seen_sys seen_modify put_stdout_def put_stderr_def out_of_fuel_def exit_def)

interpretation seen: kept_calls "seen b q" E for b q E
  by unfold_locales (simp_all add: seen_sys seen_modify seen.v_flush_set_run)

interpretation seen: kept_vars "seen b q" E True for b q E
  by unfold_locales (simp add: seen_modify)

definition grows :: "(event list \<Rightarrow> bool) \<Rightarrow> bool" where
  "grows q \<longleftrightarrow> (\<forall>e tr. q tr \<longrightarrow> q (e # tr))"

lemma grows_append: "grows q \<Longrightarrow> q tr \<Longrightarrow> q (l @ tr)"
  by (induction l) (auto simp: grows_def)

lemma seen_mono: "seen b q s \<Longrightarrow> (\<And>tr. q tr \<Longrightarrow> q' tr) \<Longrightarrow> seen b q' s"
  by (auto simp: seen_def)

lemma seen_now: "seen b q s \<Longrightarrow> run_status s = Running \<Longrightarrow> grows q \<Longrightarrow> \<exists>new. trace s = new @ b \<and> q new"
  unfolding seen_def by (metis append_assoc grows_append)

text \<open>A call whose reply is good makes a fact of the ones before it.\<close>

lemma sys_seen:
  assumes "grows q" and "\<And>e tr. ev_call e = c \<Longrightarrow> good (ev_reply e) \<Longrightarrow> q tr \<Longrightarrow> q' (ev_reply e) (e # tr)"
  shows "gives (seen b q) (sys E c) (\<lambda>r s. good r \<longrightarrow> seen b (q' r) s)"
  unfolding gives_def
proof (intro allI impI)
  fix s :: "'a pst"
  assume s: "seen b q s"
  let ?r = "fst (kern E c (world s))"
  show "wp (sys E c) (\<lambda>r s. good r \<longrightarrow> seen b (q' r) s) s"
  proof (cases "run_status s = Running")
    case True
    then obtain new where new: "trace s = new @ b" "q new" using seen_now[OF s True assms(1)] by blast
    let ?e = "\<lparr>ev_call = c, ev_reply = ?r, ev_mask = mask s, ev_pending = pending s\<rparr>"
    have "seen b (q' ?r) (called E c s)" if "good ?r"
    proof -
      have "trace (called E c s) = [] @ (?e # new) @ b \<and> q' ?r (?e # new)" using new that assms(2)[of ?e new] by simp
      then show ?thesis unfolding seen_def by blast
    qed
    then show ?thesis using True by (simp add: wp_sys)
  qed (simp add: wp_sys seen_def)
qed

text \<open>The same for a call by its C result.\<close>

lemma sys_ok_seen:
  assumes "grows q" and "\<And>e tr. ev_call e = c \<Longrightarrow> \<not> failed (ev_reply e) \<Longrightarrow> q tr \<Longrightarrow> q' (e # tr)"
  shows "gives (seen b q) (sys_ok E c) (\<lambda>done_ok s. done_ok \<longrightarrow> seen b q' s)"
  unfolding sys_ok_def
  by (rule gives_bind[OF sys_seen[where good = "\<lambda>r. \<not> failed r" and q' = "\<lambda>_. q'", OF assms]])
    (auto intro: gives_return)

lemma sys_int_seen:
  assumes "grows q" and "\<And>e tr. ev_call e = c \<Longrightarrow> reply_int (ev_reply e) \<noteq> -1 \<Longrightarrow> q tr \<Longrightarrow> q' (reply_int (ev_reply e)) (e # tr)"
  shows "gives (seen b q) (sys_int E c) (\<lambda>n s. n \<noteq> -1 \<longrightarrow> seen b (q' n) s)"
  unfolding sys_int_def
  by (rule gives_bind[OF sys_seen[where good = "\<lambda>r. reply_int r \<noteq> -1" and q' = "\<lambda>r. q' (reply_int r)", OF assms]])
    (auto intro: gives_return)

end
