(* ===== verification/Outcome.thy ===== *)
theory Outcome
  imports Safety Seen
begin

text \<open>
  What a batch has done for each file it does not report: it was created, flushed and given its name.
  The facts are read off the record of the calls; a fact that held of the record at some moment
  since a given one is carried through the rest of the program by the locales of \<open>Kept\<close>.
\<close>

subsection \<open>Files, their names and their flushes\<close>

text \<open>The file of the descriptor \<open>fd\<close> is created under the name \<open>p\<close>, or given that name; and it is flushed.\<close>

definition files :: "fd \<Rightarrow> path \<Rightarrow> event \<Rightarrow> bool" where
  "files fd p e \<longleftrightarrow> created p fd e \<or> (ev_call e = C_linkat (proc_fd_path fd) p \<and> \<not> failed (ev_reply e))"

text \<open>The creation of \<open>p\<close> with the mode \<open>m\<close> for \<^verbatim>\<open>open\<close>.\<close>

definition creates :: "fd \<Rightarrow> path \<Rightarrow> mode_t \<Rightarrow> event \<Rightarrow> bool" where
  "creates fd p m e \<longleftrightarrow> ev_call e = C_open p excl_flags m \<and> reply_int (ev_reply e) = fd \<and> fd \<noteq> -1"

lemma creates_files: "list_ex (creates fd p m) tr \<Longrightarrow> list_ex (files fd p) tr"
  by (induction tr) (auto simp: creates_def files_def created_def)

text \<open>A call with \<open>P\<close>, and \<open>q\<close> of the calls before it. The record has the latest event first.\<close>

fun preceded :: "(event \<Rightarrow> bool) \<Rightarrow> (event list \<Rightarrow> bool) \<Rightarrow> event list \<Rightarrow> bool" where
  "preceded P q [] = False"
| "preceded P q (e # tr) = (preceded P q tr \<or> P e \<and> q tr)"

definition syncs :: "fd \<Rightarrow> event \<Rightarrow> bool" where
  "syncs fd e \<longleftrightarrow> ev_call e = C_fsync fd \<and> \<not> failed (ev_reply e)"

text \<open>The descriptor of the path \<open>src\<close> in \<^verbatim>\<open>/proc\<close> was flushed when \<open>G\<close> held of it.\<close>

fun synced :: "(fd \<Rightarrow> event list \<Rightarrow> bool) \<Rightarrow> path \<Rightarrow> event list \<Rightarrow> bool" where
  "synced G src [] = False"
| "synced G src (e # tr) =
     (synced G src tr \<or> (case ev_call e of C_fsync fd \<Rightarrow> src = proc_fd_path fd \<and> \<not> failed (ev_reply e) \<and> G fd tr | _ \<Rightarrow> False))"

text \<open>
  The name \<open>p\<close> was given to a flushed file: the file was flushed when it had the name, or it was
  flushed before and then given the name by a link of its descriptor, or the name was moved or
  linked from a name given to a flushed file. When it was flushed, \<open>G\<close> held of its descriptor.
\<close>

fun safe :: "(fd \<Rightarrow> event list \<Rightarrow> bool) \<Rightarrow> path \<Rightarrow> event list \<Rightarrow> bool" where
  "safe G p [] = False"
| "safe G p (e # tr) =
     (safe G p tr \<or> \<not> failed (ev_reply e) \<and>
        (case ev_call e of
           C_fsync fd \<Rightarrow> list_ex (files fd p) tr \<and> G fd tr
         | C_linkat src q \<Rightarrow> q = p \<and> synced G src tr
         | C_link a q \<Rightarrow> q = p \<and> safe G a tr
         | C_rename a q \<Rightarrow> q = p \<and> safe G a tr
         | C_renameat2 a q fl \<Rightarrow> q = p \<and> safe G a tr
         | _ \<Rightarrow> False))"

lemma syncs_path_of: "preceded (syncs fd) (G fd) tr \<Longrightarrow> synced G (proc_fd_path fd) tr"
  by (induction tr) (auto simp: syncs_def)

lemma grows_simps [simp]: "grows (list_ex P)" "grows (preceded P q)" "grows (safe G p)" "grows (\<lambda>_. True)"
  by (simp_all add: grows_def)

subsection \<open>Size, owner and mode\<close>

text \<open>
  What a request asks for, on a descriptor, each by the call that sets it: the size of a sparse file, then the
  owner, and the mode last. A mode that is not \<^verbatim>\<open>-A\<close> is asked for with the bits for everyone that the
  directory grants. A file without any of these is created with its mode.
\<close>

definition sets_size :: "file_spec \<Rightarrow> fd \<Rightarrow> event \<Rightarrow> bool" where
  "sets_size spec fd e \<longleftrightarrow> ev_call e = C_ftruncate fd (fs_size spec) \<and> \<not> failed (ev_reply e)"

definition sets_owner :: "file_spec \<Rightarrow> fd \<Rightarrow> event \<Rightarrow> bool" where
  "sets_owner spec fd e \<longleftrightarrow> \<not> failed (ev_reply e) \<and>
     ev_call e = C_fchown fd (if set_uid spec then fs_uid spec else -1) (if set_gid spec then fs_gid spec else -1)"

definition mode_asked :: "file_spec \<Rightarrow> mode_t \<Rightarrow> bool" where
  "mode_asked spec m \<longleftrightarrow>
     (if absolute_given spec then m = fs_mode spec
      else m AND NOT (S_IRWXU OR S_IRWXG OR S_IRWXO) = fs_mode spec AND (S_ISUID OR S_ISGID OR S_ISVTX))"

definition sets_mode :: "file_spec \<Rightarrow> fd \<Rightarrow> event \<Rightarrow> bool" where
  "sets_mode spec fd e \<longleftrightarrow> \<not> failed (ev_reply e) \<and>
     (case ev_call e of C_fchmod f m \<Rightarrow> f = fd \<and> mode_asked spec m | _ \<Rightarrow> False)"

definition sized :: "file_spec \<Rightarrow> fd \<Rightarrow> event list \<Rightarrow> bool" where
  "sized spec fd tr \<longleftrightarrow> (size_given spec \<and> sparse_mode spec \<longrightarrow> list_ex (sets_size spec fd) tr)"

definition owned :: "file_spec \<Rightarrow> fd \<Rightarrow> event list \<Rightarrow> bool" where
  "owned spec fd = (if set_owner spec then preceded (sets_owner spec fd) (sized spec fd) else sized spec fd)"

definition in_one_call :: "file_spec \<Rightarrow> bool" where
  "in_one_call spec \<longleftrightarrow> \<not> has_content spec \<and> \<not> set_owner spec \<and> \<not> absolute_given spec \<and> \<not> force_mode spec"

definition ready_when :: "bool \<Rightarrow> file_spec \<Rightarrow> fd \<Rightarrow> event list \<Rightarrow> bool" where
  "ready_when one spec fd =
     (if one then list_ex (\<lambda>e. \<exists>p. creates fd p (fs_mode spec) e)
      else preceded (sets_mode spec fd) (owned spec fd))"

definition ready :: "file_spec \<Rightarrow> fd \<Rightarrow> event list \<Rightarrow> bool" where
  "ready spec = ready_when (in_one_call spec) spec"

lemma attributes_grow [simp]: "grows (sized spec fd)" "grows (owned spec fd)" "grows (ready spec fd)"
  by (auto simp: grows_def sized_def owned_def ready_def ready_when_def)

lemma masked_apart:
  fixes a c :: "'a :: len word"
  assumes "c AND a = 0"
  shows "(g AND a OR f AND c) AND NOT a = f AND c"
proof (rule bit_word_eqI)
  fix n
  assume "n < LENGTH('a)"
  moreover have "\<not> (bit c n \<and> bit a n)" using assms by (metis bit_and_iff bit_0_eq bot_apply bot_bool_def)
  ultimately show "bit ((g AND a OR f AND c) AND NOT a) n = bit (f AND c) n" by (auto simp: bit_simps)
qed

lemma mode_asked_final: "mode_asked spec (final_mode spec granted)"
proof -
  have "(S_ISUID OR S_ISGID OR S_ISVTX) AND (S_IRWXU OR S_IRWXG OR S_IRWXO) = 0"
    by (simp add: S_ISUID_def S_ISGID_def S_ISVTX_def S_IRWXU_def S_IRWXG_def S_IRWXO_def)
  from masked_apart[OF this, of granted "fs_mode spec"] show ?thesis
    unfolding mode_asked_def final_mode_def by (cases "absolute_given spec") (simp_all only: if_True if_False)
qed

lemma seen_both: "seen b q s \<Longrightarrow> seen b q' s \<Longrightarrow> grows q \<Longrightarrow> grows q' \<Longrightarrow> (\<And>tr. q tr \<Longrightarrow> q' tr \<Longrightarrow> r tr) \<Longrightarrow> seen b r s"
proof (cases "run_status s = Running")
  case True
  assume *: "seen b q s" "seen b q' s" "grows q" "grows q'" and r: "\<And>tr. q tr \<Longrightarrow> q' tr \<Longrightarrow> r tr"
  obtain new where new: "trace s = new @ b" "q new" using seen_now[OF *(1) True *(3)] by blast
  moreover have "q' new" using seen_now[OF *(2) True *(4)] new(1) by auto
  ultimately have "trace s = [] @ new @ b \<and> r new" using r by simp
  then show ?thesis unfolding seen_def by blast
qed (simp add: seen_def)

subsection \<open>Building\<close>

abbreviation since :: "event list \<Rightarrow> 'w pst \<Rightarrow> bool" where
  "since b \<equiv> seen b (\<lambda>_. True)"

lemma op_fail_res: "gives P (op_fail E op slot what) (\<lambda>op' _. fail op' \<noteq> None \<and> op_path op' = op_path op)"
  unfolding op_fail_def by (intro gives_skip gives_return) simp

text \<open>A result that, when there is one, has the property \<open>R\<close> and the fact \<open>q\<close> about it was seen.\<close>

definition yields :: "event list \<Rightarrow> ('a \<Rightarrow> bool) \<Rightarrow> ('a \<Rightarrow> event list \<Rightarrow> bool) \<Rightarrow> 'a option \<Rightarrow> 'w pst \<Rightarrow> bool" where
  "yields b R q r s \<longleftrightarrow> (\<forall>y. r = Some y \<longrightarrow> R y \<and> seen b (q y) s)"

lemma yields_simps [simp]: "yields b R q None s" "yields b R q (Some y) s \<longleftrightarrow> R y \<and> seen b (q y) s"
  by (simp_all add: yields_def)

lemma keeps_yields: "(\<And>q. keeps (seen b q) m) \<Longrightarrow> keeps (yields b R q r) m"
  by (cases r) (simp_all add: keeps_def)

lemma yields_mono: "yields b R q r s \<Longrightarrow> (\<And>y tr. q y tr \<Longrightarrow> q' y tr) \<Longrightarrow> yields b R q' r s"
  by (auto simp: yields_def intro: seen_mono)

lemma create_excl_creates:
  "gives (since b) (create_excl E p m) (yields b (\<lambda>y. fst y \<noteq> -1) (\<lambda>y. list_ex (creates (fst y) p m)))"
proof -
  have opened: "gives (since b) (sys_int E (C_open p excl_flags m)) (\<lambda>fd s. fd \<noteq> -1 \<longrightarrow> seen b (list_ex (creates fd p m)) s)"
    by (rule sys_int_seen) (simp_all add: creates_def)
  have "gives (\<lambda>s. fd \<noteq> -1 \<longrightarrow> seen b (q fd) s) (if fd = -1 then return None else do {
       st \<leftarrow> sys_stat E (C_fstat fd);
       case st of
         Some st \<Rightarrow> return (Some (fd, st))
       | None \<Rightarrow> do {
           _ \<leftarrow> keep_errno (do { _ \<leftarrow> sys E (C_close fd); sys E (C_unlink p) });
           return None } }) (yields b (\<lambda>y. fst y \<noteq> -1) (\<lambda>y. q (fst y)))" for fd q
    by (cases "fd = -1")
      (simp_all only: if_True if_False simp_thms,
       (intro gives_keep[OF seen.k_sys_stat] seen.c_sys gives_case_option gives_return gives_skip; simp)+)
  then show ?thesis unfolding create_excl_def by (rule gives_bind[OF opened])
qed

lemma create_excl_files:
  "gives (since b) (create_excl E p m) (yields b (\<lambda>y. fst y \<noteq> -1) (\<lambda>y. list_ex (files (fst y) p)))"
  by (rule gives_mono[OF create_excl_creates]) (auto elim!: yields_mono creates_files)

text \<open>What a maker of temporary names establishes of the name it made.\<close>

lemma temp_try_seen:
  assumes mk: "\<And>n. gives (seen b q) (mk n mc) (yields b R (q' n))"
  shows "gives (seen b q) (temp_try E stem slot mk mc) (yields b (R \<circ> snd) (case_prod q'))"
proof -
  have "gives (yields b R (q' n) r) (do {
       (case r of None \<Rightarrow> return () | Some mc' \<Rightarrow> pending_arm slot n (mc_st mc'));
       pending_release E old; return (map_option (Pair n) r) }) (yields b (R \<circ> snd) (case_prod q'))" for r n old
    unfolding pending_arm_def
    by (intro gives_keep keeps_yields keeps_rules seen.k_release seen.v_pending gives_return) (cases r; simp)
  then show ?thesis
    unfolding temp_try_def Let_def by (intro gives_keep[OF seen.k_temp_fill] gives_keep[OF seen.k_hold] gives_bind[OF mk])
qed

lemma temp_make_seen:
  assumes mk: "\<And>n. gives (seen b q) (mk n mc) (yields b R (q' n))"
    and kept: "\<And>n mc. keeps (seen b q) (mk n mc)" and slot: "slot < PENDING_SLOTS"
  shows "gives (seen b q) (temp_make E t slot mk mc) (yields b (R \<circ> snd) (case_prod q'))"
proof -
  define Q :: "_ \<Rightarrow> 'a pst \<Rightarrow> bool" where "Q = yields b (R \<circ> snd) (case_prod q')"
  have "gives (seen b q) (temp_loop E k stem slot mk mc) Q" for k stem
  proof (induction k)
    case (Suc k)
    have try_ok: "gives (seen b q) (temp_try E stem slot mk mc) (\<lambda>r s. Q r s \<and> seen b q s)"
      unfolding Q_def by (intro gives_conj gives_keeps seen.k_temp_try slot kept temp_try_seen mk)
    have "gives (\<lambda>s. Q r s \<and> seen b q s) (do { e \<leftarrow> get_errno;
        if r \<noteq> None \<or> e \<noteq> EEXIST then return r else temp_loop E k stem slot mk mc }) Q" for r
      using Suc.IH by (auto simp: gives_def)
    then show ?case unfolding temp_loop.simps by (rule gives_bind[OF try_ok])
  qed (simp add: gives_return Q_def)
  then have "gives (seen b q) (temp_make E t slot mk mc) Q"
    unfolding temp_make_def
    by (intro gives_keep[OF seen.k_alloc] gives_if gives_keep[OF seen.k_set_errno]) (auto intro: gives_return simp: Q_def)
  then show ?thesis by (simp only: Q_def)
qed

lemma make_open_files: "gives (since b) (make_open E n mc) (yields b (\<lambda>y. mc_fd y \<noteq> -1) (\<lambda>y. list_ex (files (mc_fd y) n)))"
  unfolding make_open_def
  by (rule gives_bind[OF create_excl_files], rule gives_return) (auto split: option.split)

lemma fast_link_seen:
  assumes "grows q" "\<And>e tr. ev_call e = C_linkat (proc_fd_path fd) n \<Longrightarrow> \<not> failed (ev_reply e) \<Longrightarrow> q tr \<Longrightarrow> q' (e # tr)"
  shows "gives (seen b q) (fast_link E fd n) (\<lambda>ret s. ret = 0 \<longrightarrow> seen b q' s)"
  unfolding fast_link_def by (rule gives_bind[OF sys_ok_seen[where q' = q', OF assms]]) (simp_all add: gives_return)

lemma make_fdlink_seen:
  assumes "grows q"
    and "\<And>e tr n. ev_call e = C_linkat (proc_fd_path (mc_fd mc)) n \<Longrightarrow> \<not> failed (ev_reply e) \<Longrightarrow> q tr \<Longrightarrow> q' n (e # tr)"
  shows "gives (seen b q) (make_fdlink E n mc) (yields b (\<lambda>_. True) (\<lambda>_. q' n))"
  unfolding make_fdlink_def
  by (rule gives_bind[OF fast_link_seen[where q' = "q' n", OF assms]]) (auto intro!: gives_return)

lemma place_create_creates: "gives (since b) (place_create E p m slot) (yields b (\<lambda>fd. fd \<noteq> -1) (\<lambda>fd. list_ex (creates fd p m)))"
proof -
  have "gives (yields b (R \<circ> fst) (q \<circ> fst) r) (do {
       (case r of None \<Rightarrow> return () | Some (fd, st) \<Rightarrow> pending_arm slot p st);
       pending_release E old; return (map_option fst r) }) (yields b R q)" for r old R q
    unfolding pending_arm_def
    by (intro gives_keep keeps_yields keeps_rules seen.k_release seen.v_pending gives_return) (cases r; simp)
  from this[of "\<lambda>fd. fd \<noteq> -1" "\<lambda>fd. list_ex (creates fd p m)"] show ?thesis
    unfolding place_create_def comp_def by (intro gives_keep[OF seen.k_hold] gives_bind[OF create_excl_creates])
qed

lemma place_temp_files:
  "slot < PENDING_SLOTS \<Longrightarrow>
     gives (since b) (place_temp E t m slot) (yields b (\<lambda>y. fst y \<noteq> -1) (\<lambda>y. list_ex (files (fst y) (snd y))))"
  unfolding place_temp_def
  by (rule gives_bind[OF temp_make_seen[OF make_open_files seen.k_make_open]], assumption, rule gives_return)
    (auto simp: yields_def)

lemma place_temp_link_seen:
  assumes "slot < PENDING_SLOTS" "grows q"
    and "\<And>e tr n. ev_call e = C_linkat (proc_fd_path fd) n \<Longrightarrow> \<not> failed (ev_reply e) \<Longrightarrow> q tr \<Longrightarrow> q' n (e # tr)"
  shows "gives (seen b q) (place_temp_link E fd t slot) (yields b (\<lambda>_. True) q')"
proof -
  have "gives (seen b q) (temp_make E t slot (make_fdlink E) (empty_ctx\<lparr>mc_st := st, mc_fd := fd\<rparr>))
      (yields b ((\<lambda>_. True) \<circ> snd) (\<lambda>(n, mc). q' n))" for st
    by (rule temp_make_seen[OF make_fdlink_seen seen.k_make_fdlink]) (use assms in auto)
  then have "gives (seen b q) (do { r \<leftarrow> temp_make E t slot (make_fdlink E) (empty_ctx\<lparr>mc_st := st, mc_fd := fd\<rparr>);
      return (map_option fst r) }) (yields b (\<lambda>_. True) q')" for st
    by (rule gives_bind) (auto intro!: gives_return simp: yields_def)
  then show ?thesis
    unfolding place_temp_link_def
    by (intro gives_keep[OF seen.k_sys_stat] seen.c_sys gives_case_option gives_return) simp_all
qed

text \<open>The name an operation's file has while it is built.\<close>

definition op_name :: "op \<Rightarrow> path option" where
  "op_name op = (case way op of WAY_PLAIN \<Rightarrow> Some (op_path op) | WAY_UNNAMED \<Rightarrow> None | WAY_TEMP \<Rightarrow> tmppath op)"

text \<open>What is known of an operation's file: \<open>f\<close> when it has no name, and \<open>g\<close> of its name.\<close>

definition op_fact :: "(fd \<Rightarrow> event list \<Rightarrow> bool) \<Rightarrow> (fd \<Rightarrow> path \<Rightarrow> event list \<Rightarrow> bool) \<Rightarrow> op \<Rightarrow> event list \<Rightarrow> bool" where
  "op_fact f g op =
     (if way op = WAY_UNNAMED then f (op_fd op)
      else case op_name op of None \<Rightarrow> (\<lambda>_. False) | Some n \<Rightarrow> g (op_fd op) n)"

abbreviation fact_built :: "(fd \<Rightarrow> event list \<Rightarrow> bool) \<Rightarrow> op \<Rightarrow> event list \<Rightarrow> bool" where
  "fact_built G \<equiv> op_fact G (\<lambda>fd n tr. list_ex (files fd n) tr \<and> G fd tr)"

abbreviation fact_flushed :: "(fd \<Rightarrow> event list \<Rightarrow> bool) \<Rightarrow> op \<Rightarrow> event list \<Rightarrow> bool" where
  "fact_flushed G \<equiv> op_fact (\<lambda>fd. preceded (syncs fd) (G fd)) (\<lambda>fd n. safe G n)"

text \<open>The operation was built, under a name of its own only when \<open>F\<close> allows it, or it failed.\<close>

definition op_built :: "event list \<Rightarrow> (fd \<Rightarrow> event list \<Rightarrow> bool) \<Rightarrow> bool \<Rightarrow> path \<Rightarrow> op \<Rightarrow> 'w pst \<Rightarrow> bool" where
  "op_built b G F p op s \<longleftrightarrow> op_path op = p \<and> (fail op = None \<longrightarrow> op_fd op \<noteq> -1 \<and> (F \<longrightarrow> way op \<noteq> WAY_PLAIN) \<and> seen b (fact_built G op) s)"

lemma seen_since: "seen b q s \<Longrightarrow> since b s"
  by (erule seen_mono) simp

lemma keeps_const: "(P \<Longrightarrow> keeps I m) \<Longrightarrow> keeps (\<lambda>s. P \<longrightarrow> I s) m"
  by (cases P) (simp_all add: keeps_def)

lemma keeps_fixed: "keeps (\<lambda>s. P) m"
  by (simp add: keeps_def)

lemma keeps_op_built: "(\<And>q. keeps (seen b q) m) \<Longrightarrow> keeps (op_built b G F p op) m"
  unfolding op_built_def by (intro keeps_conj keeps_const keeps_fixed) simp

lemma op_fail_built: "gives P (op_fail E op slot what) (op_built b G F (op_path op))"
  by (rule gives_mono[OF op_fail_res]) (auto simp: op_built_def op_fact_def)

text \<open>Until its owner and mode are set, nothing is known of the descriptor.\<close>

abbreviation any_fd :: "fd \<Rightarrow> event list \<Rightarrow> bool" where
  "any_fd \<equiv> \<lambda>_ _. True"

lemma op_built_ready:
  "op_built b any_fd F p op s \<Longrightarrow> (fail op = None \<Longrightarrow> seen b (G (op_fd op)) s) \<Longrightarrow> grows (G (op_fd op)) \<Longrightarrow> op_built b G F p op s"
  using seen_both[of b "list_ex (files (op_fd op) (the (op_name op)))" s "G (op_fd op)"
      "\<lambda>tr. list_ex (files (op_fd op) (the (op_name op))) tr \<and> G (op_fd op) tr"]
  by (auto simp: op_built_def op_fact_def split: option.splits if_splits)

lemma open_built_built:
  assumes "slot < PENDING_SLOTS"
  shows "gives (since b) (open_built E op slot spec) (\<lambda>(op', granted) s. op_built b any_fd F (op_path op) op' s \<and> (granted \<noteq> None \<longrightarrow> way op' \<noteq> WAY_PLAIN) \<and> (granted = None \<longrightarrow> fail op' \<noteq> None))"
    (is "gives _ _ ?Q")
proof -
  have bad: "gives P (do { op \<leftarrow> op_fail E op1 slot what; return (op, None) }) ?Q" if "op_path op1 = op_path op" for P op1 what
    by (rule gives_bind[OF gives_conj[OF op_fail_built[of _ E op1 slot what b any_fd F] op_fail_res]], rule gives_return)
      (simp add: that)
  have tmp: "gives (since b) (do { t \<leftarrow> place_temp E (op_path op1) m slot;
       case t of
         Some (fd, tmp) \<Rightarrow> return (op1\<lparr>op_fd := fd, tmppath := Some tmp\<rparr>, Some granted)
       | None \<Rightarrow> do { op \<leftarrow> op_fail E op1 slot ''cannot create''; return (op, None) } }) ?Q"
    if "op_path op1 = op_path op" "way op1 = WAY_TEMP" for op1 m granted
    by (rule gives_bind[OF place_temp_files[OF assms]], intro gives_case_option bad that gives_case_prod gives_return)
      (use that in \<open>auto simp: op_built_def op_fact_def op_name_def seen_since\<close>)
  have "gives (since b) (fast_tmpfile E d m) (\<lambda>r s. fst r = 0 \<longrightarrow> snd r \<noteq> -1)" for d m
    unfolding fast_tmpfile_def by (intro gives_skip gives_if gives_return) auto
  from gives_conj[OF this gives_keeps[OF seen.k_fast_tmpfile]]
  have opened: "gives (since b) (fast_tmpfile E d m) (\<lambda>r s. (fst r = 0 \<longrightarrow> snd r \<noteq> -1) \<and> since b s)" for d m .
  have step: "gives (\<lambda>s. (fst r = 0 \<longrightarrow> snd r \<noteq> -1) \<and> since b s) (case r of (ret, fd) \<Rightarrow> f ret fd) ?Q"
    if "\<And>ret fd. (ret = 0 \<longrightarrow> fd \<noteq> -1) \<Longrightarrow> gives (since b) (f ret fd) ?Q" for r and f :: "int \<Rightarrow> fd \<Rightarrow> _"
    using that by (cases r) (auto simp: gives_def)
  show ?thesis
    unfolding open_built_def
    by (intro gives_Let gives_keep[OF seen.k_path_dir] gives_case_option bad refl gives_bind[OF opened] step gives_if tmp
       gives_keep[OF seen.k_sys_stat] seen.c_sys gives_return gives_keep[OF keeps_if] keeps_return
       seen.v_place_probe_mode assms gives_case_prod) (simp_all add: op_built_def op_fact_def)
qed

lemma name_early_built:
  assumes "slot < PENDING_SLOTS" "way op \<noteq> WAY_PLAIN"
  shows "gives (op_built b any_fd F p op) (name_early E op slot spec) (\<lambda>op' s. op_built b any_fd F p op' s)"
proof -
  have moded: "keeps (op_built b any_fd F p op) (sys_ok E c)" for c by (intro keeps_op_built seen.k_sys_ok seen.c_sys)
  have bad: "gives (op_built b any_fd F p op) (op_fail E op slot what) (op_built b any_fd F p)" for what
    by (rule gives_assume, rule gives_mono[OF op_fail_built[where b = b and G = any_fd and F = F]]) (simp add: op_built_def)
  have linked: "gives (\<lambda>s. op_built b any_fd F p op s) (place_temp_link E (op_fd op) (op_path op) slot)
      (\<lambda>r s. op_built b any_fd F p op s \<and> (fail op = None \<longrightarrow> yields b (\<lambda>_. True) (\<lambda>n. list_ex (files (op_fd op) n)) r s))"
  proof (rule gives_conj)
    show "gives (op_built b any_fd F p op) (place_temp_link E (op_fd op) (op_path op) slot) (\<lambda>r s. op_built b any_fd F p op s)"
      by (intro gives_keeps keeps_op_built seen.k_place_temp_link assms)
    have "gives (since b) (place_temp_link E (op_fd op) (op_path op) slot) (yields b (\<lambda>_. True) (\<lambda>n. list_ex (files (op_fd op) n)))"
      by (rule place_temp_link_seen[OF assms(1)]) (simp_all add: files_def)
    then show "gives (op_built b any_fd F p op) (place_temp_link E (op_fd op) (op_path op) slot)
        (\<lambda>r s. fail op = None \<longrightarrow> yields b (\<lambda>_. True) (\<lambda>n. list_ex (files (op_fd op) n)) r s)"
      by (cases "fail op = None") (auto simp: gives_def op_built_def dest: seen_since intro: wp_any)
  qed
  have got: "gives (\<lambda>s. op_built b any_fd F p op s \<and> (fail op = None \<longrightarrow> yields b (\<lambda>_. True) (\<lambda>n. list_ex (files (op_fd op) n)) t s))
      (case t of None \<Rightarrow> op_fail E op slot what | Some tmp \<Rightarrow> return (op\<lparr>tmppath := Some tmp, way := WAY_TEMP\<rparr>)) (op_built b any_fd F p)" for t what
    by (cases t) (auto intro!: gives_return gives_weaken[OF bad] simp: op_built_def op_fact_def op_name_def)
  show ?thesis
    unfolding name_early_def by (intro gives_if gives_keep[OF moded] bad gives_bind[OF linked] got gives_return)
qed

text \<open>The steps that fill the file and set what was asked for.\<close>

lemma fill_one_sized:
  "gives (since b) (fill_one E fd spec) (\<lambda>ret s. ret = 0 \<longrightarrow> seen b (sized spec fd) s)"
proof -
  have trunc: "gives (since b) (do { trunc \<leftarrow> sys_ok E (C_ftruncate fd (fs_size spec)); return (if trunc then 0 else -1) })
      (\<lambda>ret s. ret = (0 :: int) \<longrightarrow> seen b (sized spec fd) s)"
    by (rule gives_bind[OF sys_ok_seen[where q' = "sized spec fd"]])
      (auto simp: sized_def sets_size_def intro!: gives_return)
  have size: "gives (since b) (apply_size E fd (fs_size spec) (sparse_mode spec) th fi) (\<lambda>ret s. ret = 0 \<longrightarrow> seen b (sized spec fd) s)"
    if "sparse_mode spec" for th fi
    unfolding apply_size_def Let_def using that
    by (intro gives_keep[OF keeps_if[OF seen.k_sys_stat[OF seen.c_sys] keeps_return]] gives_case_option gives_return)
      (simp_all add: trunc)
  have any: "gives (since b) m (\<lambda>ret s. ret = 0 \<longrightarrow> seen b (sized spec fd) s)"
    if "\<not> (size_given spec \<and> sparse_mode spec)" "\<And>q. keeps (seen b q) m" for m :: "('a, int) prog"
    by (rule gives_mono[OF gives_keeps[OF that(2)]]) (use that(1) in \<open>auto simp: sized_def elim: seen_mono\<close>)
  have sizes: "gives (since b) (if size_given spec then apply_size E fd (fs_size spec) (sparse_mode spec) th fi else return 0)
      (\<lambda>ret s. ret = 0 \<longrightarrow> seen b (sized spec fd) s)" for th fi
  proof (cases "size_given spec \<and> sparse_mode spec")
    case True
    then show ?thesis using size by simp
  next
    case False
    then show ?thesis by (intro any keeps_if seen.k_apply_size keeps_return)
  qed
  have tmpl: "keeps (seen b q) (case fs_tmpl spec of None \<Rightarrow> return 0 | Some t \<Rightarrow> tmpl_apply E t fd)" for q
    by (cases "fs_tmpl spec") (simp_all add: keeps_return seen.k_tmpl_apply)
  show ?thesis
    unfolding fill_one_def
    by (intro gives_keep[OF tmpl] gives_if gives_return gives_bind[OF sizes]) simp_all
qed

lemma own_and_mode_ready:
  assumes "\<not> in_one_call spec"
  shows "gives (seen b (sized spec (op_fd op))) (own_and_mode E op slot spec content (final_mode spec granted))
    (\<lambda>op' s. fail op' = None \<longrightarrow> seen b (ready spec (op_fd op')) s)"
proof -
  have bad: "gives P (op_fail E op slot what) (\<lambda>op' s. fail op' = None \<longrightarrow> seen b (ready spec (op_fd op')) s)" for P what
    by (rule gives_mono[OF op_fail_res]) auto
  have own: "gives (seen b (sized spec (op_fd op))) (if set_owner spec
       then sys_ok E (C_fchown (op_fd op) (if set_uid spec then fs_uid spec else -1) (if set_gid spec then fs_gid spec else -1))
       else return True) (\<lambda>ok s. ok \<longrightarrow> seen b (owned spec (op_fd op)) s)"
    by (intro gives_if sys_ok_seen gives_return) (simp_all add: owned_def sets_owner_def)
  have mode: "gives (seen b (owned spec (op_fd op))) (sys_ok E (C_fchmod (op_fd op) (final_mode spec granted)))
      (\<lambda>ok s. ok \<longrightarrow> seen b (ready spec (op_fd op)) s)"
    using assms by (intro sys_ok_seen) (simp_all add: ready_def ready_when_def sets_mode_def mode_asked_final)
  have after: "gives (\<lambda>s. ok \<longrightarrow> seen b (ready spec (op_fd op)) s) (if \<not> ok then op_fail E op slot what
      else do { whenM content (fast_writeback E (op_fd op)); return op })
      (\<lambda>op' s. fail op' = None \<longrightarrow> seen b (ready spec (op_fd op')) s)" for ok what
    by (cases ok) (auto intro!: bad gives_keep[OF keeps_whenM] seen.k_fast_writeback gives_return)
  have "gives (\<lambda>s. ok \<longrightarrow> seen b (owned spec (op_fd op)) s) (if \<not> ok then op_fail E op slot what
      else do {
       moded \<leftarrow> sys_ok E (C_fchmod (op_fd op) (final_mode spec granted));
       if \<not> moded then op_fail E op slot what'
       else do { whenM content (fast_writeback E (op_fd op)); return op } })
      (\<lambda>op' s. fail op' = None \<longrightarrow> seen b (ready spec (op_fd op')) s)" for ok what what'
    by (cases ok) (auto intro!: bad gives_bind[OF mode] after)
  then show ?thesis unfolding own_and_mode_def by (rule gives_bind[OF own])
qed

lemma finish_built_built:
  assumes "slot < PENDING_SLOTS" "way op \<noteq> WAY_PLAIN" "\<not> in_one_call spec"
  shows "gives (op_built b any_fd F p op) (finish_built E op slot spec content granted) (op_built b (ready spec) F p)"
proof -
  have bad: "gives (\<lambda>s. op_built b any_fd F p op1 s \<and> Q s) (op_fail E op1 slot what) (op_built b G F p)" for op1 what Q G
    by (rule gives_assume, rule gives_mono[OF op_fail_built[where b = b and G = G and F = F]]) (simp add: op_built_def)
  have keep: "gives (op_built b any_fd F p op1) (own_and_mode E op1 slot spec content m) (op_built b any_fd F p)" for op1 m
    unfolding own_and_mode_def
    by (intro gives_keep[OF keeps_op_built] keeps_rules seen.k_sys_ok seen.c_sys seen.k_fast_writeback gives_if
        gives_weaken[OF bad] gives_return) auto
  have own: "gives (\<lambda>s. op_built b any_fd F p op1 s \<and> seen b (sized spec (op_fd op1)) s)
      (own_and_mode E op1 slot spec content (final_mode spec granted)) (op_built b (ready spec) F p)" for op1
    by (rule gives_mono[OF gives_conj[OF gives_weaken[OF keep] gives_weaken[OF own_and_mode_ready[OF assms(3)]]]])
      (auto intro: op_built_ready)
  have fill: "gives (op_built b any_fd F p op1) (fill_one E (op_fd op1) spec)
      (\<lambda>ret s. op_built b any_fd F p op1 s \<and> (ret = 0 \<longrightarrow> seen b (sized spec (op_fd op1)) s))" if "fail op1 = None" for op1
    by (intro gives_conj gives_keeps keeps_op_built seen.k_fill_one gives_weaken[OF fill_one_sized])
      (use that in \<open>auto simp: op_built_def dest: seen_since\<close>)
  have filled: "gives (\<lambda>s. op_built b any_fd F p op1 s \<and> (ret = 0 \<longrightarrow> seen b (sized spec (op_fd op1)) s))
      (if ret \<noteq> 0 then op_fail E op1 slot what else own_and_mode E op1 slot spec content (final_mode spec granted))
      (op_built b (ready spec) F p)" for op1 what and ret :: int
    by (intro gives_if bad gives_weaken[OF own]) auto
  have rest: "gives (op_built b any_fd F p op1) (if fail op1 \<noteq> None then return op1 else do {
       ret \<leftarrow> fill_one E (op_fd op1) spec;
       if ret \<noteq> 0 then op_fail E op1 slot (if ret = 1 then what else what')
       else own_and_mode E op1 slot spec content (final_mode spec granted) }) (op_built b (ready spec) F p)" for op1 what what'
    by (intro gives_if gives_return gives_bind[OF fill] filled) (auto simp: op_built_def)
  show ?thesis
    unfolding finish_built_def by (intro gives_bind[OF name_early_built[OF assms(1,2)]] rest)
qed

lemma build_one_built:
  assumes "slot < PENDING_SLOTS"
  shows "gives (since b) (build_one E p slot spec) (op_built b (ready spec) (force_mode spec) p)"
proof -
  have bad: "gives P (op_fail E (new_op p) slot what) (op_built b (ready spec) (force_mode spec) p)" for P what
    using op_fail_built[of P E "new_op p" slot what b "ready spec" "force_mode spec"] by (simp add: new_op_def)
  have plain: "gives (since b) (do { fd \<leftarrow> place_create E p (fs_mode spec) slot;
       case fd of None \<Rightarrow> op_fail E (new_op p) slot what | Some fd \<Rightarrow> return (new_op p\<lparr>op_fd := fd\<rparr>) }) (op_built b (ready spec) (force_mode spec) p)" if "in_one_call spec" for what
  proof (rule gives_bind[OF place_create_creates], intro gives_case_option bad gives_return)
    fix r fd and s :: "'a pst"
    assume "r = Some fd" "yields b (\<lambda>fd. fd \<noteq> -1) (\<lambda>fd. list_ex (creates fd p (fs_mode spec))) r s"
    then have fd: "fd \<noteq> -1" "seen b (list_ex (creates fd p (fs_mode spec))) s" by simp_all
    have "list_ex (creates fd p (fs_mode spec)) tr \<Longrightarrow> list_ex (files fd p) tr \<and> ready spec fd tr" for tr
      using that creates_files[of fd p "fs_mode spec" tr] by (auto simp: ready_def ready_when_def list_ex_iff)
    then have "seen b (\<lambda>tr. list_ex (files fd p) tr \<and> ready spec fd tr) s" using fd(2) by (rule seen_mono[rotated])
    then show "op_built b (ready spec) (force_mode spec) p (new_op p\<lparr>op_fd := fd\<rparr>) s"
      using that fd(1) by (simp add: op_built_def op_fact_def op_name_def new_op_def in_one_call_def)
  qed
  have opened: "gives (since b) (do { r \<leftarrow> open_built E (new_op p) slot spec;
       case r of (op, None) \<Rightarrow> return op | (op, Some granted) \<Rightarrow> finish_built E op slot spec c granted })
      (op_built b (ready spec) (force_mode spec) p)" if "\<not> in_one_call spec" for c
  proof (rule gives_bind[OF open_built_built[OF assms, where F = "force_mode spec"]])
    fix r
    show "gives (case r of (op', granted) \<Rightarrow> \<lambda>s. op_built b any_fd (force_mode spec) (op_path (new_op p)) op' s \<and>
          (granted \<noteq> None \<longrightarrow> way op' \<noteq> WAY_PLAIN) \<and> (granted = None \<longrightarrow> fail op' \<noteq> None))
        (case r of (op, None) \<Rightarrow> return op | (op, Some granted) \<Rightarrow> finish_built E op slot spec c granted)
        (op_built b (ready spec) (force_mode spec) p)"
    proof (cases r)
      case (Pair op' g)
      then show ?thesis
        using finish_built_built[OF assms _ that, of op' b "force_mode spec" p E c "the g"]
        by (cases g) (auto simp: gives_def new_op_def op_built_def)
    qed
  qed
  have path: "op_path (new_op p) = p" by (simp add: new_op_def)
  have build: "gives (since b) (build_file E (new_op p) slot spec) (op_built b (ready spec) (force_mode spec) p)"
    unfolding build_file_def Let_def path in_one_call_def[symmetric]
    by (intro gives_if plain gives_keep[OF keeps_if[OF seen.k_sys_ok[OF seen.c_sys] keeps_return]] gives_skip bad opened) simp
  show ?thesis
    unfolding build_one_def Let_def
    by (intro gives_if gives_skip[where P = "since b"] bad gives_keep[OF keeps_if[OF seen.k_path_make_parents keeps_return]] build)
qed

lemma build_all_built:
  "i + length ps \<le> PENDING_SLOTS \<Longrightarrow>
     gives (since b) (build_all E spec i ps) (\<lambda>ops s. list_all2 (\<lambda>p op. op_built b (ready spec) (force_mode spec) p op s) ps ops)"
proof (induction ps arbitrary: i)
  case (Cons p ps)
  have one: "gives (since b) (build_one E p i spec) (\<lambda>op s. op_built b (ready spec) (force_mode spec) p op s \<and> since b s)"
    by (intro gives_conj build_one_built gives_keeps seen.k_build_one) (use Cons.prems in auto)
  have rest: "gives (\<lambda>s. op_built b (ready spec) (force_mode spec) p op s \<and> since b s) (build_all E spec (Suc i) ps)
      (\<lambda>ops s. op_built b (ready spec) (force_mode spec) p op s \<and> list_all2 (\<lambda>p op. op_built b (ready spec) (force_mode spec) p op s) ps ops)" for op
    by (intro gives_conj gives_weaken[OF gives_keeps[OF keeps_op_built[OF seen.k_build_all]]] gives_weaken[OF Cons.IH])
      (use Cons.prems in auto)
  show ?case unfolding build_all.simps by (intro gives_bind[OF one] gives_bind[OF rest] gives_return) simp
qed (simp add: gives_return)

subsection \<open>Flushing\<close>

text \<open>No system call fails with the error number zero.\<close>

definition errno_set :: "'w env \<Rightarrow> bool" where
  "errno_set E \<longleftrightarrow> (\<forall>c w. fst (kern E c w) \<noteq> R_fail E0)"

text \<open>The file of \<open>fd\<close> is flushed, or it is a directory that cannot be.\<close>

definition flushes :: "bool \<Rightarrow> fd \<Rightarrow> event \<Rightarrow> bool" where
  "flushes dir fd e \<longleftrightarrow> ev_call e = C_fsync fd \<and>
     (\<not> failed (ev_reply e) \<or> dir \<and> (ev_reply e = R_fail EINVAL \<or> ev_reply e = R_fail ENOTSUP))"

lemma sync_one_seen:
  assumes "errno_set E" "grows q" "\<And>e tr. flushes dir fd e \<Longrightarrow> q tr \<Longrightarrow> q' (e # tr)"
  shows "gives (seen b q) (sync_one E fd dir) (\<lambda>e s. e = E0 \<longrightarrow> seen b q' s)"
proof -
  let ?good = "\<lambda>r. \<not> failed r \<or> dir \<and> (r = R_fail EINVAL \<or> r = R_fail ENOTSUP)"
  have call: "gives (seen b q) (sys E (C_fsync fd))
      (\<lambda>r s. ((?good r \<longrightarrow> seen b q' s) \<and> (r = R_fail E0 \<longrightarrow> run_status s \<noteq> Running)) \<and> seen b q s)"
  proof (intro gives_conj gives_keeps[OF seen.c_sys] sys_seen[OF assms(2)] assms(3))
    show "gives (seen b q) (sys E (C_fsync fd)) (\<lambda>r s. r = R_fail E0 \<longrightarrow> run_status s \<noteq> Running)"
      using assms(1) by (auto simp: gives_def wp_sys errno_set_def)
  qed (simp add: flushes_def)
  have "gives (seen b q) (sync_loop E n fd dir) (\<lambda>e s. e = E0 \<longrightarrow> seen b q' s)" for n
  proof (induction n)
    case (Suc n)
    have "gives (\<lambda>s. ((?good r \<longrightarrow> seen b q' s) \<and> (r = R_fail E0 \<longrightarrow> run_status s \<noteq> Running)) \<and> seen b q s)
        (case r of R_fail e \<Rightarrow> if e = EINTR then sync_loop E n fd dir else return (sync_err e dir) | _ \<Rightarrow> return E0)
        (\<lambda>e s. e = E0 \<longrightarrow> seen b q' s)" for r
      using Suc.IH by (cases r) (auto simp: gives_def sync_err_def seen_def)
    then show ?case unfolding sync_loop.simps by (rule gives_bind[OF call])
  qed (simp add: gives_skip gives_return)
  then show ?thesis by (simp add: sync_one_def)
qed

lemma keeps_all: "(\<And>i. P i \<Longrightarrow> keeps (I i) m) \<Longrightarrow> keeps (\<lambda>s. \<forall>i. P i \<longrightarrow> I i s) m"
  by (auto simp: keeps_def)

lemma keeps_list_all2: "(\<And>x y. keeps (R x y) m) \<Longrightarrow> keeps (\<lambda>s. list_all2 (\<lambda>x y. R x y s) xs ys) m"
  unfolding list_all2_conv_all_nth by (intro keeps_conj keeps_all) (simp_all add: keeps_def)

text \<open>
  What is known of each descriptor before a flush, and then of those without an error after it. The
  order in which the threads take them does not matter.
\<close>

lemma sync_each_seen:
  assumes "errno_set E"
    and "\<And>i. i < length fds \<Longrightarrow> grows (q i)"
    and "\<And>i e tr. i < length fds \<Longrightarrow> flushes dir (fds ! i) e \<Longrightarrow> q i tr \<Longrightarrow> q' i (e # tr)"
  shows "gives (\<lambda>s. \<forall>i. i < length fds \<longrightarrow> seen b (q i) s) (sync_each E fds dir)
    (\<lambda>errs s. length errs = length fds \<and> (\<forall>i. i < length fds \<longrightarrow> errs ! i = E0 \<longrightarrow> seen b (q' i) s))"
  using assms(2,3)
proof (induction fds arbitrary: q q')
  case (Cons fd fds)
  let ?P = "\<lambda>s. \<forall>i. i < length (fd # fds) \<longrightarrow> seen b (q i) s"
  let ?R = "\<lambda>s. \<forall>i. i < length fds \<longrightarrow> seen b (q (Suc i)) s"
  have one: "gives ?P (sync_one E fd dir) (\<lambda>e s. (e = E0 \<longrightarrow> seen b (q' 0) s) \<and> ?R s)"
  proof (rule gives_conj)
    show "gives ?P (sync_one E fd dir) (\<lambda>e s. e = E0 \<longrightarrow> seen b (q' 0) s)"
      by (rule gives_weaken[OF sync_one_seen[where q = "q 0", OF assms(1)]]) (use Cons.prems[of 0] in auto)
    have "keeps ?R (sync_one E fd dir)" by (intro keeps_all seen.k_sync_one)
    then show "gives ?P (sync_one E fd dir) (\<lambda>e. ?R)" by (rule gives_weaken[OF gives_keeps]) auto
  qed
  have IH: "gives ?R (sync_each E fds dir)
      (\<lambda>errs s. length errs = length fds \<and> (\<forall>i. i < length fds \<longrightarrow> errs ! i = E0 \<longrightarrow> seen b (q' (Suc i)) s))"
    by (rule Cons.IH) (use Cons.prems[of "Suc _"] in auto)
  have rest: "gives (\<lambda>s. (e = E0 \<longrightarrow> seen b (q' 0) s) \<and> ?R s) (sync_each E fds dir)
      (\<lambda>errs s. (e = E0 \<longrightarrow> seen b (q' 0) s) \<and> length errs = length fds \<and>
        (\<forall>i. i < length fds \<longrightarrow> errs ! i = E0 \<longrightarrow> seen b (q' (Suc i)) s))" for e
    by (intro gives_conj[OF gives_weaken[OF gives_keeps[OF keeps_const[OF seen.k_sync_each]]] gives_weaken[OF IH]]) auto
  show ?case
    unfolding sync_each.simps
    by (intro gives_bind[OF one] gives_bind[OF rest] gives_return) (auto simp: nth_Cons split: nat.splits)
qed (simp add: gives_return)

lemma take_jobs_seen:
  assumes "errno_set E"
    and grow: "\<And>i. i < length fds \<Longrightarrow> grows (q i)"
    and step: "\<And>i e tr. i < length fds \<Longrightarrow> flushes dir (fds ! i) e \<Longrightarrow> q i tr \<Longrightarrow> q' i (e # tr)"
    and "length errs = length fds" "set is \<subseteq> {..<length fds}"
  shows "gives (\<lambda>s. (\<forall>i. i < length fds \<longrightarrow> seen b (q i) s) \<and>
      (\<forall>i. i < length fds \<longrightarrow> i \<notin> set is \<longrightarrow> errs ! i = E0 \<longrightarrow> seen b (q' i) s))
    (take_jobs E fds dir is errs)
    (\<lambda>errs s. length errs = length fds \<and> (\<forall>i. i < length fds \<longrightarrow> errs ! i = E0 \<longrightarrow> seen b (q' i) s))"
  using assms(4,5)
proof (induction "is" arbitrary: errs)
  case (Cons k "is")
  let ?A = "\<lambda>s. \<forall>i. i < length fds \<longrightarrow> seen b (q i) s"
  let ?B = "\<lambda>K (errs :: errno list) s. \<forall>i. i < length fds \<longrightarrow> i \<notin> K \<longrightarrow> errs ! i = E0 \<longrightarrow> seen b (q' i) s"
  have k: "k < length fds" using Cons.prems by simp
  have one: "gives (\<lambda>s. ?A s \<and> ?B (set (k # is)) errs s) (sync_one E (fds ! k) dir)
      (\<lambda>e s. (e = E0 \<longrightarrow> seen b (q' k) s) \<and> ?A s \<and> ?B (set (k # is)) errs s)"
  proof (rule gives_conj)
    show "gives (\<lambda>s. ?A s \<and> ?B (set (k # is)) errs s) (sync_one E (fds ! k) dir) (\<lambda>e s. e = E0 \<longrightarrow> seen b (q' k) s)"
      by (rule gives_weaken[OF sync_one_seen[where q = "q k", OF assms(1)]]) (use grow[OF k] step[OF k] k in auto)
    show "gives (\<lambda>s. ?A s \<and> ?B (set (k # is)) errs s) (sync_one E (fds ! k) dir) (\<lambda>_ s. ?A s \<and> ?B (set (k # is)) errs s)"
      by (intro gives_keeps keeps_conj keeps_all keeps_const seen.k_sync_one)
  qed
  have "gives (\<lambda>s. (e = E0 \<longrightarrow> seen b (q' k) s) \<and> ?A s \<and> ?B (set (k # is)) errs s) (take_jobs E fds dir is (errs[k := e]))
      (\<lambda>errs s. length errs = length fds \<and> (\<forall>i. i < length fds \<longrightarrow> errs ! i = E0 \<longrightarrow> seen b (q' i) s))" for e
    by (rule gives_weaken[OF Cons.IH]) (use Cons.prems in \<open>auto simp: nth_list_update split: if_splits\<close>)
  then show ?case unfolding take_jobs.simps by (rule gives_bind[OF one])
qed (auto intro: gives_return)

lemma flush_fds_seen:
  assumes "errno_set E"
    and "\<And>i. i < length fds \<Longrightarrow> grows (q i)"
    and "\<And>i e tr. i < length fds \<Longrightarrow> flushes dir (fds ! i) e \<Longrightarrow> q i tr \<Longrightarrow> q' i (e # tr)"
  shows "gives (\<lambda>s. \<forall>i. i < length fds \<longrightarrow> seen b (q i) s) (flush_fds E fds dir)
    (\<lambda>errs s. length errs = length fds \<and> (\<forall>i. i < length fds \<longrightarrow> errs ! i = E0 \<longrightarrow> seen b (q' i) s))"
proof -
  let ?P = "\<lambda>s. \<forall>i. i < length fds \<longrightarrow> seen b (q i) s"
  let ?Q = "\<lambda>errs s. length errs = length fds \<and> (\<forall>i. i < length fds \<longrightarrow> errs ! i = E0 \<longrightarrow> seen b (q' i) s)"
  have each: "gives ?P (sync_each E fds dir) ?Q" by (rule sync_each_seen) (use assms in auto)
  have jobs: "gives ?P (take_jobs E fds dir order (replicate (length fds) E0)) ?Q" if "set order = {..<length fds}" for order
    by (rule gives_weaken[OF take_jobs_seen[of E fds q dir q']]) (use assms that in auto)
  have quiet: "keeps (?Q errs) (set_errno e)" for errs e
    by (intro keeps_conj keeps_all keeps_const seen.k_set_errno) (simp add: keeps_def)
  have kept: "gives ?P (keep_errno (take_jobs E fds dir order (replicate (length fds) E0))) ?Q"
    if "set order = {..<length fds}" for order
    unfolding keep_errno_def
    by (intro gives_keep[OF keeps_get_errno] gives_bind[OF jobs[OF that]] gives_keep[OF quiet] gives_return) simp
  have order: "gives ?P (flush_order E (length fds)) (\<lambda>order s. set order = {..<length fds} \<and> ?P s)"
    unfolding flush_order_def
    by (intro gives_keep[OF keeps_gets] gives_return) (auto simp del: mset_upt dest: mset_eq_setD)
  have run: "gives (\<lambda>s. set order = {..<length fds} \<and> ?P s) (keep_errno (take_jobs E fds dir order (replicate (length fds) E0))) ?Q"
    for order using kept[of order] by (auto simp: gives_def)
  have start_up: "gives ?P (do { want \<leftarrow> flush_want E (length fds); flush_grow E want; m }) Q" if "gives ?P m Q" for m Q
    by (intro gives_keep that keeps_all seen.k_flush_want seen.v_flush_grow)
  have "gives ?P (flush_threaded E fds dir) ?Q"
    unfolding flush_threaded_def
    by (intro start_up gives_keep[OF keeps_gets] gives_if each gives_bind[OF order] run)
  then show ?thesis unfolding flush_fds_def by (intro gives_if each)
qed

text \<open>What a flush makes of what is known of a built file.\<close>

definition op_flushed :: "event list \<Rightarrow> (fd \<Rightarrow> event list \<Rightarrow> bool) \<Rightarrow> bool \<Rightarrow> path \<Rightarrow> op \<Rightarrow> 'w pst \<Rightarrow> bool" where
  "op_flushed b G F p op s \<longleftrightarrow> op_path op = p \<and> (fail op = None \<longrightarrow> (F \<longrightarrow> way op \<noteq> WAY_PLAIN) \<and> seen b (fact_flushed G op) s)"

lemma fact_grows: "(\<And>fd. grows (G fd)) \<Longrightarrow> grows (fact_built G op)"
  by (auto simp: grows_def op_fact_def split: option.split)

lemma fact_flush: "flushes False (op_fd op) e \<Longrightarrow> fact_built G op tr \<Longrightarrow> fact_flushed G op (e # tr)"
  by (auto simp: op_fact_def flushes_def syncs_def split: option.splits if_splits)

lemma fail_unflushed_kept:
  "gives P (fail_unflushed E ops xs ks) (\<lambda>r _. length (fst r) = length ops \<and>
     (\<forall>i < length ops. op_path (fst r ! i) = op_path (ops ! i) \<and>
        (fail (fst r ! i) = None \<longrightarrow> fst r ! i = ops ! i \<and> (\<forall>err. (i, err) \<in> set xs \<longrightarrow> err = E0))))"
proof (induction E ops xs ks arbitrary: P rule: fail_unflushed.induct)
  case (2 E ops i err rest ks)
  show ?case
  proof (cases "err \<noteq> E0")
    case True
    have "gives (\<lambda>s. fail x \<noteq> None \<and> op_path x = op_path (ops ! i)) (fail_unflushed E (ops[i := x]) rest ks)
        (\<lambda>r _. length (fst r) = length ops \<and>
           (\<forall>j < length ops. op_path (fst r ! j) = op_path (ops ! j) \<and>
              (fail (fst r ! j) = None \<longrightarrow> fst r ! j = ops ! j \<and> (\<forall>e. (j, e) \<in> set ((i, err) # rest) \<longrightarrow> e = E0))))" for x
    proof (rule gives_assume, rule gives_mono[OF 2(1)[OF True]], elim conjE, intro conjI allI impI)
      fix r j
      assume x: "fail x \<noteq> None" "op_path x = op_path (ops ! i)" and j: "j < length ops"
        and all: "\<forall>j < length (ops[i := x]). op_path (fst r ! j) = op_path (ops[i := x] ! j) \<and>
          (fail (fst r ! j) = None \<longrightarrow> fst r ! j = ops[i := x] ! j \<and> (\<forall>e. (j, e) \<in> set rest \<longrightarrow> e = E0))"
      have at: "op_path (fst r ! j) = op_path (ops[i := x] ! j)"
        "fail (fst r ! j) = None \<Longrightarrow> fst r ! j = ops[i := x] ! j \<and> (\<forall>e. (j, e) \<in> set rest \<longrightarrow> e = E0)"
        using all j by auto
      show "op_path (fst r ! j) = op_path (ops ! j)" using at(1) x j by (cases "j = i") auto
      assume "fail (fst r ! j) = None"
      then have r: "fst r ! j = ops[i := x] ! j" "\<forall>e. (j, e) \<in> set rest \<longrightarrow> e = E0" "fail (ops[i := x] ! j) = None" using at(2) by auto
      then have ne: "j \<noteq> i" using x j by auto
      then show "fst r ! j = ops ! j" using r by simp
      show "e = E0" if "(j, e) \<in> set ((i, err) # rest)" for e using that r ne by auto
    qed auto
    then show ?thesis
      unfolding fail_unflushed.simps if_P[OF True] by (intro gives_skip[where P = P] gives_bind[OF op_fail_res])
  next
    case False
    then show ?thesis using gives_mono[OF 2(2)[OF False]] by simp
  qed
qed (simp add: gives_return)

lemma flush_ops_flushed:
  assumes "errno_set E" "length ps \<le> NEWFILE_BATCH" "\<And>fd. grows (G fd)"
  shows "gives (\<lambda>s. list_all2 (\<lambda>p op. op_built b G F p op s) ps ops) (flush_ops E ops)
    (\<lambda>r s. list_all2 (\<lambda>p op. op_flushed b G F p op s) ps (fst r))"
proof (rule gives_assume)
  fix s0 :: "'a pst"
  assume s0: "list_all2 (\<lambda>p op. op_built b G F p op s0) ps ops"
  let ?idx = "unflushed ops" let ?fds = "map (\<lambda>i. op_fd (ops ! i)) (unflushed ops)"
  let ?F = "\<lambda>errs s. length errs = length ?idx \<and> (\<forall>k. k < length ?idx \<longrightarrow> errs ! k = E0 \<longrightarrow> seen b (fact_flushed G (ops ! (?idx ! k))) s)"
  have len: "length ops = length ps" using s0 by (simp add: list_all2_lengthD)
  have op: "op_path (ops ! i) = ps ! i \<and> (fail (ops ! i) = None \<longrightarrow> i \<in> set ?idx \<and> (F \<longrightarrow> way (ops ! i) \<noteq> WAY_PLAIN))" if "i < length ps" for i
    using list_all2_nthD[OF s0 that] that len by (auto simp: op_built_def unflushed_def)
  have idx: "fail (ops ! (?idx ! k)) = None \<and> ?idx ! k < length ps" if "k < length ?idx" for k
    using nth_mem[OF that] len by (simp add: unflushed_def)
  have "gives (\<lambda>s. \<forall>k. k < length ?fds \<longrightarrow> seen b (fact_built G (ops ! (?idx ! k))) s) (flush_fds E ?fds False)
      (\<lambda>errs s. length errs = length ?fds \<and> (\<forall>k. k < length ?fds \<longrightarrow> errs ! k = E0 \<longrightarrow> seen b (fact_flushed G (ops ! (?idx ! k))) s))"
    by (rule flush_fds_seen[OF assms(1)])
      (use unflushed_length[of ops] len assms(2) in \<open>auto simp: assms(3) intro: fact_flush fact_grows\<close>)
  then have flush: "gives (\<lambda>s. list_all2 (\<lambda>p op. op_built b G F p op s) ps ops) (if ?idx \<noteq> [] then flush_fds E ?fds False else return []) ?F"
  proof (intro gives_if gives_return)
    have "seen b (fact_built G (ops ! (?idx ! k))) s"
      if "list_all2 (\<lambda>p op. op_built b G F p op s) ps ops" "k < length ?idx" for s :: "'a pst" and k
      using list_all2_nthD[OF that(1)] idx[OF that(2)] by (simp add: op_built_def)
    then show "gives (\<lambda>s. list_all2 (\<lambda>p op. op_built b G F p op s) ps ops) (flush_fds E ?fds False) ?F"
      using gives_weaken[OF \<open>gives _ (flush_fds E ?fds False) _\<close>] by simp
  qed simp
  have post: "gives (?F errs) (fail_unflushed E ops (zip ?idx errs) []) (\<lambda>r s. list_all2 (\<lambda>p op. op_flushed b G F p op s) ps (fst r))" for errs
  proof (rule gives_mono[OF gives_conj[OF fail_unflushed_kept gives_keeps]])
    show "keeps (?F errs) (fail_unflushed E ops (zip ?idx errs) [])"
      using len assms(2)
      by (intro keeps_conj keeps_all keeps_const seen.k_fail_unflushed)
        (auto simp: keeps_def slot_bounds dest!: set_zip_leftD unflushed_less)
  next
    fix r s
    assume *: "(length (fst r) = length ops \<and>
     (\<forall>i < length ops. op_path (fst r ! i) = op_path (ops ! i) \<and>
        (fail (fst r ! i) = None \<longrightarrow> fst r ! i = ops ! i \<and> (\<forall>err. (i, err) \<in> set (zip ?idx errs) \<longrightarrow> err = E0)))) \<and> ?F errs s"
    show "list_all2 (\<lambda>p op. op_flushed b G F p op s) ps (fst r)"
    proof (rule list_all2_all_nthI)
      fix i
      assume i: "i < length ps"
      have at: "op_path (fst r ! i) = ps ! i" using conjunct1[OF *] op[OF i] i len by simp
      have same: "fst r ! i = ops ! i" and err: "(i, err) \<in> set (zip ?idx errs) \<Longrightarrow> err = E0"
        if "fail (fst r ! i) = None" for err
        using conjunct1[OF *] i that unfolding len[symmetric] by blast+
      have "seen b (fact_flushed G (ops ! i)) s" if ok: "fail (fst r ! i) = None"
      proof -
        have "i \<in> set ?idx" using op[OF i] same[OF ok] ok by simp
        then obtain k where k: "k < length ?idx" "?idx ! k = i" by (auto simp: in_set_conv_nth)
        then have "(i, errs ! k) \<in> set (zip ?idx errs)" using conjunct2[OF *] by (auto simp: set_zip)
        then show ?thesis using conjunct2[OF *] k err[OF ok] by blast
      qed
      then show "op_flushed b G F (ps ! i) (fst r ! i) s" using at same op[OF i] by (auto simp: op_flushed_def)
    qed (use * len in simp)
  qed
  show "gives (\<lambda>s. list_all2 (\<lambda>p op. op_built b G F p op s) ps ops) (flush_ops E ops) (\<lambda>r s. list_all2 (\<lambda>p op. op_flushed b G F p op s) ps (fst r))"
    unfolding flush_ops_def Let_def by (rule gives_bind[OF flush post])
qed

lemma keeps_op_flushed: "(\<And>q. keeps (seen b q) m) \<Longrightarrow> keeps (op_flushed b G F p op) m"
  unfolding op_flushed_def by (intro keeps_conj keeps_const keeps_fixed) simp

lemma close_op_res:
  "gives P (close_op E op slot what) (\<lambda>r _. op_path (fst r) = op_path op \<and>
     (fail (fst r) = None \<longrightarrow> fst r = op\<lparr>op_fd := -1\<rparr>))"
proof -
  have "gives P' (do { op \<leftarrow> op_fail E (op\<lparr>op_fd := -1\<rparr>) slot what; return (op, False) })
      (\<lambda>r _. op_path (fst r) = op_path op \<and> (fail (fst r) = None \<longrightarrow> fst r = op\<lparr>op_fd := -1\<rparr>))" for P'
    by (rule gives_bind[OF op_fail_res], rule gives_return) auto
  then show ?thesis unfolding close_op_def Let_def by (intro gives_skip[where m = "sys_ok E _"] gives_if gives_return) simp_all
qed

text \<open>The files without a temporary name are closed once they are flushed.\<close>

lemma close_plain_flushed:
  assumes "\<And>i. i \<in> set is \<Longrightarrow> i < PENDING_SLOTS"
  shows "gives (\<lambda>s. list_all2 (\<lambda>p op. op_flushed b G F p op s) ps ops) (close_plain E ops is)
    (\<lambda>ops s. list_all2 (\<lambda>p op. op_flushed b G F p op s) ps ops)"
  using assms
proof (induction "is" arbitrary: ops)
  case (Cons i "is")
  let ?P = "\<lambda>ops s. list_all2 (\<lambda>p op. op_flushed b G F p op s) ps ops"
  have keep: "keeps (?P ops) m" if "\<And>q. keeps (seen b q) m" for m :: "('a, 'b) prog"
    by (intro keeps_list_all2 keeps_op_flushed that)
  have closed: "gives (?P ops) (close_op E (ops ! i) i ''cannot write'')
      (\<lambda>r s. (op_path (fst r) = op_path (ops ! i) \<and> (fail (fst r) = None \<longrightarrow> fst r = (ops ! i)\<lparr>op_fd := -1\<rparr>)) \<and> ?P ops s)"
    by (intro gives_conj close_op_res gives_keeps keep seen.k_close_op) (use Cons.prems in simp)
  have update: "gives (\<lambda>s. (op_path x = op_path (ops ! i) \<and> (fail x = None \<longrightarrow> x = (ops ! i)\<lparr>op_fd := -1\<rparr>)) \<and> ?P ops s)
      (close_plain E (ops[i := x]) is) ?P" if "way (ops ! i) = WAY_PLAIN" for x
  proof (rule gives_weaken[OF Cons.IH])
    fix s :: "'a pst"
    assume *: "(op_path x = op_path (ops ! i) \<and> (fail x = None \<longrightarrow> x = (ops ! i)\<lparr>op_fd := -1\<rparr>)) \<and> ?P ops s"
    show "?P (ops[i := x]) s"
    proof (rule list_all2_all_nthI)
      fix j
      assume "j < length ps"
      then have "op_flushed b G F (ps ! j) (ops ! j) s" "j < length ops" using * by (auto simp: list_all2_conv_all_nth)
      then show "op_flushed b G F (ps ! j) (ops[i := x] ! j) s"
        using * that by (cases "j = i") (auto simp: op_flushed_def op_fact_def op_name_def)
    qed (use * list_all2_lengthD in auto)
  qed (use Cons.prems in simp)
  show ?case
    unfolding close_plain.simps by (intro gives_if gives_bind[OF closed] update Cons.IH) (use Cons.prems in simp_all)
qed (simp add: gives_return)

lemma flush_batch_flushed:
  assumes "errno_set E" "length ps \<le> NEWFILE_BATCH" "\<And>fd. grows (G fd)"
  shows "gives (\<lambda>s. list_all2 (\<lambda>p op. op_built b G F p op s) ps ops) (flush_batch E ops)
    (\<lambda>ops s. list_all2 (\<lambda>p op. op_flushed b G F p op s) ps ops)"
proof -
  have "gives (\<lambda>s. list_all2 (\<lambda>p op. op_built b G F p op s) ps ops) (flush_ops E ops)
      (\<lambda>r s. (length (fst r) = length ops \<and> (\<forall>i \<in> set (snd r). i < length ops)) \<and> list_all2 (\<lambda>p op. op_flushed b G F p op s) ps (fst r))"
    by (rule gives_conj[OF _ flush_ops_flushed[OF assms]]) (simp only: gives_def flush_ops_res simp_thms)
  moreover have "gives (\<lambda>s. (length (fst r) = length ops \<and> (\<forall>i \<in> set (snd r). i < length ops)) \<and> list_all2 (\<lambda>p op. op_flushed b G F p op s) ps (fst r))
      (case r of (ops, ks) \<Rightarrow> close_plain E ops ks) (\<lambda>ops s. list_all2 (\<lambda>p op. op_flushed b G F p op s) ps ops)" for r
    unfolding case_prod_beta
    by (rule gives_assume, rule gives_weaken[OF close_plain_flushed])
      (use assms(2) in \<open>fastforce simp: slot_bounds dest: list_all2_lengthD\<close>, simp)
  ultimately show ?thesis unfolding flush_batch_def by (rule gives_bind)
qed

subsection \<open>Naming\<close>

text \<open>A name of a flushed file moved to another name.\<close>

definition moves :: "path \<Rightarrow> path \<Rightarrow> call \<Rightarrow> bool" where
  "moves a b c \<longleftrightarrow> c = C_link a b \<or> c = C_rename a b \<or> (\<exists>fl. c = C_renameat2 a b fl)"

lemma moves_safe:
  assumes "moves x y c"
  shows "gives (seen b (safe G x)) (sys_ok E c) (\<lambda>done_ok s. done_ok \<longrightarrow> seen b (safe G y) s)"
  by (rule sys_ok_seen) (use assms in \<open>auto simp: moves_def\<close>)

lemma keeps_imp_seen: "(\<And>q. keeps (seen b q) m) \<Longrightarrow> keeps (\<lambda>s. P \<longrightarrow> seen b q s) m"
  by (intro keeps_const) simp

lemma fast_rename2_safe: "gives (seen b (safe G x)) (fast_rename2 E x y fl) (\<lambda>ret s. (ret = 0 \<longrightarrow> seen b (safe G y) s) \<and> seen b (safe G x) s)"
proof (rule gives_conj)
  show "gives (seen b (safe G x)) (fast_rename2 E x y fl) (\<lambda>ret s. ret = 0 \<longrightarrow> seen b (safe G y) s)"
    unfolding fast_rename2_def
    by (intro gives_bind[OF moves_safe] gives_keep[OF keeps_get_errno] gives_return) (auto simp: moves_def)
  show "gives (seen b (safe G x)) (fast_rename2 E x y fl) (\<lambda>_. seen b (safe G x))"
    unfolding fast_rename2_def by (intro gives_keeps keeps_rules seen.k_sys_ok seen.c_sys)
qed

lemma place_over_safe: "gives (seen b (safe G x)) (place_over E x y slot) (\<lambda>ret s. ret = 0 \<longrightarrow> seen b (safe G y) s)"
proof -
  have rest: "gives (\<lambda>s. ok \<longrightarrow> seen b (safe G y) s) (if ok then do { pending_clear slot; pending_release E old; return 0 }
       else do { keep_errno m; pending_release E old; return (-1) }) (\<lambda>ret s. ret = (0 :: int) \<longrightarrow> seen b (safe G y) s)" for ok old m
    unfolding pending_clear_def
    by (intro gives_if)
      (auto intro!: gives_keep[OF seen.v_pending] gives_keep[OF seen.k_release] gives_return
        gives_skip[where m = "keep_errno _"] gives_skip[where m = "pending_release E old" and P = "\<lambda>_. True"])
  have "gives (seen b (safe G x)) (over_created E x y slot old fd st) (\<lambda>ret s. ret = 0 \<longrightarrow> seen b (safe G y) s)" for old fd st
    unfolding over_created_def
    by (intro gives_keep[OF seen.c_sys] gives_bind[OF moves_safe[where y = y]] rest) (simp add: moves_def)
  then show ?thesis
    unfolding place_over_def
    by (intro gives_keep[OF seen.k_hold] gives_keep[OF seen.v_create_excl] gives_case_option gives_case_prod)
      (auto intro!: gives_skip gives_return)
qed

lemma place_commit_safe: "gives (seen b (safe G x)) (place_commit E x y slot) (\<lambda>r s. fst r = 0 \<longrightarrow> seen b (safe G y) s)"
proof -
  have over: "gives (seen b (safe G x)) (do { ret \<leftarrow> place_over E x y slot; return (ret, False) }) (\<lambda>r s. fst r = 0 \<longrightarrow> seen b (safe G y) s)"
    by (rule gives_bind[OF place_over_safe], rule gives_return) simp
  have link: "gives (seen b (safe G x)) (sys_ok E (C_link x y)) (\<lambda>ok s. (ok \<longrightarrow> seen b (safe G y) s) \<and> seen b (safe G x) s)"
    by (intro gives_conj moves_safe gives_keeps seen.k_sys_ok seen.c_sys) (simp add: moves_def)
  have linked: "gives (\<lambda>s. (ok \<longrightarrow> seen b (safe G y) s) \<and> seen b (safe G x) s)
      (if ok then return (0, True) else do { e \<leftarrow> get_errno; if P e then return (-1, False)
         else do { ret \<leftarrow> place_over E x y slot; return (ret, False) } }) (\<lambda>r s. fst r = 0 \<longrightarrow> seen b (safe G y) s)" for ok P
    by (cases ok) (auto intro!: gives_return gives_if gives_keep[OF keeps_get_errno] over)
  have "gives (\<lambda>s. (ret = 0 \<longrightarrow> seen b (safe G y) s) \<and> seen b (safe G x) s)
      (if ret = 0 then do { pending_clear slot; return (0, False) }
       else if ret < 0 then return (-1, False) else do {
         linked \<leftarrow> sys_ok E (C_link x y);
         if linked then return (0, True) else do { e \<leftarrow> get_errno; if P e then return (-1, False)
         else do { ret \<leftarrow> place_over E x y slot; return (ret, False) } } }) (\<lambda>r s. fst r = 0 \<longrightarrow> seen b (safe G y) s)" for ret :: int and P
    unfolding pending_clear_def
    by (cases "ret = 0")
      (auto intro!: gives_return gives_keep[OF keeps_conj[OF seen.v_pending seen.v_pending]] gives_bind[OF link] linked)
  then show ?thesis
    unfolding place_commit_def fast_rename_noreplace_def by (rule gives_bind[OF fast_rename2_safe])
qed

lemma place_rename_safe: "gives (seen b (safe G x)) (place_rename E x y slot) (\<lambda>ret s. ret = 0 \<longrightarrow> seen b (safe G y) s)"
proof -
  have rest: "gives (\<lambda>s. ok \<longrightarrow> seen b (safe G y) s) (do {
       whenM ok (do { pending_clear slot; pending_clear PENDING_BACKUP });
       pending_release E old; return (if ok then 0 else -1) }) (\<lambda>ret s. ret = (0 :: int) \<longrightarrow> seen b (safe G y) s)" for ok old
    unfolding pending_clear_def
    by (intro gives_keep keeps_imp_seen keeps_rules seen.v_pending seen.k_release gives_return) auto
  show ?thesis
    unfolding place_rename_def
    by (intro gives_keep[OF seen.k_hold] gives_bind[OF moves_safe[where y = y]] rest) (simp add: moves_def)
qed

lemma place_exchange_safe:
  "gives (seen b (safe G x)) (place_exchange E x y slot st) (\<lambda>ret s. (ret = 0 \<longrightarrow> seen b (safe G y) s) \<and> seen b (safe G x) s)"
proof -
  have rest: "gives (\<lambda>s. (ret = 0 \<longrightarrow> seen b (safe G y) s) \<and> seen b (safe G x) s) (do {
       whenM (ret = 0) (do { pending_retarget slot st; pending_clear PENDING_BACKUP });
       pending_release E old; return ret }) (\<lambda>ret s. (ret = 0 \<longrightarrow> seen b (safe G y) s) \<and> seen b (safe G x) s)" for ret :: int and old
    unfolding pending_clear_def pending_retarget_def
    by (intro gives_keep keeps_conj keeps_imp_seen keeps_rules seen.v_pending seen.k_release gives_return) auto
  show ?thesis
    unfolding place_exchange_def fast_exchange_def by (intro gives_keep[OF seen.k_hold] gives_bind[OF fast_rename2_safe] rest)
qed

text \<open>The operation has its name, or failed.\<close>

definition op_named :: "event list \<Rightarrow> (fd \<Rightarrow> event list \<Rightarrow> bool) \<Rightarrow> path \<Rightarrow> op \<Rightarrow> 'w pst \<Rightarrow> bool" where
  "op_named b G p op s \<longleftrightarrow> op_path op = p \<and> (fail op = None \<longrightarrow> seen b (safe G p) s)"

lemma keeps_op_named: "(\<And>q. keeps (seen b q) m) \<Longrightarrow> keeps (op_named b G p op) m"
  unfolding op_named_def by (intro keeps_conj keeps_const keeps_fixed) simp

lemma op_fail_named: "op_path op = p \<Longrightarrow> gives P (do { op \<leftarrow> op_fail E op slot what; return (op, x) }) (\<lambda>r. op_named b G p (fst r))"
  by (rule gives_bind[OF op_fail_res], rule gives_return) (auto simp: op_named_def)

lemma replace_rename_named:
  assumes "op_path op = p"
  shows "gives (seen b (safe G t)) (replace_rename E op slot t go) (\<lambda>r. op_named b G p (fst r))"
proof -
  have try_ok: "gives (seen b (safe G t)) (if go then place_rename E t (op_path op) slot else return (-1)) (\<lambda>ret s. ret = 0 \<longrightarrow> seen b (safe G p) s)"
    using assms by (intro gives_if gives_return) (simp_all add: place_rename_safe)
  have "gives (\<lambda>s. ret = 0 \<longrightarrow> seen b (safe G p) s) (if ret \<noteq> 0 then do {
       _ \<leftarrow> pending_remove E PENDING_BACKUP;
       op \<leftarrow> op_fail E op slot what;
       return (op, False) }
     else return (op\<lparr>tmppath := None\<rparr>, True)) (\<lambda>r. op_named b G p (fst r))" for ret :: int and what
    by (intro gives_if gives_skip[where m = "pending_remove E _"] op_fail_named gives_return) (use assms in \<open>simp_all add: op_named_def\<close>)
  then show ?thesis unfolding replace_rename_def by (rule gives_bind[OF try_ok])
qed

lemma replace_backed_named:
  assumes "op_path op = p"
  shows "gives (seen b (safe G t)) (replace_backed E op slot d t st) (\<lambda>r. op_named b G p (fst r))"
proof -
  have hold: "keeps (seen b q) (whenM (\<not> held) (do {
       m \<leftarrow> pending_hold E;
       modify (spare_mask_update (\<lambda>_. m));
       modify (spare_held_update (\<lambda>_. True)) }))" for q held
    by (intro keeps_rules seen.k_hold seen.k_spare_mask seen.k_spare_held)
  have drop: "keeps (seen b q) (whenM (\<not> held) (do {
         modify (spare_held_update (\<lambda>_. False));
         m \<leftarrow> gets spare_mask;
         pending_release E m }))" for q held
    by (intro keeps_rules seen.k_release seen.k_spare_held)
  have flush: "keeps (seen b q) (if c then flush_dir E d else return 0)" for q c
    by (intro keeps_rules seen.k_flush_dir)
  have exchanged: "gives (\<lambda>s. (ret = 0 \<longrightarrow> seen b (safe G (op_path op)) s) \<and> seen b (safe G t) s)
      (if ret = 0 then return (op\<lparr>spare := Some t, tmppath := None\<rparr>, True)
       else do {
         whenM (\<not> held) (do {
           modify (spare_held_update (\<lambda>_. False));
           m \<leftarrow> gets spare_mask;
           pending_release E m });
         flushed \<leftarrow> (if ret = 1 then flush_dir E d else return 0);
         if flushed \<noteq> 0 then do {
           _ \<leftarrow> pending_remove E PENDING_BACKUP;
           op \<leftarrow> op_fail E op slot ''cannot back up'';
           return (op, False) }
         else replace_rename E op slot t (0 \<le> ret) }) (\<lambda>r. op_named b G p (fst r))" for ret held
  proof (cases "ret = 0")
    case False
    then show ?thesis
      by (simp only: if_False simp_thms)
        (intro gives_keep[OF drop] gives_keep[OF flush] gives_if gives_skip[where m = "pending_remove E _"]
          op_fail_named replace_rename_named assms)
  qed (use assms in \<open>auto intro!: gives_return simp: op_named_def\<close>)
  show ?thesis
    unfolding replace_backed_def
    by (intro gives_keep[OF keeps_gets] gives_keep[OF hold] gives_bind[OF place_exchange_safe] exchanged)
qed

lemma replace_one_named:
  assumes "op_path op = p"
  shows "gives (seen b (safe G (case tmppath op of Some t \<Rightarrow> t | None \<Rightarrow> []))) (replace_one E op slot d spec) (\<lambda>r. op_named b G p (fst r))"
proof -
  have backup: "keeps (seen b q) (if c then backup_make E x y else return z)" for q c x y z
    by (intro keeps_rules seen.b_backup_make TrueI)
  show ?thesis
    unfolding replace_one_def Let_def
    by (intro gives_keep[OF backup] gives_case_prod gives_if op_fail_named replace_backed_named replace_rename_named)
      (simp_all add: assms)
qed

lemma fact_temp: "seen b (fact_flushed G op) s \<Longrightarrow> way op = WAY_TEMP \<Longrightarrow> seen b (safe G (case tmppath op of Some t \<Rightarrow> t | None \<Rightarrow> [])) s"
  by (erule seen_mono) (auto simp: op_fact_def op_name_def split: option.splits)

lemma name_force_named:
  assumes "op_path op = p" "slot < PENDING_SLOTS" "way op \<noteq> WAY_PLAIN"
  shows "gives (seen b (fact_flushed G op)) (name_force E op slot d spec) (\<lambda>r. op_named b G p (fst r))"
proof (cases "way op = WAY_UNNAMED")
  case True
  have link: "gives (seen b (preceded (syncs (op_fd op)) (G (op_fd op)))) (place_temp_link E (op_fd op) (op_path op) slot) (yields b (\<lambda>_. True) (safe G))"
    by (rule place_temp_link_seen[OF assms(2)]) (auto dest: syncs_path_of)
  have "gives (yields b (\<lambda>_. True) (safe G) t) (case t of
          None \<Rightarrow> do { op \<leftarrow> op_fail E op slot what; return (op, False) }
        | Some tmp \<Rightarrow> replace_one E (op\<lparr>tmppath := Some tmp\<rparr>) slot d spec) (\<lambda>r. op_named b G p (fst r))" for t what
    using replace_one_named[of "op\<lparr>tmppath := Some (the t)\<rparr>" p b G E slot d spec]
    by (cases t) (auto intro!: op_fail_named assms elim: gives_weaken simp: assms(1))
  then show ?thesis
    unfolding name_force_def if_P[OF True] op_fact_def by (rule gives_bind[OF link])
next
  case False
  then have "way op = WAY_TEMP" using assms(3) by (cases "way op") simp_all
  then show ?thesis
    unfolding name_force_def if_not_P[OF False] by (intro gives_weaken[OF replace_one_named[OF assms(1)]] fact_temp)
qed

lemma name_new_named:
  assumes "op_path op = p" "slot < PENDING_SLOTS" "fail op = None"
  shows "gives (seen b (fact_flushed G op)) (name_new E op slot) (\<lambda>r. op_named b G p (fst r))"
proof (cases "way op")
  case WAY_PLAIN
  then show ?thesis by (simp add: name_new_def gives_return op_named_def op_fact_def op_name_def assms)
next
  case WAY_UNNAMED
  have link: "gives (seen b (preceded (syncs (op_fd op)) (G (op_fd op)))) (fast_link E (op_fd op) (op_path op)) (\<lambda>ret s. ret = 0 \<longrightarrow> seen b (safe G p) s)"
    by (rule fast_link_seen) (auto dest: syncs_path_of simp: assms)
  have "gives (\<lambda>s. ret = 0 \<longrightarrow> seen b (safe G p) s) (if ret \<noteq> 0 then do { op \<leftarrow> op_fail E op slot what; return (op, False) }
      else return (op, True)) (\<lambda>r. op_named b G p (fst r))" for ret :: int and what
    by (intro gives_if op_fail_named gives_return) (simp_all add: assms op_named_def)
  then show ?thesis
    unfolding name_new_def WAY_UNNAMED op_way.case by (simp add: op_fact_def WAY_UNNAMED) (rule gives_bind[OF link])
next
  case WAY_TEMP
  have commit: "gives (seen b (fact_flushed G op)) (place_commit E (case tmppath op of Some t \<Rightarrow> t | None \<Rightarrow> []) p slot)
      (\<lambda>r s. fst r = 0 \<longrightarrow> seen b (safe G p) s)"
    by (rule gives_weaken[OF place_commit_safe]) (erule fact_temp[OF _ WAY_TEMP])
  have "gives (\<lambda>s. fst r = 0 \<longrightarrow> seen b (safe G p) s) (case r of (ret, linked) \<Rightarrow>
      if ret \<noteq> 0 then do { op \<leftarrow> op_fail E op slot what; return (op, False) }
      else return (if linked then op else op\<lparr>tmppath := None\<rparr>, True)) (\<lambda>r. op_named b G p (fst r))" for r :: "int \<times> bool" and what
    by (intro gives_case_prod gives_if op_fail_named gives_return) (auto simp: assms op_named_def)
  then show ?thesis
    unfolding name_new_def WAY_TEMP op_way.case assms(1)
    by (rule gives_bind[OF commit])
qed

lemma name_one_named:
  assumes "slot < PENDING_SLOTS"
  shows "gives (op_flushed b G (force_mode spec) p op) (name_one E op slot spec) (op_named b G p)"
proof (cases "fail op = None \<and> op_path op = p \<and> (force_mode spec \<longrightarrow> way op \<noteq> WAY_PLAIN)")
  case True
  have after: "gives (op_named b G p (fst r)) (case r of (op, ok) \<Rightarrow> if \<not> ok then return op else do {
       whenM (way op = WAY_PLAIN) (pending_clear slot);
       flush_set_add E d;
       return op }) (op_named b G p)" for r d
    unfolding pending_clear_def
    by (intro gives_case_prod gives_if gives_return gives_keep[OF keeps_op_named] keeps_rules seen.v_pending seen.v_flush_set_add) auto
  have bad: "gives P (op_fail E op slot what) (op_named b G p)" for P what
    by (rule gives_mono[OF op_fail_res]) (use True in \<open>auto simp: op_named_def\<close>)
  have "gives (seen b (fact_flushed G op)) (if force_mode spec then name_force E op slot d spec else name_new E op slot) (\<lambda>r. op_named b G p (fst r))" for d
    by (intro gives_if name_force_named name_new_named) (use True assms in auto)
  then have "gives (seen b (fact_flushed G op)) (name_one E op slot spec) (op_named b G p)"
    unfolding name_one_def using True
    by (simp only: if_False simp_thms)
      (intro gives_keep[OF seen.k_path_dir] gives_case_option bad; rule gives_bind, assumption, rule after)
  then show ?thesis by (rule gives_weaken) (use True in \<open>simp add: op_flushed_def\<close>)
qed (auto simp: name_one_def gives_def op_flushed_def op_named_def)

lemma name_all_named:
  "i + length ops \<le> PENDING_SLOTS \<Longrightarrow>
     gives (\<lambda>s. list_all2 (\<lambda>p op. op_flushed b G (force_mode spec) p op s) ps ops) (name_all E spec i ops)
       (\<lambda>ops s. list_all2 (\<lambda>p op. op_named b G p op s) ps ops)"
proof (induction ops arbitrary: i ps)
  case (Cons op ops)
  show ?case
  proof (cases ps)
    case ps: (Cons p ps')
    let ?L = "\<lambda>s. list_all2 (\<lambda>p op. op_flushed b G (force_mode spec) p op s) ps' ops"
    have "keeps ?L (name_one E op i spec)"
      by (intro keeps_list_all2 keeps_op_flushed seen.k_name_one) (use Cons.prems in simp_all)
    then have one: "gives (\<lambda>s. list_all2 (\<lambda>p op. op_flushed b G (force_mode spec) p op s) ps (op # ops))
        (name_one E op i spec) (\<lambda>op' s. op_named b G p op' s \<and> ?L s)"
      by (intro gives_conj gives_weaken[OF name_one_named] gives_weaken[OF gives_keeps]) (use Cons.prems ps in auto)
    have rest: "gives (\<lambda>s. op_named b G p op' s \<and> ?L s) (name_all E spec (Suc i) ops)
        (\<lambda>ops s. op_named b G p op' s \<and> list_all2 (\<lambda>p op. op_named b G p op s) ps' ops)" for op'
      by (intro gives_conj gives_weaken[OF gives_keeps[OF keeps_op_named[OF seen.k_name_all]]] gives_weaken[OF Cons.IH])
        (use Cons.prems in auto)
    show ?thesis unfolding name_all.simps by (intro gives_bind[OF one] gives_bind[OF rest] gives_return) (simp add: ps)
  qed (simp add: gives_def)
qed (simp add: gives_return)

subsection \<open>Settling\<close>

text \<open>Afterwards operations only fail: their names and what is known of them stays.\<close>

definition no_better :: "op list \<Rightarrow> op list \<Rightarrow> bool" where
  "no_better ops ops' \<longleftrightarrow> list_all2 (\<lambda>op op'. op_path op' = op_path op \<and> (fail op' = None \<longrightarrow> fail op = None)) ops ops'"

lemma no_better_refl: "no_better ops ops"
  by (simp add: no_better_def list_all2_same)

lemma no_better_trans: "no_better a b \<Longrightarrow> no_better b c \<Longrightarrow> no_better a c"
  unfolding no_better_def by (rule list_all2_trans[of _ _ _ a b c]) auto

lemma no_better_update:
  "op_path x = op_path (ops ! i) \<Longrightarrow> (fail x = None \<Longrightarrow> fail (ops ! i) = None) \<Longrightarrow> no_better ops (ops[i := x])"
  unfolding no_better_def list_all2_conv_all_nth by (simp, metis nth_list_update_eq nth_list_update_neq)

lemma no_better_named:
  "no_better ops ops' \<Longrightarrow> list_all2 (\<lambda>p op. op_named b G p op s) ps ops \<Longrightarrow> list_all2 (\<lambda>p op. op_named b G p op s) ps ops'"
  unfolding no_better_def by (rule list_all2_trans[of _ _ _ ps ops ops']) (auto simp: op_named_def)

lemma settle_one_worse: "gives P (settle_one E op slot) (\<lambda>op' _. op_path op' = op_path op \<and> (fail op' = None \<longrightarrow> fail op = None))"
proof -
  have "gives (\<lambda>_. op_path (fst r) = op_path op \<and> (fail (fst r) = None \<longrightarrow> fst r = op\<lparr>op_fd := -1\<rparr>))
      (case r of (op, closed) \<Rightarrow>
       if \<not> closed \<or> tmppath op = None then return op
       else do {
         ret \<leftarrow> pending_remove E slot;
         return (op\<lparr>leftover := leftover op \<or> ret \<noteq> 0, tmppath := None\<rparr>) })
      (\<lambda>op' _. op_path op' = op_path op \<and> (fail op' = None \<longrightarrow> fail op = None))" for r
    by (rule gives_assume) (auto simp: gives_def intro!: wp_any split: prod.split)
  then show ?thesis unfolding settle_one_def by (rule gives_bind[OF close_op_res])
qed

lemma settle_each_worse: "gives P (settle_each E ops is) (\<lambda>ops' _. no_better ops ops')"
proof (induction "is" arbitrary: ops P)
  case (Cons i "is")
  have "gives (\<lambda>_. op_path x = op_path (ops ! i) \<and> (fail x = None \<longrightarrow> fail (ops ! i) = None))
      (settle_each E (ops[i := x]) is) (\<lambda>ops' _. no_better ops ops')" for x
    by (rule gives_assume, rule gives_mono[OF Cons.IH]) (auto intro: no_better_trans[OF no_better_update])
  then show ?case unfolding settle_each.simps by (rule gives_bind[OF settle_one_worse])
qed (simp add: gives_return no_better_refl)

lemma settle_batch_worse: "gives P (settle_batch E ops) (\<lambda>ops' _. no_better ops ops')"
proof -
  have "gives P (flush_ops E ops) (\<lambda>r _. no_better ops (fst r))"
    unfolding flush_ops_def Let_def
    by (rule gives_skip, rule gives_mono[OF fail_unflushed_kept]) (auto simp: no_better_def list_all2_conv_all_nth)
  moreover have "gives (\<lambda>_. no_better ops (fst r)) (case r of (ops, ks) \<Rightarrow> settle_each E ops ks) (\<lambda>ops' _. no_better ops ops')" for r
    by (rule gives_assume, simp add: case_prod_beta, rule gives_mono[OF settle_each_worse]) (auto intro: no_better_trans)
  ultimately show ?thesis unfolding settle_batch_def by (rule gives_bind)
qed

lemma drop_spares_worse: "gives P (drop_spares E ops) (\<lambda>ops' _. no_better ops ops')"
proof -
  have spare: "gives P (drop_spare E op i) (\<lambda>op' _. op_path op' = op_path op \<and> (fail op' = None \<longrightarrow> fail op = None))" for P op i
    unfolding drop_spare_def by (intro gives_case_option gives_skip gives_if gives_return) simp_all
  have "gives P (drop_each E i ops) (\<lambda>ops' _. no_better ops ops')" for i and P :: "'a pst \<Rightarrow> bool"
  proof (induction ops arbitrary: i P)
    case (Cons op ops)
    have "gives (\<lambda>_. op_path x = op_path op \<and> (fail x = None \<longrightarrow> fail op = None))
        (do { ops \<leftarrow> drop_each E (Suc i) ops; return (x # ops) }) (\<lambda>ops' _. no_better (op # ops) ops')" for x
      by (rule gives_assume, rule gives_bind[OF Cons.IH], rule gives_return) (auto simp: no_better_def)
    then show ?case unfolding drop_each.simps by (rule gives_bind[OF spare])
  qed (simp add: gives_return no_better_def)
  moreover have "gives (\<lambda>_. no_better ops ops1) (do { held \<leftarrow> gets spare_held;
     whenM held (do {
       modify (spare_held_update (\<lambda>_. False));
       m \<leftarrow> gets spare_mask;
       pending_release E m });
     return ops1 }) (\<lambda>ops' _. no_better ops ops')" for ops1
    by (rule gives_assume) (auto intro!: gives_skip gives_return)
  ultimately show ?thesis unfolding drop_spares_def by (rule gives_bind)
qed

subsection \<open>A batch\<close>

lemma run_batch_named:
  assumes "errno_set E" "length ps \<le> NEWFILE_BATCH"
  shows "gives (since b) (run_batch E spec ps) (\<lambda>ops s. list_all2 (\<lambda>p op. op_named b (ready spec) p op s) ps ops \<and> since b s)"
proof (rule gives_conj)
  let ?built = "\<lambda>ops s. list_all2 (\<lambda>p op. op_built b (ready spec) (force_mode spec) p op s) ps ops"
  let ?flushed = "\<lambda>ops s. list_all2 (\<lambda>p op. op_flushed b (ready spec) (force_mode spec) p op s) ps ops"
  let ?named = "\<lambda>ops s. list_all2 (\<lambda>p op. op_named b (ready spec) p op s) ps ops"
  have finish: "gives (?named ops) (do { ops \<leftarrow> settle_batch E ops; flush_set_run E; drop_spares E ops }) ?named"
    if "length ops = length ps" for ops
  proof -
    have keep: "keeps (?named ops1) m" if "\<And>q. keeps (seen b q) m" for ops1 and m :: "('a, 'b) prog"
      by (intro keeps_list_all2 keeps_op_named that)
    have settle: "gives (?named ops) (settle_batch E ops) (\<lambda>ops' s. length ops' = length ps \<and> ?named ops' s)"
    proof (rule gives_mono[OF gives_conj[OF settle_batch_worse gives_keeps[OF keep[OF seen.k_settle_batch]]]])
      show "length ops \<le> NEWFILE_BATCH" using that assms by simp
    next
      fix ops' s
      assume "no_better ops ops' \<and> ?named ops s"
      then have "?named ops' s" using no_better_named by blast
      then show "length ops' = length ps \<and> ?named ops' s" using list_all2_lengthD by metis
    qed
    have drop: "gives (\<lambda>s. length ops1 = length ps \<and> ?named ops1 s) (drop_spares E ops1) ?named" for ops1
    proof (cases "length ops1 = length ps")
      case True
      then have "keeps (?named ops1) (drop_spares E ops1)" using assms by (intro keep seen.k_drop_spares) simp
      then have "gives (?named ops1) (drop_spares E ops1) ?named"
        by (rule gives_mono[OF gives_conj[OF drop_spares_worse gives_keeps]]) (use no_better_named in blast)
      then show ?thesis by (rule gives_weaken) simp
    qed (simp add: gives_def)
    have run: "keeps (\<lambda>s. length ops1 = length ps \<and> ?named ops1 s) (flush_set_run E)" for ops1
      by (intro keeps_conj keeps_fixed keep seen.k_flush_set_run)
    show ?thesis by (intro gives_bind[OF settle] gives_keep[OF run] drop)
  qed
  have lens: "?flushed ops s \<Longrightarrow> length ops = length ps" "?named ops s \<Longrightarrow> length ops = length ps" for ops and s :: "'a pst"
    by (auto dest: list_all2_lengthD)
  have rest: "gives (?named ops) (do { ops \<leftarrow> settle_batch E ops; flush_set_run E; drop_spares E ops }) ?named" for ops
    by (rule gives_assume) (rule finish[OF lens(2)])
  have names: "gives (?flushed ops) (name_all E spec 0 ops) ?named" for ops
    by (rule gives_assume, rule name_all_named) (use assms(2) lens(1) in \<open>simp add: slot_bounds\<close>)
  have reset: "keeps (?flushed ops) backup_cache_reset" for ops
    by (intro keeps_list_all2 keeps_op_flushed seen.k_backup_cache_reset)
  show "gives (since b) (run_batch E spec ps) ?named"
    unfolding run_batch_def using assms(2)
    by (intro gives_keep[OF seen.k_flush_set_forget] gives_keep[OF seen.k_place_probe_reset] gives_bind[OF build_all_built]
        gives_bind[OF flush_batch_flushed[OF assms attributes_grow(3)]] gives_keep[OF reset] gives_bind[OF names] rest) (simp add: slot_bounds)
  show "gives (since b) (run_batch E spec ps) (\<lambda>_. since b)"
    by (intro gives_keeps seen.k_run_batch assms TrueI)
qed

text \<open>
  C4. Every file that a batch does not report as failed was made, flushed and named by the calls of
  that batch, and had everything that was asked for before it was flushed: the file was created, its size set
  when it is to be sparse, then its owner, and then its mode; after that \<^verbatim>\<open>fsync\<close> succeeded on its
  descriptor; and the operand's name is the one it was created or linked under, or was moved to from there,
  for every way a file can take to its name. No other calls are relied on, and the system may fail any of
  them in any way; only an error is assumed to have a number, as documented.
\<close>

theorem batch_flushed:
  assumes "errno_set E" "length ps \<le> NEWFILE_BATCH"
    and "run_state (run_batch E spec ps) s = (ops, t)" "run_status t = Running"
  shows "\<exists>new. trace t = new @ trace s \<and>
    list_all2 (\<lambda>p op. op_path op = p \<and> (fail op = None \<longrightarrow> safe (ready spec) p new)) ps ops"
proof -
  have "since (trace s) s" by (auto simp: seen_def)
  then have "wp (run_batch E spec ps) (\<lambda>ops u. list_all2 (\<lambda>p op. op_named (trace s) (ready spec) p op u) ps ops \<and> since (trace s) u) s"
    using run_batch_named[OF assms(1,2)] by (simp add: gives_def)
  from wp_run[OF this assms(3)]
  have ops: "list_all2 (\<lambda>p op. op_named (trace s) (ready spec) p op t) ps ops" and "since (trace s) t" by auto
  then obtain new where new: "trace t = new @ trace s" using seen_now[OF _ assms(4)] by fastforce
  have "op_named (trace s) (ready spec) p op t \<Longrightarrow> op_path op = p \<and> (fail op = None \<longrightarrow> safe (ready spec) p new)" for p op
    using seen_now[OF _ assms(4), of "trace s" "safe (ready spec) p"] new by (auto simp: op_named_def)
  then show ?thesis using new ops by (auto intro: list_all2_mono)
qed

text \<open>The simulated system numbers its errors, and a batch of one file on it.\<close>

lemma sim_errno_set: "errno_set sim_env"
proof -
  have open_ok: "fst (sim_open p fl m w) \<noteq> R_fail E0" for p fl m w
    by (cases "new_file m w") (simp add: sim_open_def split: option.split)
  have "fst (sim c w) \<noteq> R_fail E0" for c w
    by (cases c) (auto simp: open_ok sim_link_def sim_rename2_def stat_path_def on_fd_def change_def sim_seek_def Let_def
        split: option.splits if_splits prod.splits rename_flag.splits whence.splits)
  then show ?thesis by (simp add: errno_set_def sim_env_def)
qed

theorem batch_flushed_witness:
  "\<exists>ops t new. run_state (run_batch sim_env (pa_spec plain_run) [''x'']) (start (empty_fs True True)) = (ops, t) \<and>
     trace t = new \<and> safe (ready (pa_spec plain_run)) ''x'' new"
proof -
  let ?m = "run_state (run_batch sim_env (pa_spec plain_run) [''x'']) (start (empty_fs True True))"
  have run: "run_status (snd ?m) = Running" "map fail (fst ?m) = [None]" by code_simp+
  have "?m = (fst ?m, snd ?m)" by simp
  from batch_flushed[OF sim_errno_set _ this run(1)]
  obtain new where "trace (snd ?m) = new" "list_all2 (\<lambda>p op. op_path op = p \<and> (fail op = None \<longrightarrow> safe (ready (pa_spec plain_run)) p new)) [''x''] (fst ?m)"
    by (auto simp: NEWFILE_BATCH_def)
  then have "safe (ready (pa_spec plain_run)) ''x'' new" using run(2) by (auto simp: list_all2_Cons1)
  then show ?thesis using \<open>trace (snd ?m) = new\<close> by (metis prod.collapse)
qed

subsection \<open>The exit status\<close>

lemma report_all_res: "gives P (report_all E spec ops) (\<lambda>good _. good \<longrightarrow> list_all (\<lambda>op. fail op = None \<and> \<not> leftover op) ops)"
proof (induction ops arbitrary: P)
  case (Cons op ops)
  have one: "gives P (report_one E op spec) (\<lambda>good _. good = (fail op = None \<and> \<not> leftover op))"
    unfolding report_one_def by (intro gives_skip gives_return) simp
  have "gives (\<lambda>_. good = (fail op = None \<and> \<not> leftover op)) (do { rest \<leftarrow> report_all E spec ops; return (good \<and> rest) })
      (\<lambda>good _. good \<longrightarrow> list_all (\<lambda>op. fail op = None \<and> \<not> leftover op) (op # ops))" for good
    by (rule gives_assume, rule gives_bind[OF Cons.IH], rule gives_return) auto
  then show ?case unfolding report_all.simps by (rule gives_bind[OF one])
qed (simp add: gives_return)

text \<open>A file in place of an old one.\<close>

definition force_run :: "parsed" where
  "force_run =
     \<lparr>pa_spec = (fst spec_reset)\<lparr>fs_mode := 0x1B6, force_mode := True\<rparr>,
      pa_argv = [''newfile'', ''x''], pa_first = 1, pa_stderr = []\<rparr>"

end
