(* ===== verification/Durable.thy ===== *)
theory Durable
  imports Outcome
begin

text \<open>
  A successful run also flushed the directory of every file after the file was given its name, so
  that the name survives a crash. A directory the program may not open, and one that cannot be
  flushed at all, are passed over by the code and count as flushed here too; one that is the same as
  another, by device and inode, is flushed with it.
\<close>

subsection \<open>Directories in the record\<close>

definition dir_flags :: "oflag list" where
  "dir_flags = [O_RDONLY, O_DIRECTORY, O_CLOEXEC]"

definition opens_dir :: "path \<Rightarrow> fd \<Rightarrow> event \<Rightarrow> bool" where
  "opens_dir d fd e \<longleftrightarrow> ev_call e = C_open d dir_flags 0 \<and> reply_int (ev_reply e) = fd \<and> fd \<noteq> -1"

definition refuses_dir :: "path \<Rightarrow> event \<Rightarrow> bool" where
  "refuses_dir d e \<longleftrightarrow> ev_call e = C_open d dir_flags 0 \<and> (ev_reply e = R_fail EACCES \<or> ev_reply e = R_fail EPERM)"

definition identifies :: "fd \<Rightarrow> int \<times> int \<Rightarrow> event \<Rightarrow> bool" where
  "identifies fd who e \<longleftrightarrow> ev_call e = C_fstat fd \<and>
     (case ev_reply e of R_stat st \<Rightarrow> (st_dev st, st_ino st) = who | _ \<Rightarrow> False)"

text \<open>The descriptor \<open>fd\<close> is of the directory \<open>d\<close>, or of one that was found to be the same.\<close>

definition covers :: "path \<Rightarrow> fd \<Rightarrow> event list \<Rightarrow> bool" where
  "covers d fd tr \<longleftrightarrow> list_ex (opens_dir d fd) tr \<or>
     (\<exists>fd' who. list_ex (opens_dir d fd') tr \<and> list_ex (identifies fd' who) tr \<and> list_ex (identifies fd who) tr)"

fun dir_flushed :: "path \<Rightarrow> event list \<Rightarrow> bool" where
  "dir_flushed d [] = False"
| "dir_flushed d (e # tr) =
     (dir_flushed d tr \<or> refuses_dir d e \<or> (\<exists>fd. flushes True fd e \<and> covers d fd tr))"

lemma grows_dirs [simp]: "grows (dir_flushed d)" "grows (covers d fd)"
  by (auto simp: grows_def covers_def)

text \<open>An open that returns -1 has failed.\<close>

definition open_errno :: "'w env \<Rightarrow> bool" where
  "open_errno E \<longleftrightarrow> (\<forall>p fl m w. reply_int (fst (kern E (C_open p fl m) w)) = -1 \<longrightarrow> failed (fst (kern E (C_open p fl m) w)))"

subsection \<open>Facts that hold unless a directory could not be flushed\<close>

definition unless_lost :: "event list \<Rightarrow> (event list \<Rightarrow> bool) \<Rightarrow> 'w pst \<Rightarrow> bool" where
  "unless_lost b q s \<longleftrightarrow> 0 < dirs_nfailed s \<or> seen b q s"

lemma unless_lost_sys: "keeps (unless_lost b q) (sys E c)"
proof -
  have "keeps (\<lambda>s. 0 < dirs_nfailed s) (sys E c)" by (simp add: keeps_wp wp_sys)
  then show ?thesis using seen_sys[of b q E c] by (auto simp: unless_lost_def keeps_def)
qed

lemma unless_lost_modify:
  "(\<And>s. trace (f s) = trace s \<and> (run_status (f s) = Running \<longrightarrow> run_status s = Running) \<and>
      (0 < dirs_nfailed s \<longrightarrow> 0 < dirs_nfailed (f s))) \<Longrightarrow> keeps (unless_lost b q) (modify f)"
  by (rule keeps_modify) (auto simp: unless_lost_def seen_def)

interpretation unless_lost: kept_dirs "unless_lost b q" E for b q E
  by unfold_locales
    (simp_all add: unless_lost_sys unless_lost_modify put_stdout_def put_stderr_def out_of_fuel_def exit_def)

interpretation unless_lost: kept_calls "unless_lost b q" E for b q E
  by unfold_locales (simp_all add: unless_lost_sys unless_lost_modify unless_lost.v_flush_set_run)

interpretation unless_lost: kept_vars "unless_lost b q" E True for b q E
  by unfold_locales (simp add: unless_lost_modify)

lemma unless_lost_seen: "seen b q s \<Longrightarrow> unless_lost b q s"
  by (simp add: unless_lost_def)

lemma dir_failed_lost: "gives P (dir_failed E name err known dev ino) (\<lambda>_. unless_lost b q)"
proof -
  have rest: "gives P (do { error_print E msg; modify (dirs_nfailed_update Suc); m }) (\<lambda>_. unless_lost b q)"
    if "keeps (unless_lost b q) m" for msg and m :: "('a, unit) prog"
  proof -
    have up: "gives P' (modify (dirs_nfailed_update Suc)) (\<lambda>_. unless_lost b q)" for P'
      by (simp add: gives_def unless_lost_def)
    show ?thesis by (intro gives_skip[where m = "error_print E msg"] gives_bind[OF up] gives_keeps that)
  qed
  show ?thesis
    unfolding dir_failed_def
    by (rule rest) (intro keeps_rules unless_lost.v_failures_lost unless_lost.v_failures unless_lost.k_alloc)
qed

subsection \<open>Opening the directories of the set\<close>

lemma gives_get_errno: "(\<And>e. gives (\<lambda>s. P s \<and> errno s = e) (f e) Q) \<Longrightarrow> gives P (do { e \<leftarrow> get_errno; f e }) Q"
  by (simp add: gives_def)


lemma open_dir_seen:
  assumes "open_errno E"
  shows "gives (since b) (open_dir E d)
    (\<lambda>fd s. since b s \<and> (fd \<noteq> -1 \<longrightarrow> seen b (list_ex (opens_dir d fd)) s) \<and>
       (fd = -1 \<longrightarrow> errno s = EACCES \<or> errno s = EPERM \<longrightarrow> seen b (dir_flushed d) s))"
proof -
  let ?c = "C_open d dir_flags 0"
  have opened: "gives (since b) (sys E ?c) (\<lambda>r s. reply_int r \<noteq> -1 \<longrightarrow> seen b (list_ex (opens_dir d (reply_int r))) s)"
    by (rule sys_seen) (simp_all add: opens_dir_def)
  have refused: "gives (since b) (sys E ?c) (\<lambda>r s. r = R_fail EACCES \<or> r = R_fail EPERM \<longrightarrow> seen b (dir_flushed d) s)"
    by (rule sys_seen) (auto simp: refuses_dir_def)
  have number: "gives (since b) (sys E ?c) (\<lambda>r s. reply_int r = -1 \<longrightarrow> run_status s \<noteq> Running \<or> r = R_fail (errno s))"
    unfolding gives_def
  proof (intro allI impI)
    fix s :: "'a pst"
    show "wp (sys E ?c) (\<lambda>r s. reply_int r = -1 \<longrightarrow> run_status s \<noteq> Running \<or> r = R_fail (errno s)) s"
    proof -
      have "reply_int (fst (kern E ?c (world s))) = -1 \<longrightarrow> failed (fst (kern E ?c (world s)))"
        using assms by (simp add: open_errno_def)
      then show ?thesis by (cases "fst (kern E ?c (world s))") (auto simp: wp_sys)
    qed
  qed
  show ?thesis
    unfolding open_dir_def sys_int_def dir_flags_def[symmetric]
    by (rule gives_bind[OF gives_conj[OF gives_conj[OF opened refused] gives_conj[OF number gives_keeps[OF seen.c_sys]]]],
        rule gives_return) (auto simp: seen_def)
qed

text \<open>What becomes of a directory of the set: it is flushed already, or one of the descriptors opened is of it.\<close>

definition found :: "event list \<Rightarrow> path \<Rightarrow> open_dir_entry list \<Rightarrow> 'w pst \<Rightarrow> bool" where
  "found b d acc s \<longleftrightarrow> unless_lost b (dir_flushed d) s \<or> (\<exists>x \<in> set acc. unless_lost b (covers d (od_fd x)) s)"

definition known_entries :: "event list \<Rightarrow> open_dir_entry list \<Rightarrow> 'w pst \<Rightarrow> bool" where
  "known_entries b acc s \<longleftrightarrow> (\<forall>x. x \<in> set acc \<longrightarrow> od_known x \<longrightarrow> seen b (list_ex (identifies (od_fd x) (od_dev x, od_ino x))) s)"

lemma keeps_found: "(\<And>q. keeps (unless_lost b q) m) \<Longrightarrow> keeps (found b d acc) m"
  unfolding found_def keeps_def by blast

lemma keeps_known: "(\<And>q. keeps (seen b q) m) \<Longrightarrow> keeps (known_entries b acc) m"
  unfolding known_entries_def by (intro keeps_all keeps_const) simp

lemma found_more: "found b d acc s \<Longrightarrow> found b d (acc @ xs) s"
  by (auto simp: found_def)

lemma covers_same:
  assumes "seen b (list_ex (opens_dir d fd)) s" "seen b (list_ex (identifies fd who)) s" "seen b (list_ex (identifies fd' who)) s"
  shows "seen b (covers d fd') s"
proof -
  have "seen b (\<lambda>tr. list_ex (opens_dir d fd) tr \<and> list_ex (identifies fd who) tr) s"
    by (rule seen_both[OF assms(1,2)]) simp_all
  then show ?thesis by (rule seen_both[OF _ assms(3)]) (simp add: grows_def, simp, unfold covers_def, blast)
qed

lemma covers_opened: "seen b (list_ex (opens_dir d fd)) s \<Longrightarrow> seen b (covers d fd) s"
  by (erule seen_mono) (simp add: covers_def)

text \<open>One directory of the loop, when it could not be opened and when it could.\<close>

definition set_open_inv :: "event list \<Rightarrow> path \<Rightarrow> open_dir_entry list \<Rightarrow> path list \<Rightarrow> 'w pst \<Rightarrow> bool" where
  "set_open_inv b d acc ds s \<longleftrightarrow> since b s \<and> known_entries b acc s \<and> (d \<in> set ds \<or> found b d acc s)"

lemma keeps_set_open_inv:
  "(\<And>q. keeps (seen b q) m) \<Longrightarrow> (\<And>q. keeps (unless_lost b q) m) \<Longrightarrow> keeps (set_open_inv b d acc ds) m"
  unfolding set_open_inv_def
  using keeps_found[of b m d acc] by (intro keeps_conj keeps_known) (auto simp: keeps_def)

lemma set_open_refused:
  "gives (\<lambda>s. set_open_inv b d acc (d0 # ds) s \<and> (e = EACCES \<or> e = EPERM \<longrightarrow> seen b (dir_flushed d0) s))
     (whenM (e \<noteq> EACCES \<and> e \<noteq> EPERM) (dir_failed E d0 e False 0 0)) (\<lambda>_. set_open_inv b d acc ds)"
proof (cases "e \<noteq> EACCES \<and> e \<noteq> EPERM")
  case True
  have "gives (set_open_inv b d acc (d0 # ds)) (dir_failed E d0 e False 0 0)
      (\<lambda>_ s. unless_lost b (dir_flushed d) s \<and> set_open_inv b d acc (d0 # ds) s)"
    by (intro gives_conj dir_failed_lost gives_keeps keeps_set_open_inv seen.v_dir_failed unless_lost.v_dir_failed)
  then show ?thesis using True
    by (auto simp: whenM_def elim!: gives_weaken gives_mono) (auto simp: set_open_inv_def found_def)
qed (auto simp: whenM_def gives_def set_open_inv_def found_def unless_lost_def)

lemma set_open_opened:
  assumes "\<And>acc. gives (set_open_inv b d acc ds) (set_open E ds acc) (found b d)"
  shows "gives (\<lambda>s. set_open_inv b d acc (d0 # ds) s \<and> seen b (list_ex (opens_dir d0 fd)) s) (do {
       st \<leftarrow> sys_stat E (C_fstat fd);
       case st of
         Some st \<Rightarrow>
           if list_ex (\<lambda>x. od_known x \<and> od_dev x = st_dev st \<and> od_ino x = st_ino st) acc
           then do { _ \<leftarrow> sys E (C_close fd); set_open E ds acc }
           else set_open E ds (acc @ [\<lparr>od_dirname = d0, od_fd = fd, od_known = True, od_dev = st_dev st, od_ino = st_ino st\<rparr>])
       | None \<Rightarrow>
           set_open E ds (acc @ [\<lparr>od_dirname = d0, od_fd = fd, od_known = False, od_dev = 0, od_ino = 0\<rparr>]) }) (found b d)"
proof -
  let ?P = "\<lambda>s. set_open_inv b d acc (d0 # ds) s \<and> seen b (list_ex (opens_dir d0 fd)) s"
  have keep: "keeps ?P (sys_stat E (C_fstat fd))"
    by (intro keeps_conj keeps_set_open_inv seen.k_sys_stat seen.c_sys unless_lost.k_sys_stat unless_lost.c_sys)
  have who: "gives ?P (sys_stat E (C_fstat fd)) (yields b (\<lambda>_. True) (\<lambda>st. list_ex (identifies fd (st_dev st, st_ino st))))"
  proof -
    have "gives (since b) (sys E (C_fstat fd))
        (\<lambda>r s. reply_stat r \<noteq> None \<longrightarrow> seen b (list_ex (identifies fd (st_dev (the (reply_stat r)), st_ino (the (reply_stat r))))) s)"
      by (rule sys_seen) (auto simp: identifies_def reply_stat_Some)
    then have "gives (since b) (sys_stat E (C_fstat fd)) (yields b (\<lambda>_. True) (\<lambda>st. list_ex (identifies fd (st_dev st, st_ino st))))"
      unfolding sys_stat_def by (rule gives_bind) (rule gives_return, auto simp: yields_def)
    then show ?thesis by (rule gives_weaken) (simp add: set_open_inv_def)
  qed
  have entry: "?P s \<Longrightarrow> (known \<Longrightarrow> seen b (list_ex (identifies fd (dev, ino))) s) \<Longrightarrow>
      set_open_inv b d (acc @ [\<lparr>od_dirname = d0, od_fd = fd, od_known = known, od_dev = dev, od_ino = ino\<rparr>]) ds s" for s known dev ino
    by (auto simp: set_open_inv_def known_entries_def found_def intro: unless_lost_seen[OF covers_opened])
  have same: "?P s \<Longrightarrow> seen b (list_ex (identifies fd (st_dev st, st_ino st))) s \<Longrightarrow>
      list_ex (\<lambda>x. od_known x \<and> od_dev x = st_dev st \<and> od_ino x = st_ino st) acc \<Longrightarrow> set_open_inv b d acc ds s" for s st
    by (auto simp: set_open_inv_def known_entries_def found_def list_ex_iff) (metis covers_same unless_lost_seen)
  have close: "keeps (set_open_inv b d acc ds) (sys E c)" for c
    by (intro keeps_set_open_inv seen.c_sys unless_lost.c_sys)
  show ?thesis
  proof (rule gives_bind[OF gives_conj[OF who gives_keeps[OF keep]]])
    fix r
    show "gives (\<lambda>s. yields b (\<lambda>_. True) (\<lambda>st. list_ex (identifies fd (st_dev st, st_ino st))) r s \<and> ?P s)
       (case r of
         Some st \<Rightarrow>
           if list_ex (\<lambda>x. od_known x \<and> od_dev x = st_dev st \<and> od_ino x = st_ino st) acc
           then do { _ \<leftarrow> sys E (C_close fd); set_open E ds acc }
           else set_open E ds (acc @ [\<lparr>od_dirname = d0, od_fd = fd, od_known = True, od_dev = st_dev st, od_ino = st_ino st\<rparr>])
       | None \<Rightarrow>
           set_open E ds (acc @ [\<lparr>od_dirname = d0, od_fd = fd, od_known = False, od_dev = 0, od_ino = 0\<rparr>])) (found b d)"
    proof (cases r)
      case None
      then show ?thesis by (simp, intro gives_weaken[OF assms]) (auto intro: entry)
    next
      case (Some st)
      have "gives (\<lambda>s. seen b (list_ex (identifies fd (st_dev st, st_ino st))) s \<and> ?P s)
          (do { _ \<leftarrow> sys E (C_close fd); set_open E ds acc }) (found b d)"
        if "list_ex (\<lambda>x. od_known x \<and> od_dev x = st_dev st \<and> od_ino x = st_ino st) acc"
        by (rule gives_weaken[OF gives_keep[OF close assms]]) (use same that in blast)
      moreover have "gives (\<lambda>s. seen b (list_ex (identifies fd (st_dev st, st_ino st))) s \<and> ?P s)
          (set_open E ds (acc @ [\<lparr>od_dirname = d0, od_fd = fd, od_known = True, od_dev = st_dev st, od_ino = st_ino st\<rparr>])) (found b d)"
        by (rule gives_weaken[OF assms]) (use entry in blast)
      ultimately show ?thesis using Some by simp
    qed
  qed
qed

lemma set_open_found:
  assumes "open_errno E"
  shows "gives (set_open_inv b d acc ds) (set_open E ds acc) (found b d)"
proof (induction ds arbitrary: acc)
  case (Cons d0 ds)
  let ?I = "set_open_inv b d acc (d0 # ds)"
  let ?O = "\<lambda>fd s. (since b s \<and> (fd \<noteq> -1 \<longrightarrow> seen b (list_ex (opens_dir d0 fd)) s) \<and>
       (fd = -1 \<longrightarrow> errno s = EACCES \<or> errno s = EPERM \<longrightarrow> seen b (dir_flushed d0) s)) \<and> ?I s"
  have opened: "gives ?I (open_dir E d0) ?O"
    by (intro gives_conj[OF gives_weaken[OF open_dir_seen[OF assms]] gives_keeps[OF keeps_set_open_inv]]
        seen.k_open_dir unless_lost.k_open_dir) (simp add: set_open_inv_def)
  have bad: "gives (\<lambda>s. ?O (-1) s \<and> errno s = e) (do {
       whenM (e \<noteq> EACCES \<and> e \<noteq> EPERM) (dir_failed E d0 e False 0 0);
       set_open E ds acc }) (found b d)" for e
    by (rule gives_bind[OF gives_weaken[OF set_open_refused] Cons.IH]) auto
  have good: "gives (\<lambda>s. ?O fd s \<and> errno s = e) (do {
       st \<leftarrow> sys_stat E (C_fstat fd);
       case st of
         Some st \<Rightarrow>
           if list_ex (\<lambda>x. od_known x \<and> od_dev x = st_dev st \<and> od_ino x = st_ino st) acc
           then do { _ \<leftarrow> sys E (C_close fd); set_open E ds acc }
           else set_open E ds (acc @ [\<lparr>od_dirname = d0, od_fd = fd, od_known = True, od_dev = st_dev st, od_ino = st_ino st\<rparr>])
       | None \<Rightarrow>
           set_open E ds (acc @ [\<lparr>od_dirname = d0, od_fd = fd, od_known = False, od_dev = 0, od_ino = 0\<rparr>]) }) (found b d)"
    if "fd \<noteq> -1" for e fd
    by (rule gives_weaken[OF set_open_opened[OF Cons.IH]]) (use that in auto)
  show ?case
    unfolding set_open.simps by (intro gives_bind[OF opened] gives_get_errno gives_if good) (use bad in auto)
qed (auto simp: gives_def set_open_inv_def)

subsection \<open>Flushing the set\<close>

lemma set_close_lost: "(x, err) \<in> set xs \<Longrightarrow> err \<noteq> E0 \<Longrightarrow> gives P (set_close E xs) (\<lambda>_. unless_lost b q)"
proof (induction xs arbitrary: P)
  case (Cons y xs)
  obtain z e where y: "y = (z, e)" by (cases y)
  show ?case
  proof (cases "e = E0")
    case True
    then show ?thesis
      using Cons.prems y unfolding y set_close.simps by (intro gives_skip Cons.IH) auto
  next
    case False
    have "gives P (whenM (e \<noteq> E0) (dir_failed E n e k i j)) (\<lambda>_. unless_lost b q)" for n k i j
      using False by (simp add: whenM_def dir_failed_lost)
    then show ?thesis
      unfolding y set_close.simps
      by (rule gives_bind) (intro gives_keeps keeps_bind unless_lost.c_sys unless_lost.v_set_close)
  qed
qed simp

text \<open>After the set was flushed, a directory of it is flushed, or the failure was counted.\<close>

lemma flush_set_run_flushes:
  assumes "open_errno E" "errno_set E"
  shows "gives (\<lambda>s. since b s \<and> d \<in> set (dirs s)) (flush_set_run E) (\<lambda>_. unless_lost b (dir_flushed d))"
proof -
  let ?U = "unless_lost b (dir_flushed d)"
  let ?rest = "\<lambda>entries. do { errs \<leftarrow> flush_fds E (map od_fd entries) True; set_close E (zip entries errs) }"
  have lost: "keeps ?U (?rest entries)" for entries
    by (intro keeps_bind unless_lost.v_flush_fds unless_lost.v_set_close)
  have one: "gives (seen b (covers d (od_fd x))) (?rest entries) (\<lambda>_. ?U)" if x: "x \<in> set entries" for x entries
  proof -
    obtain k where k: "k < length entries" "entries ! k = x" using x by (auto simp: in_set_conv_nth)
    let ?q = "\<lambda>i tr. i = k \<longrightarrow> covers d (od_fd x) tr" and ?q' = "\<lambda>i tr. i = k \<longrightarrow> dir_flushed d tr"
    have "gives (\<lambda>s. \<forall>i. i < length (map od_fd entries) \<longrightarrow> seen b (?q i) s) (flush_fds E (map od_fd entries) True)
        (\<lambda>errs s. length errs = length (map od_fd entries) \<and>
          (\<forall>i. i < length (map od_fd entries) \<longrightarrow> errs ! i = E0 \<longrightarrow> seen b (?q' i) s))"
      by (rule flush_fds_seen[OF assms(2)]) (use k in \<open>auto simp: grows_def covers_def\<close>)
    then have flush: "gives (seen b (covers d (od_fd x))) (flush_fds E (map od_fd entries) True)
        (\<lambda>errs s. length errs = length entries \<and> (errs ! k = E0 \<longrightarrow> ?U s))"
      by (rule gives_weaken[OF gives_mono]) (use k in \<open>auto intro: unless_lost_seen seen_mono\<close>)
    have "gives (\<lambda>s. length errs = length entries \<and> (errs ! k = E0 \<longrightarrow> ?U s)) (set_close E (zip entries errs)) (\<lambda>_. ?U)" for errs
    proof (cases "length errs = length entries \<and> errs ! k \<noteq> E0")
      case True
      then have "(entries ! k, errs ! k) \<in> set (zip entries errs)" using k by (auto simp: set_zip)
      then show ?thesis by (rule set_close_lost) (use True in simp)
    next
      case False
      have "keeps ?U (set_close E (zip entries errs))" by (rule unless_lost.v_set_close)
      then show ?thesis using False by (auto simp: gives_def keeps_wp)
    qed
    then show ?thesis by (rule gives_bind[OF flush])
  qed
  have many: "gives (found b d entries) (if entries = [] then return () else ?rest entries) (\<lambda>_. ?U)" for entries
  proof (cases "entries = []")
    case False
    have "found b d entries s \<Longrightarrow> ?U s \<or> (\<exists>x \<in> set entries. seen b (covers d (od_fd x)) s)" for s :: "'a pst"
      by (auto simp: found_def unless_lost_def)
    then show ?thesis using one lost[of entries] False unfolding gives_def keeps_wp by (simp del: wp_bind) metis
  qed (auto intro!: gives_return simp: found_def)
  have opened: "gives (\<lambda>s. since b s \<and> d \<in> set ds) (set_open E ds []) (found b d)" for ds
    by (rule gives_weaken[OF set_open_found[OF assms(1)]]) (simp add: set_open_inv_def known_entries_def)
  have clear: "keeps (found b d entries) (modify (dirs_update f))" for entries f
    by (intro keeps_found unless_lost.v_dirs)
  have "gives (\<lambda>s. since b s \<and> d \<in> set ds) (do { entries \<leftarrow> set_open E ds []; modify (dirs_update (\<lambda>_. []));
      if entries = [] then return () else ?rest entries }) (\<lambda>_. ?U)" for ds
    by (intro gives_bind[OF opened] gives_keep[OF clear] many)
  then show ?thesis unfolding flush_set_run_def by (simp add: gives_def)
qed


subsection \<open>Names and their directories\<close>

text \<open>
  The operand \<open>x\<close> has the name of a flushed file, and its directory was flushed after that; or it is
  in the set of those still to be flushed.
\<close>

definition durable :: "(fd \<Rightarrow> event list \<Rightarrow> bool) \<Rightarrow> path \<Rightarrow> event list \<Rightarrow> bool" where
  "durable G x tr \<longleftrightarrow> (\<exists>later earlier. tr = later @ earlier \<and> safe G x earlier \<and> dir_flushed (dir_of x) later)"

definition waits :: "(fd \<Rightarrow> event list \<Rightarrow> bool) \<Rightarrow> path \<Rightarrow> 'w pst \<Rightarrow> bool" where
  "waits G x s \<longleftrightarrow> unless_lost [] (durable G x) s \<or> (\<exists>b. safe G x b \<and> since b s \<and> dir_of x \<in> set (dirs s))"

lemma durable_grows [simp]: "grows (durable G x)"
  unfolding grows_def durable_def by (metis append_Cons dir_flushed.simps(2))

lemma durable_since: "safe G x b \<Longrightarrow> unless_lost b (dir_flushed (dir_of x)) s \<Longrightarrow> unless_lost [] (durable G x) s"
  unfolding unless_lost_def seen_def durable_def by (metis append.right_neutral append_assoc)

lemma waits_sys: "keeps (waits G x) (sys E c)"
proof -
  have "keeps (\<lambda>s. \<exists>b. safe G x b \<and> since b s \<and> dir_of x \<in> set (dirs s)) (sys E c)"
  proof (rule keeps_wpI)
    fix s :: "'a pst"
    assume "\<exists>b. safe G x b \<and> since b s \<and> dir_of x \<in> set (dirs s)"
    then obtain b where b: "safe G x b" "since b s" "dir_of x \<in> set (dirs s)" by blast
    have "wp (sys E c) (\<lambda>_ t. since b t \<and> dir_of x \<in> set (dirs t)) s"
      by (rule wp_conj[OF keeps_wpD[OF seen_sys b(2)]]) (use b(3) in \<open>simp add: wp_sys\<close>)
    then show "wp (sys E c) (\<lambda>_ s. \<exists>b. safe G x b \<and> since b s \<and> dir_of x \<in> set (dirs s)) s"
      by (rule wp_mono) (use b(1) in blast)
  qed
  then show ?thesis using unless_lost_sys[of "[]" "durable G x" E c] by (auto simp: waits_def keeps_def)
qed

lemma waits_modify:
  "(\<And>s. trace (f s) = trace s \<and> (run_status (f s) = Running \<longrightarrow> run_status s = Running) \<and>
      (0 < dirs_nfailed s \<longrightarrow> 0 < dirs_nfailed (f s)) \<and> set (dirs s) \<subseteq> set (dirs (f s))) \<Longrightarrow> keeps (waits G x) (modify f)"
proof (rule keeps_modify)
  fix s :: "'a pst"
  assume f: "\<And>s. trace (f s) = trace s \<and> (run_status (f s) = Running \<longrightarrow> run_status s = Running) \<and>
      (0 < dirs_nfailed s \<longrightarrow> 0 < dirs_nfailed (f s)) \<and> set (dirs s) \<subseteq> set (dirs (f s))"
  have seen: "seen b q (f s)" if "seen b q s" for b q using that f[of s] by (auto simp: seen_def)
  assume "waits G x s"
  then show "waits G x (f s)" unfolding waits_def unless_lost_def using f[of s] seen by blast
qed

lemma waits_append: "keeps (waits G x) (modify (dirs_update (\<lambda>ds. ds @ [d])))"
  by (rule waits_modify) auto

lemma waits_flush_set_run:
  assumes "open_errno E" "errno_set E"
  shows "gives (waits G x) (flush_set_run E) (\<lambda>_. unless_lost [] (durable G x))"
proof -
  have "wp (flush_set_run E) (\<lambda>_. unless_lost [] (durable G x)) s" if "waits G x s" for s :: "'a pst"
    using that unfolding waits_def
  proof (elim disjE exE conjE)
    assume "unless_lost [] (durable G x) s"
    then show ?thesis using keeps_wpD[OF unless_lost.v_flush_set_run] by blast
  next
    fix b
    assume b: "safe G x b" "since b s" "dir_of x \<in> set (dirs s)"
    then have "wp (flush_set_run E) (\<lambda>_. unless_lost b (dir_flushed (dir_of x))) s"
      using flush_set_run_flushes[OF assms] by (simp add: gives_def)
    then show ?thesis by (rule wp_mono) (rule durable_since[OF b(1)])
  qed
  then show ?thesis by (simp add: gives_def)
qed

text \<open>The invariant, for a system whose errors have numbers.\<close>

definition waits_if :: "'w env \<Rightarrow> (fd \<Rightarrow> event list \<Rightarrow> bool) \<Rightarrow> path \<Rightarrow> 'w pst \<Rightarrow> bool" where
  "waits_if E G x s \<longleftrightarrow> (open_errno E \<and> errno_set E \<longrightarrow> waits G x s)"

lemma keeps_waits_if: "(open_errno E \<Longrightarrow> errno_set E \<Longrightarrow> keeps (waits G x) m) \<Longrightarrow> keeps (waits_if E G x) m"
  by (cases "open_errno E \<and> errno_set E") (auto simp: waits_if_def keeps_def)

lemma waits_set_run: "keeps (waits_if E G x) (flush_set_run E)"
proof (rule keeps_waits_if, rule keeps_wpI)
  fix s :: "'a pst"
  assume *: "open_errno E" "errno_set E" "waits G x s"
  then have "wp (flush_set_run E) (\<lambda>_. unless_lost [] (durable G x)) s"
    using waits_flush_set_run[of E G x] by (simp add: gives_def)
  then show "wp (flush_set_run E) (\<lambda>_. waits G x) s" by (rule wp_mono) (simp add: waits_def)
qed

interpretation waits: kept_calls "waits_if E G x" E for E G x
  by unfold_locales
    (simp_all add: keeps_waits_if waits_set_run waits_sys waits_append waits_modify put_stdout_def put_stderr_def
      out_of_fuel_def exit_def)

interpretation waits: kept_vars "waits_if E G x" E True for E G x
  by unfold_locales (simp add: keeps_waits_if waits_modify)



subsection \<open>The run\<close>
























lemma attributes_tmpl [simp]:
  "sets_size (spec\<lparr>fs_tmpl := u\<rparr>) = sets_size spec" "sets_owner (spec\<lparr>fs_tmpl := u\<rparr>) = sets_owner spec"
  "sets_mode (spec\<lparr>fs_tmpl := u\<rparr>) = sets_mode spec"
  by (auto simp: sets_size_def sets_owner_def sets_mode_def mode_asked_def fun_eq_iff split: call.split)

lemma ready_when_tmpl [simp]: "ready_when one (spec\<lparr>fs_tmpl := u\<rparr>) = ready_when one spec"
proof -
  have sized: "sized (spec\<lparr>fs_tmpl := u\<rparr>) = sized spec" by (simp add: sized_def fun_eq_iff)
  have owned: "owned (spec\<lparr>fs_tmpl := u\<rparr>) = owned spec" by (simp add: owned_def fun_eq_iff sized)
  show ?thesis by (simp add: ready_when_def fun_eq_iff owned)
qed






end
