(* ===== verification/Flush_Pool.thy ===== *)
theory Flush_Pool
  imports Flush
begin

text \<open>
  The threads of \<^verbatim>\<open>src/flush.c\<close>, as they run: one main thread that posts the flushes of a run one
  after the other and stops the pool at the end, and its workers. A step is what one thread does
  between two calls that let another thread in: taking the lock, a stretch of code under the lock up to its
  release or a wait, one \<^verbatim>\<open>sync_one\<close> without the lock. Any thread may take the next step. A wait may
  also return although nobody signalled, as POSIX allows; how often is a number of the state.

  What \<^verbatim>\<open>sync_one\<close> returns is left open, and any call of \<^verbatim>\<open>pthread_create\<close> may fail.
\<close>

subsection \<open>States\<close>

text \<open>
  Where a worker is: before its first lock, at the head of its loop (with the lock), waiting for
  \<^verbatim>\<open>job_ready\<close>, woken and in want of the lock, in \<^verbatim>\<open>sync_one\<close> for an index of a job, in want of the lock
  with its result, storing it (with the lock), or gone. Jobs are numbered in order; the number stands for
  the arrays \<^verbatim>\<open>fds\<close> and \<^verbatim>\<open>errs\<close> of the call of \<^verbatim>\<open>flush_fds\<close>.
\<close>

datatype worker =
    W_new
  | W_check
  | W_wait
  | W_wake
  | W_sync nat nat
  | W_synced nat nat errno
  | W_store nat nat errno
  | W_gone

text \<open>
  Where the main thread is: between two flushes, in \<^verbatim>\<open>flush_grow\<close>, flushing alone, in want of the lock to post a job,
  posting it, at the head of its loop (with the lock), waiting for \<^verbatim>\<open>job_done\<close>, woken; and in
  \<^verbatim>\<open>flush_stop\<close>: in want of the lock, stopping (with it), joining the workers, done.
\<close>

datatype main_thread =
    M_idle
  | M_grow
  | M_alone "errno list"
  | M_want
  | M_post
  | M_check
  | M_wait
  | M_wake
  | M_want_stop
  | M_stop
  | M_join nat
  | M_over

datatype thread = Main | Worker nat

text \<open>
  \<^verbatim>\<open>struct flush_job\<close> with the lock, \<^verbatim>\<open>stopping\<close> and \<^verbatim>\<open>grow_failed\<close> (\<open>cannot_grow\<close>); \<open>j_errs\<close> is what was written so
  far to the array of the job, \<open>most\<close> the bound \<^verbatim>\<open>limit\<close> of \<^verbatim>\<open>flush_want\<close>. \<open>todo\<close> are the flushes still to come, the one under way first, each with the number of its
  descriptors. \<open>results\<close> are those that returned, and \<open>synced\<close> the record of all flushes made: job,
  index and result, the latest first. \<open>spurious\<close> is how many waits may still return unsignalled.
\<close>

record pool =
  lock :: "thread option"
  j_n :: nat
  j_next :: nat
  j_done :: nat
  j_errs :: "errno option list"
  stopping :: bool
  cannot_grow :: bool
  most :: nat
  main_at :: main_thread
  workers :: "worker list"
  todo :: "nat list"
  results :: "errno option list list"
  synced :: "(nat \<times> nat \<times> errno) list"
  spurious :: nat

definition pool_start :: "nat list \<Rightarrow> nat \<Rightarrow> nat \<Rightarrow> pool" where
  "pool_start jobs lim sp =
     \<lparr>lock = None, j_n = 0, j_next = 0, j_done = 0, j_errs = [], stopping = False, cannot_grow = False, most = lim,
      main_at = M_idle, workers = [], todo = jobs, results = [], synced = [], spurious = sp\<rparr>"

abbreviation at_worker :: "nat \<Rightarrow> worker \<Rightarrow> pool \<Rightarrow> pool" where
  "at_worker k w s \<equiv> s\<lparr>workers := (workers s)[k := w]\<rparr>"

definition wake :: "worker \<Rightarrow> worker" where
  "wake w = (if w = W_wait then W_wake else w)"

text \<open>\<^verbatim>\<open>pthread_cond_broadcast(&job_ready)\<close> and \<^verbatim>\<open>pthread_cond_signal(&job_done)\<close>.\<close>

abbreviation broadcast :: "pool \<Rightarrow> pool" where
  "broadcast s \<equiv> s\<lparr>workers := map wake (workers s)\<rparr>"

abbreviation signal_done :: "pool \<Rightarrow> pool" where
  "signal_done s \<equiv> s\<lparr>main_at := (if main_at s = M_wait then M_wake else main_at s)\<rparr>"

subsection \<open>Steps\<close>

inductive worker_step :: "nat \<Rightarrow> pool \<Rightarrow> pool \<Rightarrow> bool" for k where
  enter: "workers s ! k \<in> {W_new, W_wake} \<Longrightarrow> lock s = None \<Longrightarrow>
     worker_step k s (at_worker k W_check (s\<lparr>lock := Some (Worker k)\<rparr>))"
| idle: "workers s ! k = W_check \<Longrightarrow> \<not> stopping s \<Longrightarrow> j_n s \<le> j_next s \<Longrightarrow>
     worker_step k s (at_worker k W_wait (s\<lparr>lock := None\<rparr>))"
| take: "workers s ! k = W_check \<Longrightarrow> \<not> stopping s \<Longrightarrow> j_next s < j_n s \<Longrightarrow>
     worker_step k s (at_worker k (W_sync (length (results s)) (j_next s)) (s\<lparr>j_next := j_next s + 1, lock := None\<rparr>))"
| leave: "workers s ! k = W_check \<Longrightarrow> stopping s \<Longrightarrow>
     worker_step k s (at_worker k W_gone (s\<lparr>lock := None\<rparr>))"
| sync: "workers s ! k = W_sync j i \<Longrightarrow>
     worker_step k s (at_worker k (W_synced j i e) (s\<lparr>synced := (j, i, e) # synced s\<rparr>))"
| relock: "workers s ! k = W_synced j i e \<Longrightarrow> lock s = None \<Longrightarrow>
     worker_step k s (at_worker k (W_store j i e) (s\<lparr>lock := Some (Worker k)\<rparr>))"
| store: "workers s ! k = W_store j i e \<Longrightarrow> j_done s + 1 \<noteq> j_n s \<Longrightarrow>
     worker_step k s (at_worker k W_check (s\<lparr>j_errs := (j_errs s)[i := Some e], j_done := j_done s + 1\<rparr>))"
| store_last: "workers s ! k = W_store j i e \<Longrightarrow> j_done s + 1 = j_n s \<Longrightarrow>
     worker_step k s (signal_done (at_worker k W_check (s\<lparr>j_errs := (j_errs s)[i := Some e], j_done := j_done s + 1\<rparr>)))"

text \<open>How many workers a flush of \<open>n\<close> descriptors wants: the result of \<^verbatim>\<open>flush_want\<close>.\<close>

definition wanted :: "pool \<Rightarrow> nat \<Rightarrow> nat" where
  "wanted s n = (if n < most s then n else most s)"

inductive main_step :: "pool \<Rightarrow> pool \<Rightarrow> bool" where
  one: "main_at s = M_idle \<Longrightarrow> todo s = n # rest \<Longrightarrow> n \<le> 1 \<Longrightarrow> main_step s (s\<lparr>main_at := M_alone []\<rparr>)"
| many: "main_at s = M_idle \<Longrightarrow> todo s = n # rest \<Longrightarrow> 1 < n \<Longrightarrow> main_step s (s\<lparr>main_at := M_grow\<rparr>)"
| spawn: "main_at s = M_grow \<Longrightarrow> todo s = n # rest \<Longrightarrow> \<not> cannot_grow s \<Longrightarrow> length (workers s) < wanted s n \<Longrightarrow>
     main_step s (s\<lparr>workers := workers s @ [W_new]\<rparr>)"
| spawn_fails: "main_at s = M_grow \<Longrightarrow> todo s = n # rest \<Longrightarrow> \<not> cannot_grow s \<Longrightarrow> length (workers s) < wanted s n \<Longrightarrow>
     main_step s (s\<lparr>cannot_grow := True\<rparr>)"
| grown: "main_at s = M_grow \<Longrightarrow> todo s = n # rest \<Longrightarrow> cannot_grow s \<or> wanted s n \<le> length (workers s) \<Longrightarrow>
     main_step s (s\<lparr>main_at := (if workers s = [] then M_alone [] else M_want)\<rparr>)"
| alone_sync: "main_at s = M_alone es \<Longrightarrow> todo s = n # rest \<Longrightarrow> length es < n \<Longrightarrow>
     main_step s (s\<lparr>main_at := M_alone (es @ [e]), synced := (length (results s), length es, e) # synced s\<rparr>)"
| alone_end: "main_at s = M_alone es \<Longrightarrow> todo s = n # rest \<Longrightarrow> length es = n \<Longrightarrow>
     main_step s (s\<lparr>main_at := M_idle, todo := rest, results := results s @ [map Some es]\<rparr>)"
| lock_post: "main_at s = M_want \<Longrightarrow> lock s = None \<Longrightarrow> main_step s (s\<lparr>main_at := M_post, lock := Some Main\<rparr>)"
| post: "main_at s = M_post \<Longrightarrow> todo s = n # rest \<Longrightarrow>
     main_step s (broadcast (s\<lparr>main_at := M_check, j_n := n, j_next := 0, j_done := 0, j_errs := replicate n None\<rparr>))"
| wait: "main_at s = M_check \<Longrightarrow> j_done s < j_n s \<Longrightarrow> main_step s (s\<lparr>main_at := M_wait, lock := None\<rparr>)"
| lock_again: "main_at s = M_wake \<Longrightarrow> lock s = None \<Longrightarrow> main_step s (s\<lparr>main_at := M_check, lock := Some Main\<rparr>)"
| finish: "main_at s = M_check \<Longrightarrow> j_n s \<le> j_done s \<Longrightarrow> todo s = n # rest \<Longrightarrow>
     main_step s (s\<lparr>main_at := M_idle, j_n := 0, j_next := 0, lock := None, todo := rest, results := results s @ [j_errs s]\<rparr>)"
| stop: "main_at s = M_idle \<Longrightarrow> todo s = [] \<Longrightarrow> main_step s (s\<lparr>main_at := M_want_stop\<rparr>)"
| lock_stop: "main_at s = M_want_stop \<Longrightarrow> lock s = None \<Longrightarrow> main_step s (s\<lparr>main_at := M_stop, lock := Some Main\<rparr>)"
| tell: "main_at s = M_stop \<Longrightarrow> main_step s (broadcast (s\<lparr>main_at := M_join 0, stopping := True, lock := None\<rparr>))"
| join: "main_at s = M_join k \<Longrightarrow> k < length (workers s) \<Longrightarrow> workers s ! k = W_gone \<Longrightarrow>
     main_step s (s\<lparr>main_at := M_join (k + 1)\<rparr>)"
| over: "main_at s = M_join k \<Longrightarrow> k = length (workers s) \<Longrightarrow>
     main_step s (s\<lparr>main_at := M_over, workers := [], stopping := False, cannot_grow := False\<rparr>)"

inductive pool_step :: "pool \<Rightarrow> pool \<Rightarrow> bool" where
  main: "main_step s t \<Longrightarrow> pool_step s t"
| worker: "k < length (workers s) \<Longrightarrow> worker_step k s t \<Longrightarrow> pool_step s t"
| spurious_worker: "k < length (workers s) \<Longrightarrow> workers s ! k = W_wait \<Longrightarrow> 0 < spurious s \<Longrightarrow>
     pool_step s (at_worker k W_wake (s\<lparr>spurious := spurious s - 1\<rparr>))"
| spurious_main: "main_at s = M_wait \<Longrightarrow> 0 < spurious s \<Longrightarrow>
     pool_step s (s\<lparr>main_at := M_wake, spurious := spurious s - 1\<rparr>)"

inductive pool_reach :: "nat list \<Rightarrow> nat \<Rightarrow> nat \<Rightarrow> pool \<Rightarrow> bool" for jobs lim sp where
  start: "pool_reach jobs lim sp (pool_start jobs lim sp)"
| step: "pool_reach jobs lim sp s \<Longrightarrow> pool_step s t \<Longrightarrow> pool_reach jobs lim sp t"

subsection \<open>The lock and the phases\<close>

fun holds :: "worker \<Rightarrow> bool" where
  "holds W_check = True"
| "holds (W_store j i e) = True"
| "holds _ = False"

fun main_holds :: "main_thread \<Rightarrow> bool" where
  "main_holds M_post = True"
| "main_holds M_check = True"
| "main_holds M_stop = True"
| "main_holds _ = False"

text \<open>The main thread is in the middle of a flush by the pool; it is done with all of them.\<close>

fun in_job :: "main_thread \<Rightarrow> bool" where
  "in_job M_check = True"
| "in_job M_wait = True"
| "in_job M_wake = True"
| "in_job _ = False"

fun ending :: "main_thread \<Rightarrow> bool" where
  "ending M_want_stop = True"
| "ending M_stop = True"
| "ending (M_join k) = True"
| "ending M_over = True"
| "ending _ = False"

lemma wake_simps [simp]:
  "wake W_wait = W_wake" "wake w \<noteq> W_wait" "holds (wake w) = holds w" "wake w = W_gone \<longleftrightarrow> w = W_gone"
  "wake w = W_sync j i \<longleftrightarrow> w = W_sync j i" "wake w = W_check \<longleftrightarrow> w = W_check"
  "wake w = W_synced j i e \<longleftrightarrow> w = W_synced j i e" "wake w = W_store j i e \<longleftrightarrow> w = W_store j i e"
  by (auto simp: wake_def)

definition lock_ok :: "pool \<Rightarrow> bool" where
  "lock_ok s \<longleftrightarrow>
     (\<forall>k < length (workers s). holds (workers s ! k) \<longleftrightarrow> lock s = Some (Worker k)) \<and>
     (main_holds (main_at s) \<longleftrightarrow> lock s = Some Main) \<and>
     (\<forall>k. lock s = Some (Worker k) \<longrightarrow> k < length (workers s)) \<and>
     (\<forall>m. main_at s = M_join m \<longrightarrow> m \<le> length (workers s) \<and> (\<forall>k < m. workers s ! k = W_gone))"

lemma lock_holder: "lock_ok s \<Longrightarrow> k < length (workers s) \<Longrightarrow> holds (workers s ! k) \<Longrightarrow> lock s = Some (Worker k)"
  by (simp add: lock_ok_def)

text \<open>A worker moves: it takes the lock only when it is free, and gives up only its own.\<close>

lemma lock_ok_worker:
  assumes s: "lock_ok s" "k < length (workers s)" "workers s ! k \<noteq> W_gone"
    and t: "workers t = (workers s)[k := w]" "main_holds (main_at t) = main_holds (main_at s)"
      "\<And>m. main_at t = M_join m \<longleftrightarrow> main_at s = M_join m"
      "lock t = (if holds w then Some (Worker k) else if holds (workers s ! k) then None else lock s)"
    and free: "holds w \<Longrightarrow> \<not> holds (workers s ! k) \<Longrightarrow> lock s = None"
  shows "lock_ok t"
proof -
  have other: "holds (workers s ! i) \<longleftrightarrow> lock s = Some (Worker i)" if "i < length (workers s)" for i
    using s(1) that by (simp add: lock_ok_def)
  have workers: "\<forall>i < length (workers t). holds (workers t ! i) \<longleftrightarrow> lock t = Some (Worker i)"
    using other other[OF s(2)] s(2) t(1,4) free by (auto simp: nth_list_update)
  have main: "main_holds (main_at t) \<longleftrightarrow> lock t = Some Main"
    using s(1) t(2,4) free other[OF s(2)] by (auto simp: lock_ok_def)
  have range: "\<forall>i. lock t = Some (Worker i) \<longrightarrow> i < length (workers t)"
    using s t by (auto simp: lock_ok_def split: if_splits)
  have joined: "\<forall>m. main_at t = M_join m \<longrightarrow> m \<le> length (workers t) \<and> (\<forall>i < m. workers t ! i = W_gone)"
    using s t(1,3) by (auto simp: lock_ok_def nth_list_update)
  show ?thesis unfolding lock_ok_def by (intro conjI workers main range joined)
qed

lemma worker_step_lock:
  assumes "worker_step k s t" "k < length (workers s)" "lock_ok s"
  shows "lock_ok t"
  using assms(1)
proof cases
  case enter
  then show ?thesis by (intro lock_ok_worker[OF assms(3,2), where w = W_check]) auto
next
  case (take)
  then show ?thesis
    by (intro lock_ok_worker[OF assms(3,2), where w = "W_sync (length (results s)) (j_next s)"]) simp_all
next
  case (sync j i e)
  then show ?thesis by (intro lock_ok_worker[OF assms(3,2), where w = "W_synced j i e"]) simp_all
next
  case (relock j i e)
  then show ?thesis by (intro lock_ok_worker[OF assms(3,2), where w = "W_store j i e"]) simp_all
next
  case idle
  then show ?thesis by (intro lock_ok_worker[OF assms(3,2), where w = W_wait]) simp_all
next
  case leave
  then show ?thesis by (intro lock_ok_worker[OF assms(3,2), where w = W_gone]) simp_all
qed (use lock_holder[OF assms(3,2)] in \<open>intro lock_ok_worker[OF assms(3,2), where w = W_check]; simp\<close>)+

lemma main_step_lock:
  assumes "main_step s t" "lock_ok s"
  shows "lock_ok t"
  using assms(1)
proof cases
  case (over k)
  have "\<And>i. i < length (workers s) \<Longrightarrow> \<not> holds (workers s ! i)" using assms(2) over by (simp add: lock_ok_def)
  then have "lock s \<noteq> Some (Worker i)" for i using assms(2) by (auto simp: lock_ok_def)
  then show ?thesis using over assms(2) by (auto simp: lock_ok_def)
next
  case (spawn n rest)
  then show ?thesis using assms(2) by (auto simp: lock_ok_def nth_append less_Suc_eq)
next
  case (join k)
  then show ?thesis using assms(2) by (auto simp: lock_ok_def less_Suc_eq)
qed (use assms(2) in \<open>auto simp: lock_ok_def\<close>)

lemma pool_step_lock:
  assumes "pool_step s t" "lock_ok s"
  shows "lock_ok t"
  using assms(1)
proof cases
  case (spurious_worker k)
  then show ?thesis by (intro lock_ok_worker[OF assms(2), where k = k and w = W_wake]) simp_all
next
  case spurious_main
  then show ?thesis using assms(2) by (auto simp: lock_ok_def)
qed (use assms(2) worker_step_lock main_step_lock in blast)+

text \<open>What the flushes to come, the end of the pool and the waits of the workers have to do with each other.\<close>

fun wants_pool :: "main_thread \<Rightarrow> bool" where
  "wants_pool M_want = True"
| "wants_pool M_post = True"
| "wants_pool m = in_job m"

fun joining :: "main_thread \<Rightarrow> bool" where
  "joining (M_join k) = True"
| "joining _ = False"

definition phase_ok :: "pool \<Rightarrow> bool" where
  "phase_ok s \<longleftrightarrow>
     (ending (main_at s) \<longrightarrow> todo s = []) \<and>
     (\<not> ending (main_at s) \<longrightarrow> main_at s = M_idle \<or> todo s \<noteq> []) \<and>
     (main_at s = M_grow \<longrightarrow> 1 < hd (todo s)) \<and>
     (wants_pool (main_at s) \<longrightarrow> 1 < hd (todo s) \<and> workers s \<noteq> []) \<and>
     (stopping s \<longleftrightarrow> joining (main_at s)) \<and>
     (main_at s = M_over \<longrightarrow> workers s = []) \<and>
     (\<not> in_job (main_at s) \<longrightarrow> j_n s = 0 \<and> j_next s = 0) \<and>
     (W_gone \<in> set (workers s) \<longrightarrow> stopping s) \<and>
     (W_wait \<in> set (workers s) \<longrightarrow> \<not> stopping s \<and> j_n s \<le> j_next s)"

lemma in_set_update: "x \<in> set (xs[k := w]) \<Longrightarrow> x \<noteq> w \<Longrightarrow> x \<in> set xs"
  using set_update_subset_insert[of xs k w] by auto

lemma worker_step_phase:
  assumes "worker_step k s t" "k < length (workers s)" "phase_ok s"
  shows "phase_ok t"
  using assms(1)
  by cases (use assms(2,3) in \<open>auto simp: phase_ok_def dest!: in_set_update\<close>)

lemma wake_sym [simp]: "W_gone = wake w \<longleftrightarrow> w = W_gone" "W_wait \<noteq> wake w"
  by (metis wake_simps(4), metis wake_simps(2))

lemma main_step_phase: "main_step s t \<Longrightarrow> phase_ok s \<Longrightarrow> phase_ok t"
  by (erule main_step.cases) (auto simp: phase_ok_def image_iff)

lemma pool_step_phase:
  assumes "pool_step s t" "phase_ok s"
  shows "phase_ok t"
  using assms(1)
proof cases
  case (spurious_worker k)
  then show ?thesis using assms(2) by (auto simp: phase_ok_def dest!: in_set_update)
next
  case spurious_main
  then show ?thesis using assms(2) by (auto simp: phase_ok_def)
qed (use assms(2) worker_step_phase main_step_phase in blast)+

subsection \<open>Every index of a job is in one place\<close>

declare mset_upt [simp del]

text \<open>The indices a worker is flushing, and those it has a result for that is not stored yet.\<close>

fun flying :: "worker \<Rightarrow> nat multiset" where
  "flying (W_sync j i) = {#i#}"
| "flying _ = {#}"

fun landed :: "worker \<Rightarrow> (nat \<times> errno) multiset" where
  "landed (W_synced j i e) = {#(i, e)#}"
| "landed (W_store j i e) = {#(i, e)#}"
| "landed _ = {#}"

definition over_workers :: "(worker \<Rightarrow> 'a multiset) \<Rightarrow> worker list \<Rightarrow> 'a multiset" where
  "over_workers f ws = (\<Sum>w \<leftarrow> ws. f w)"

text \<open>The results stored, and the record of a job.\<close>

definition stored :: "errno option list \<Rightarrow> (nat \<times> errno) multiset" where
  "stored es = mset_set {(i, e). i < length es \<and> es ! i = Some e}"

definition record_of :: "nat \<Rightarrow> (nat \<times> nat \<times> errno) list \<Rightarrow> (nat \<times> errno) multiset" where
  "record_of j l = mset (map snd (filter (\<lambda>x. fst x = j) l))"

lemma over_workers_update:
  "k < length ws \<Longrightarrow> over_workers f (ws[k := w]) + f (ws ! k) = over_workers f ws + f w"
proof (induction ws arbitrary: k)
  case (Cons x ws)
  then show ?case by (cases k) (simp_all add: over_workers_def ac_simps)
qed simp

lemma over_workers_same: "k < length ws \<Longrightarrow> f w = f (ws ! k) \<Longrightarrow> over_workers f (ws[k := w]) = over_workers f ws"
  using over_workers_update[of k ws f w] by simp

lemma over_workers_simps [simp]:
  "over_workers f [] = {#}" "over_workers f (ws @ [w]) = over_workers f ws + f w"
  by (simp_all add: over_workers_def)

lemma over_workers_wake [simp]: "(\<And>w. f (wake w) = f w) \<Longrightarrow> over_workers f (map wake ws) = over_workers f ws"
  by (simp add: over_workers_def comp_def)

lemma flying_wake [simp]: "flying (wake w) = flying w" "landed (wake w) = landed w"
  by (simp_all add: wake_def)

lemma in_over_workers: "k < length ws \<Longrightarrow> x \<in># f (ws ! k) \<Longrightarrow> x \<in># over_workers f ws"
proof (induction ws arbitrary: k)
  case (Cons y ws)
  then show ?case by (cases k) (auto simp: over_workers_def)
qed simp

lemma over_workers_none: "over_workers f ws = {#} \<Longrightarrow> k < length ws \<Longrightarrow> f (ws ! k) = {#}"
  using in_over_workers[of k ws _ f] by (metis multiset_nonemptyE empty_not_add_mset multi_member_split)

lemma over_workers_all: "(\<And>w. w \<in> set ws \<Longrightarrow> f w = {#}) \<Longrightarrow> over_workers f ws = {#}"
  by (induction ws) (auto simp: over_workers_def)

lemma over_workers_mem: "x \<in># over_workers f ws \<Longrightarrow> \<exists>w \<in> set ws. x \<in># f w"
  by (induction ws) (auto simp: over_workers_def)

lemma stored_finite: "finite {(i, e). i < length es \<and> es ! i = Some e}"
  by (rule finite_subset[of _ "(\<lambda>i. (i, the (es ! i))) ` {..<length es}"]) (auto simp: image_iff)

lemma stored_update: "i < length es \<Longrightarrow> es ! i = None \<Longrightarrow> stored (es[i := Some e]) = add_mset (i, e) (stored es)"
proof -
  assume i: "i < length es" "es ! i = None"
  have "{(k, e'). k < length (es[i := Some e]) \<and> es[i := Some e] ! k = Some e'} =
      insert (i, e) {(k, e'). k < length es \<and> es ! k = Some e'}"
    using i by (auto simp: nth_list_update split: if_splits)
  then show ?thesis using i stored_finite[of es] by (simp add: stored_def)
qed

lemma stored_none [simp]: "stored (replicate n None) = {#}"
proof -
  have "{(i, e :: errno). i < n \<and> replicate n None ! i = Some e} = {}" by auto
  then show ?thesis unfolding stored_def length_replicate by (simp only: mset_set.empty)
qed

lemma stored_Nil [simp]: "stored [] = {#}"
  by (simp add: stored_def)

lemma in_stored: "(i, e) \<in># stored es \<longleftrightarrow> i < length es \<and> es ! i = Some e"
  using stored_finite[of es] by (simp add: stored_def)

lemma stored_snoc: "stored (map Some (es @ [e])) = add_mset (length es, e) (stored (map Some es))"
proof -
  have "{(i, e'). i < length (map Some (es @ [e])) \<and> map Some (es @ [e]) ! i = Some e'} =
      insert (length es, e) {(i, e'). i < length (map Some es) \<and> map Some es ! i = Some e'}"
    by (auto simp: nth_append less_Suc_eq)
  then show ?thesis using stored_finite[of "map Some es"] by (simp add: stored_def)
qed

lemma stored_all: "image_mset fst (stored (map Some es)) = mset [0..<length es]"
  by (induction es rule: rev_induct) (simp_all only: stored_snoc, simp_all add: stored_def)

lemma record_of_Cons: "record_of j ((j', x) # l) = (if j' = j then add_mset x (record_of j l) else record_of j l)"
  by (simp add: record_of_def)

fun of_job :: "nat \<Rightarrow> worker \<Rightarrow> bool" where
  "of_job c (W_sync j i) = (j = c)"
| "of_job c (W_synced j i e) = (j = c)"
| "of_job c (W_store j i e) = (j = c)"
| "of_job c _ = True"

lemma of_job_none: "flying w = {#} \<Longrightarrow> landed w = {#} \<Longrightarrow> of_job c w"
  by (cases w) simp_all

lemma of_job_wake [simp]: "of_job c (wake w) = of_job c w"
  by (simp add: wake_def)

text \<open>A flush that returned: each index was flushed once, and its result stands in its place.\<close>

definition returned_ok :: "pool \<Rightarrow> nat \<Rightarrow> nat \<Rightarrow> bool" where
  "returned_ok s n j \<longleftrightarrow>
     length (results s ! j) = n \<and> record_of j (synced s) = stored (results s ! j) \<and>
     image_mset fst (stored (results s ! j)) = mset [0..<n]"

text \<open>The flush under way: each index below \<^verbatim>\<open>job.next\<close> is with one worker, or stored.\<close>

definition current_ok :: "pool \<Rightarrow> bool" where
  "current_ok s \<longleftrightarrow>
     j_n s = hd (todo s) \<and> length (j_errs s) = j_n s \<and> j_next s \<le> j_n s \<and>
     mset [0..<j_next s] = over_workers flying (workers s) + image_mset fst (over_workers landed (workers s))
       + image_mset fst (stored (j_errs s)) \<and>
     record_of (length (results s)) (synced s) = over_workers landed (workers s) + stored (j_errs s) \<and>
     j_done s = size (stored (j_errs s)) \<and>
     (main_at s = M_wait \<longrightarrow> j_done s < j_n s)"

definition between_ok :: "pool \<Rightarrow> bool" where
  "between_ok s \<longleftrightarrow>
     over_workers flying (workers s) = {#} \<and> over_workers landed (workers s) = {#} \<and>
     (case main_at s of
        M_alone es \<Rightarrow> length es \<le> hd (todo s) \<and> record_of (length (results s)) (synced s) = stored (map Some es)
      | _ \<Rightarrow> record_of (length (results s)) (synced s) = {#})"

definition jobs_ok :: "nat list \<Rightarrow> pool \<Rightarrow> bool" where
  "jobs_ok jobs s \<longleftrightarrow>
     length (results s) \<le> length jobs \<and> todo s = drop (length (results s)) jobs \<and>
     (\<forall>x \<in> set (synced s). fst x \<le> length (results s)) \<and>
     (\<forall>w \<in> set (workers s). of_job (length (results s)) w) \<and>
     (\<forall>j < length (results s). returned_ok s (jobs ! j) j) \<and>
     (if in_job (main_at s) then current_ok s else between_ok s)"

text \<open>Steps that move a worker and leave the accounts as they are.\<close>

lemma jobs_ok_worker:
  assumes "jobs_ok jobs s" "k < length (workers s)" "workers t = (workers s)[k := w]"
    "flying w = flying (workers s ! k)" "landed w = landed (workers s ! k)" "of_job (length (results s)) w"
    "todo t = todo s" "results t = results s" "synced t = synced s" "j_n t = j_n s" "j_errs t = j_errs s"
    "j_next t = j_next s" "j_done t = j_done s" "main_at t = main_at s"
  shows "jobs_ok jobs t"
proof -
  have "\<forall>w \<in> set (workers t). of_job (length (results t)) w"
    using assms(1,3,6,8) by (auto simp: jobs_ok_def dest: set_update_subset_insert[THEN subsetD])
  moreover have "over_workers flying (workers t) = over_workers flying (workers s)"
    "over_workers landed (workers t) = over_workers landed (workers s)"
    using assms(2-5) by (simp_all add: over_workers_same)
  ultimately have "current_ok t = current_ok s" "between_ok t = between_ok s" "returned_ok t = returned_ok s"
    "\<forall>w \<in> set (workers t). of_job (length (results t)) w"
    using assms(7-14) by (auto simp: current_ok_def between_ok_def returned_ok_def fun_eq_iff
        cong: main_thread.case_cong)
  then show ?thesis using assms(1,7-9,14) by (simp add: jobs_ok_def)
qed

text \<open>A worker with an index is never met between two flushes.\<close>

lemma worker_in_job:
  assumes "jobs_ok jobs s" "k < length (workers s)" "flying (workers s ! k) \<noteq> {#} \<or> landed (workers s ! k) \<noteq> {#}"
  shows "in_job (main_at s) \<and> current_ok s \<and> of_job (length (results s)) (workers s ! k)"
proof -
  have "in_job (main_at s)"
    using assms over_workers_none[OF _ assms(2), of flying] over_workers_none[OF _ assms(2), of landed]
    by (auto simp: jobs_ok_def between_ok_def split: if_splits)
  then show ?thesis using assms(1,2) by (simp add: jobs_ok_def)
qed

lemma over_workers_minus:
  "k < length ws \<Longrightarrow> f (ws ! k) = A \<Longrightarrow> f w = {#} \<Longrightarrow> over_workers f ws = over_workers f (ws[k := w]) + A"
  using over_workers_update[of k ws f w] by simp

lemma over_workers_plus:
  "k < length ws \<Longrightarrow> f (ws ! k) = {#} \<Longrightarrow> over_workers f (ws[k := w]) = over_workers f ws + f w"
  using over_workers_update[of k ws f w] by simp

lemma jobs_ok_current:
  assumes "jobs_ok jobs s" "in_job (main_at s)" "in_job (main_at t)" "current_ok t" "results t = results s" "todo t = todo s"
    "\<forall>x \<in> set (synced t). fst x \<le> length (results s)" "\<forall>j < length (results s). record_of j (synced t) = record_of j (synced s)"
    "\<forall>w \<in> set (workers t). of_job (length (results s)) w"
  shows "jobs_ok jobs t"
proof -
  have "returned_ok t (jobs ! j) j" if "j < length (results s)" for j
    using assms(1,5,8) that by (auto simp: jobs_ok_def returned_ok_def)
  then show ?thesis using assms by (simp add: jobs_ok_def)
qed

text \<open>What storing a result does to the accounts.\<close>

lemma store_current:
  assumes "jobs_ok jobs s" "k < length (workers s)" "workers s ! k = W_store j i e"
  defines "ws \<equiv> (workers s)[k := W_check]" and "es \<equiv> (j_errs s)[i := Some e]"
  shows "in_job (main_at s)" "length es = j_n s" "j_done s + 1 = size (stored es)"
    "mset [0..<j_next s] = over_workers flying ws + image_mset fst (over_workers landed ws) + image_mset fst (stored es)"
    "record_of (length (results s)) (synced s) = over_workers landed ws + stored es"
    "j_done s < j_n s" "j_next s \<le> j_n s" "j_n s = hd (todo s)"
proof -
  have cur: "current_ok s" and job: "in_job (main_at s)" using worker_in_job[OF assms(1,2)] assms(3) by simp_all
  then show "in_job (main_at s)" "length es = j_n s" "j_next s \<le> j_n s" "j_n s = hd (todo s)"
    by (simp_all add: current_ok_def es_def)
  have fly: "over_workers flying ws = over_workers flying (workers s)"
    unfolding ws_def using assms(2,3) by (simp add: over_workers_same)
  have land: "over_workers landed (workers s) = add_mset (i, e) (over_workers landed ws)"
    unfolding ws_def using over_workers_minus[OF assms(2), of landed "{#(i, e)#}" W_check] assms(3) by simp
  have all: "mset [0..<j_next s] = over_workers flying ws + image_mset fst (add_mset (i, e) (over_workers landed ws))
      + image_mset fst (stored (j_errs s))" and size: "length (j_errs s) = j_n s" "j_next s \<le> j_n s"
    using cur by (simp_all add: current_ok_def fly land)
  have "i \<in># mset [0..<j_next s]" unfolding all by simp
  then have i: "i < length (j_errs s)" using size by simp
  have "count (mset [0..<j_next s]) i \<le> 1" by (simp add: distinct_count_atmost_1[THEN iffD1, rule_format])
  then have "i \<notin># image_mset fst (stored (j_errs s))" unfolding all by (auto simp: count_eq_zero_iff)
  then have "(i, e') \<notin># stored (j_errs s)" for e' by force
  then have none: "j_errs s ! i = None" using i by (metis in_stored not_None_eq)
  have es: "stored es = add_mset (i, e) (stored (j_errs s))" unfolding es_def by (rule stored_update[OF i none])
  show "j_done s + 1 = size (stored es)" using cur by (simp add: current_ok_def es)
  show "mset [0..<j_next s] = over_workers flying ws + image_mset fst (over_workers landed ws) + image_mset fst (stored es)"
    using all by (simp add: es)
  show "record_of (length (results s)) (synced s) = over_workers landed ws + stored es"
    using cur by (simp add: current_ok_def es land)
  have "size (mset [0..<j_next s]) = j_next s" by simp
  then have "size (stored (j_errs s)) < j_next s" unfolding all by simp
  then show "j_done s < j_n s" using cur by (simp add: current_ok_def)
qed

lemma worker_step_jobs:
  assumes "worker_step k s t" "k < length (workers s)" "phase_ok s" "jobs_ok jobs s"
  shows "jobs_ok jobs t"
  using assms(1)
proof cases
  case enter
  then show ?thesis by (intro jobs_ok_worker[OF assms(4,2), where w = W_check]) auto
next
  case idle
  then show ?thesis by (intro jobs_ok_worker[OF assms(4,2), where w = W_wait]) simp_all
next
  case leave
  then show ?thesis by (intro jobs_ok_worker[OF assms(4,2), where w = W_gone]) simp_all
next
  case (relock j i e)
  then show ?thesis
    using worker_in_job[OF assms(4,2)] by (intro jobs_ok_worker[OF assms(4,2), where w = "W_store j i e"]) simp_all
next
  case (take)
  have job: "in_job (main_at s)" "current_ok s" using take(4) assms(3,4) by (auto simp: phase_ok_def jobs_ok_def)
  then have "current_ok t"
    using take assms(2) by (auto simp: current_ok_def over_workers_plus)
  then show ?thesis
    using take assms(4) job by (intro jobs_ok_current[OF assms(4)]) (auto simp: jobs_ok_def dest: set_update_subset_insert[THEN subsetD])
next
  case (sync j i e)
  have job: "in_job (main_at s)" "current_ok s" "j = length (results s)" using worker_in_job[OF assms(4,2)] sync by simp_all
  then have "current_ok t"
    using sync assms(2) over_workers_minus[of k "workers s" flying "{#i#}" "W_synced j i e"]
    by (auto simp: current_ok_def over_workers_plus record_of_Cons)
  then show ?thesis
    using sync assms(4) job by (intro jobs_ok_current[OF assms(4)]) (auto simp: jobs_ok_def record_of_Cons dest: set_update_subset_insert[THEN subsetD])
next
  case (store j i e)
  then have "current_ok t" "in_job (main_at t)"
    using store_current[OF assms(4,2) store(2)] store by (auto simp: current_ok_def)
  then show ?thesis
    using store assms(4) store_current[OF assms(4,2) store(2)]
    by (intro jobs_ok_current[OF assms(4)]) (auto simp: jobs_ok_def dest: set_update_subset_insert[THEN subsetD])
next
  case (store_last j i e)
  note after = store_current[OF assms(4,2) store_last(2)]
  have job: "in_job (main_at t)" using after(1) store_last(1) by simp
  moreover have "current_ok t"
    using after store_last assms(4) by (simp add: current_ok_def jobs_ok_def)
  ultimately show ?thesis
    using store_last assms(4) after(1)
    by (intro jobs_ok_current[OF assms(4)]) (auto simp: jobs_ok_def dest: set_update_subset_insert[THEN subsetD])
qed

lemma no_record: "\<forall>x \<in> set l. fst x \<le> j \<Longrightarrow> record_of (Suc j) l = {#}"
  by (auto simp: record_of_def filter_empty_conv)

lemma drop_Cons: "drop k xs = x # ys \<Longrightarrow> drop (Suc k) xs = ys \<and> xs ! k = x \<and> k < length xs"
  by (metis drop_Suc drop_eq_Nil list.distinct(1) list.sel(3) not_le_imp_less nth_via_drop tl_drop)

text \<open>A flush returns: its array joins the results.\<close>

lemma jobs_ok_return:
  assumes "jobs_ok jobs s" "todo s = n # rest" "todo t = rest" "results t = results s @ [es]" "main_at t = M_idle"
    "synced t = synced s" "workers t = workers s"
    and this_job: "length es = n" "record_of (length (results s)) (synced s) = stored es"
      "image_mset fst (stored es) = mset [0..<n]"
    and idle: "over_workers flying (workers s) = {#}" "over_workers landed (workers s) = {#}"
  shows "jobs_ok jobs t"
proof -
  have job: "length (results s) < length jobs" "jobs ! length (results s) = n" "drop (Suc (length (results s))) jobs = rest"
    using assms(1,2) drop_Cons[of "length (results s)" jobs n rest] by (simp_all add: jobs_ok_def)
  have "returned_ok s (jobs ! j) j" if "j < length (results s)" for j using assms(1) that by (simp add: jobs_ok_def)
  then have "returned_ok t (jobs ! j) j" if "j < length (results t)" for j
    using that assms(4,6) this_job job by (cases "j = length (results s)") (simp_all add: returned_ok_def nth_append)
  moreover have "flying w = {#} \<and> landed w = {#}" if "w \<in> set (workers s)" for w
    using that over_workers_none[OF idle(1)] over_workers_none[OF idle(2)] by (metis in_set_conv_nth)
  then have "\<forall>w \<in> set (workers s). of_job (length (results t)) w" by (simp add: of_job_none)
  moreover have "record_of (length (results t)) (synced t) = {#}"
    using assms(1,4,6) by (simp add: jobs_ok_def no_record)
  ultimately show ?thesis
    using assms job idle by (auto simp: jobs_ok_def between_ok_def)
qed

text \<open>When \<^verbatim>\<open>job.done\<close> has reached \<^verbatim>\<open>job.n\<close>, no worker has an index left.\<close>

lemma finished_job:
  assumes "current_ok s" "j_n s \<le> j_done s"
  shows "over_workers flying (workers s) = {#}" "over_workers landed (workers s) = {#}"
    "record_of (length (results s)) (synced s) = stored (j_errs s)"
    "image_mset fst (stored (j_errs s)) = mset [0..<j_n s]"
proof -
  have all: "mset [0..<j_next s] = over_workers flying (workers s) + image_mset fst (over_workers landed (workers s))
      + image_mset fst (stored (j_errs s))" using assms(1) by (simp add: current_ok_def)
  have "size (mset [0..<j_next s]) = j_next s" by simp
  then have sizes: "j_next s = size (over_workers flying (workers s)) + size (over_workers landed (workers s)) + j_done s"
    unfolding all using assms(1) by (simp add: current_ok_def)
  moreover have "j_next s \<le> j_n s" using assms(1) by (simp add: current_ok_def)
  ultimately have "size (over_workers flying (workers s)) = 0" "size (over_workers landed (workers s)) = 0"
    using assms(2) by linarith+
  then show none: "over_workers flying (workers s) = {#}" "over_workers landed (workers s) = {#}" by simp_all
  show "record_of (length (results s)) (synced s) = stored (j_errs s)" using assms(1) none by (simp add: current_ok_def)
  have "j_next s = j_n s" using sizes assms by (simp add: current_ok_def)
  then show "image_mset fst (stored (j_errs s)) = mset [0..<j_n s]" using all none by simp
qed

lemma main_step_jobs:
  assumes "main_step s t" "phase_ok s" "jobs_ok jobs s"
  shows "jobs_ok jobs t"
  using assms(1)
proof cases
  case (alone_sync es n rest e)
  have "returned_ok t (jobs ! j) j" if "j < length (results s)" for j
    using assms(3) alone_sync(1) that by (auto simp: jobs_ok_def returned_ok_def record_of_Cons)
  moreover have "between_ok s" using assms(3) alone_sync(2) by (simp add: jobs_ok_def)
  then have "between_ok t" using alone_sync stored_snoc[of es e] by (simp add: between_ok_def record_of_Cons)
  ultimately show ?thesis using alone_sync(1,2) assms(3) by (auto simp: jobs_ok_def)
next
  case (alone_end es n rest)
  have "image_mset fst (stored (map Some es)) = mset [0..<n]" using alone_end(4) stored_all by blast
  then show ?thesis
    using alone_end assms(3) by (intro jobs_ok_return[OF assms(3) alone_end(3)]) (auto simp: jobs_ok_def between_ok_def)
next
  case (finish n rest)
  have cur: "current_ok s" using assms(3) finish(2) by (simp add: jobs_ok_def)
  note all = finished_job[OF cur finish(3)]
  show ?thesis
    using finish cur all by (intro jobs_ok_return[OF assms(3) finish(4)]) (simp_all add: current_ok_def)
next
  case (post n rest)
  have "between_ok s" using assms(3) post(2) by (simp add: jobs_ok_def)
  then have "current_ok t" using post by (simp add: current_ok_def between_ok_def)
  then show ?thesis using assms(3) post by (auto simp: jobs_ok_def returned_ok_def)
qed (use assms(2,3) in \<open>auto simp: jobs_ok_def between_ok_def current_ok_def returned_ok_def phase_ok_def\<close>)

lemma pool_step_jobs:
  assumes "pool_step s t" "phase_ok s" "jobs_ok jobs s"
  shows "jobs_ok jobs t"
  using assms(1)
proof cases
  case (spurious_worker k)
  then show ?thesis by (intro jobs_ok_worker[OF assms(3), where k = k and w = W_wake]) simp_all
next
  case spurious_main
  then show ?thesis using assms(3) by (auto simp: jobs_ok_def current_ok_def returned_ok_def)
qed (use assms worker_step_jobs main_step_jobs in blast)+

subsection \<open>Reachable states\<close>

definition pool_ok :: "nat list \<Rightarrow> pool \<Rightarrow> bool" where
  "pool_ok jobs s \<longleftrightarrow> lock_ok s \<and> phase_ok s \<and> jobs_ok jobs s"

lemma pool_step_ok: "pool_step s t \<Longrightarrow> pool_ok jobs s \<Longrightarrow> pool_ok jobs t"
  using pool_step_lock pool_step_phase pool_step_jobs by (auto simp: pool_ok_def)

lemma pool_start_ok: "pool_ok jobs (pool_start jobs lim sp)"
  by (simp add: pool_ok_def pool_start_def lock_ok_def phase_ok_def jobs_ok_def between_ok_def record_of_def)

lemma pool_reach_ok: "pool_reach jobs lim sp s \<Longrightarrow> pool_ok jobs s"
  by (induction rule: pool_reach.induct) (blast intro: pool_start_ok pool_step_ok)+

subsection \<open>No deadlock\<close>

text \<open>A thread with the lock, and a worker that wants it when it is free, can go on.\<close>

lemma worker_can_step:
  assumes "k < length (workers s)"
    "holds (workers s ! k) \<or> (\<exists>j i. workers s ! k = W_sync j i) \<or>
     lock s = None \<and> workers s ! k \<notin> {W_wait, W_gone}"
  shows "\<exists>t. pool_step s t"
proof -
  have "\<exists>t. worker_step k s t"
  proof (cases "workers s ! k")
    case W_check
    then show ?thesis by (meson not_le_imp_less worker_step.intros(2-4))
  next
    case (W_store j i e)
    then show ?thesis by (meson worker_step.intros(7,8))
  qed (use assms(2) in \<open>auto intro: worker_step.intros\<close>)
  then show ?thesis using assms(1) pool_step.worker by blast
qed

text \<open>All workers wait or are gone, and the main thread waits: then it would have been signalled.\<close>

lemma waiting_not_stuck:
  assumes "pool_ok jobs s" "main_at s = M_wait" "\<forall>w \<in> set (workers s). w \<in> {W_wait, W_gone}"
  shows False
proof -
  have cur: "current_ok s" and ws: "workers s \<noteq> []" and gone: "W_gone \<notin> set (workers s)"
    using assms(1,2) by (auto simp: pool_ok_def jobs_ok_def phase_ok_def)
  then have "W_wait \<in> set (workers s)" using assms(3) hd_in_set[OF ws] by (metis insertE emptyE)
  then have "j_n s \<le> j_next s" using assms(1) by (simp add: pool_ok_def phase_ok_def)
  moreover have "over_workers flying (workers s) = {#}" "over_workers landed (workers s) = {#}"
    using assms(3) by (auto intro!: over_workers_all)
  then have "mset [0..<j_next s] = image_mset fst (stored (j_errs s))" using cur by (simp add: current_ok_def)
  then have "size (mset [0..<j_next s]) = size (image_mset fst (stored (j_errs s)))" by (rule arg_cong)
  then have "j_next s = size (stored (j_errs s))" by simp
  ultimately show False using cur assms(2) by (auto simp: current_ok_def)
qed

lemma main_can_step:
  assumes "pool_ok jobs s" "main_at s \<notin> {M_wait, M_over}" "main_holds (main_at s) \<or> lock s = None"
    "\<And>k. main_at s = M_join k \<Longrightarrow> k < length (workers s) \<Longrightarrow> workers s ! k = W_gone"
  shows "\<exists>t. main_step s t"
proof -
  have todo: "\<exists>n rest. todo s = n # rest" if "\<not> ending (main_at s)" "main_at s \<noteq> M_idle"
    using that assms(1) by (auto simp: pool_ok_def phase_ok_def neq_Nil_conv)
  show ?thesis
  proof (cases "main_at s")
    case M_idle
    then show ?thesis by (cases "todo s") (meson main_step.intros not_le_imp_less)+
  next
    case M_grow
    moreover from this obtain n rest where "todo s = n # rest" using todo by auto
    ultimately show ?thesis by (meson main_step.intros not_le_imp_less)
  next
    case (M_alone es)
    moreover from this obtain n rest where jobs: "todo s = n # rest" using todo by auto
    moreover have "length es \<le> n"
      using assms(1) M_alone jobs by (simp add: pool_ok_def jobs_ok_def between_ok_def)
    ultimately show ?thesis by (cases "length es = n") (blast intro: main_step.intros(6,7) le_neq_implies_less)+
  next
    case M_check
    moreover from this obtain n rest where "todo s = n # rest" using todo by auto
    ultimately show ?thesis by (meson main_step.intros not_le_imp_less)
  next
    case (M_join k)
    then have "k \<le> length (workers s)" using assms(1) by (simp add: pool_ok_def lock_ok_def)
    then show ?thesis
      using M_join assms(4)[OF M_join] by (cases "k = length (workers s)") (blast intro: main_step.over main_step.join le_neq_implies_less)+
  qed (use assms(2,3) todo in \<open>auto intro: main_step.intros\<close>)
qed

lemma pool_not_stuck:
  assumes "pool_ok jobs s" "main_at s \<noteq> M_over"
  shows "\<exists>t. pool_step s t"
proof (rule ccontr)
  assume stuck: "\<nexists>t. pool_step s t"
  have locked: "lock_ok s" and phase: "phase_ok s" using assms(1) by (simp_all add: pool_ok_def)
  have asleep: "\<not> holds (workers s ! k)" "lock s = None \<Longrightarrow> workers s ! k \<in> {W_wait, W_gone}"
    if "k < length (workers s)" for k
    using worker_can_step[OF that] stuck by blast+
  have free: "lock s = None \<or> lock s = Some Main"
    using locked asleep(1) by (cases "lock s"; cases "the (lock s)") (auto simp: lock_ok_def)
  have "main_holds (main_at s) \<or> lock s = None" using free locked by (auto simp: lock_ok_def)
  moreover have "workers s ! k = W_gone" if "main_at s = M_join m" "k < length (workers s)" for k m
  proof -
    have "lock s = None" using free locked that(1) by (auto simp: lock_ok_def)
    moreover have "W_wait \<notin> set (workers s)" using phase that(1) by (auto simp: phase_ok_def)
    ultimately show ?thesis using asleep(2)[OF that(2)] nth_mem[OF that(2)] by auto
  qed
  moreover have "main_at s \<noteq> M_wait"
  proof
    assume wait: "main_at s = M_wait"
    then have "lock s = None" using free locked by (auto simp: lock_ok_def)
    then show False using waiting_not_stuck[OF assms(1) wait] asleep(2) by (metis in_set_conv_nth)
  qed
  ultimately have "\<exists>t. main_step s t" using main_can_step[OF assms(1)] assms(2) by blast
  then show False using stuck pool_step.main by blast
qed

subsection \<open>Every run ends\<close>

text \<open>
  What goes down with each step, the weightiest first: the unsignalled returns left, the flushes to come, the
  phase of the main thread, what is left of the phase, the indices not taken, the results not stored, the turns
  of the main thread at the head of its loop, and those of the workers.
\<close>

fun main_phase :: "main_thread \<Rightarrow> nat" where
  "main_phase M_idle = 8"
| "main_phase M_grow = 7"
| "main_phase (M_alone es) = 6"
| "main_phase M_want = 5"
| "main_phase M_want_stop = 4"
| "main_phase M_post = 3"
| "main_phase M_stop = 3"
| "main_phase (M_join k) = 1"
| "main_phase M_over = 0"
| "main_phase _ = 2"

fun phase_left :: "main_thread \<Rightarrow> pool \<Rightarrow> nat" where
  "phase_left M_grow s = hd (todo s) - length (workers s) + (if cannot_grow s then 0 else 1)"
| "phase_left (M_alone es) s = hd (todo s) - length es"
| "phase_left (M_join k) s = length (workers s) - k"
| "phase_left _ s = 0"

fun main_turn :: "main_thread \<Rightarrow> nat" where
  "main_turn M_wake = 2"
| "main_turn M_check = 1"
| "main_turn _ = 0"

fun worker_turn :: "worker \<Rightarrow> nat" where
  "worker_turn W_new = 3"
| "worker_turn W_wake = 3"
| "worker_turn W_check = 2"
| "worker_turn W_wait = 1"
| "worker_turn W_gone = 0"
| "worker_turn (W_sync j i) = 6"
| "worker_turn (W_synced j i e) = 5"
| "worker_turn (W_store j i e) = 4"

definition pool_measure :: "(pool \<times> pool) set" where
  "pool_measure = measures
     [spurious, \<lambda>s. length (todo s), \<lambda>s. main_phase (main_at s), \<lambda>s. phase_left (main_at s) s,
      \<lambda>s. j_n s - j_next s, \<lambda>s. j_n s - j_done s, \<lambda>s. main_turn (main_at s), \<lambda>s. \<Sum>w \<leftarrow> workers s. worker_turn w]"

lemma wf_pool_measure: "wf pool_measure"
  by (simp add: pool_measure_def)

lemma turn_update: "k < length ws \<Longrightarrow> worker_turn w < worker_turn (ws ! k) \<Longrightarrow>
    (\<Sum>w \<leftarrow> ws[k := w]. worker_turn w) < (\<Sum>w \<leftarrow> ws. worker_turn w)"
proof (induction ws arbitrary: k)
  case (Cons x ws)
  then show ?case by (cases k) simp_all
qed simp

lemma worker_step_less:
  assumes "worker_step k s t" "k < length (workers s)" "pool_ok jobs s"
  shows "(t, s) \<in> pool_measure"
proof -
  have jobs: "jobs_ok jobs s" using assms(3) by (simp add: pool_ok_def)
  show ?thesis
    using assms(1)
  proof cases
    case (take)
    then have "in_job (main_at s)" using assms(3) by (auto simp: pool_ok_def phase_ok_def)
    then show ?thesis using take by (cases "main_at s") (simp_all add: pool_measure_def diff_less_mono2)
  next
    case (store j i e)
    have "in_job (main_at s)" "j_done s < j_n s" by (rule store_current[OF jobs assms(2) store(2)])+
    then show ?thesis using store by (cases "main_at s") (simp_all add: pool_measure_def diff_less_mono2)
  next
    case (store_last j i e)
    have "in_job (main_at s)" "j_done s < j_n s" by (rule store_current[OF jobs assms(2) store_last(2)])+
    then show ?thesis using store_last by (cases "main_at s") (simp_all add: pool_measure_def diff_less_mono2)
  qed (use assms(2) in \<open>cases "main_at s"; auto simp: pool_measure_def turn_update\<close>)+
qed

lemma main_step_less:
  assumes "main_step s t" "pool_ok jobs s"
  shows "(t, s) \<in> pool_measure"
  using assms(1)
proof cases
  case (spawn n rest)
  then have "length (workers s) < n" by (simp add: wanted_def split: if_splits)
  then show ?thesis using spawn by (simp add: pool_measure_def)
qed (simp_all add: pool_measure_def)

lemma pool_step_less:
  assumes "pool_step s t" "pool_ok jobs s"
  shows "(t, s) \<in> pool_measure"
  using assms(1)
  by cases (use assms(2) worker_step_less main_step_less in \<open>auto simp: pool_measure_def\<close>)

subsection \<open>What the threads do for the rest of the program\<close>

text \<open>
  The record of a flush, the earliest first; the array it leaves when the results are stored in that order, one
  after the other, as \<open>take_jobs\<close> does for one thread.
\<close>

definition flush_record :: "nat \<Rightarrow> pool \<Rightarrow> (nat \<times> errno) list" where
  "flush_record j s = map snd (filter (\<lambda>x. fst x = j) (rev (synced s)))"

fun store_all :: "(nat \<times> errno) list \<Rightarrow> errno list \<Rightarrow> errno list" where
  "store_all [] errs = errs"
| "store_all ((i, e) # l) errs = store_all l (errs[i := e])"

lemma take_jobs_store_all:
  "\<exists>es. length es = length order \<and> fst (run_state (take_jobs E fds dir order errs) p) = store_all (zip order es) errs"
proof (induction order arbitrary: errs p)
  case (Cons i order)
  obtain e q where one: "run_state (sync_one E (fds ! i) dir) p = (e, q)" by fastforce
  obtain es where "length es = length order"
    "fst (run_state (take_jobs E fds dir order (errs[i := e])) q) = store_all (zip order es) (errs[i := e])"
    using Cons.IH by blast
  then show ?case using one by (intro exI[of _ "e # es"]) simp
qed simp

lemma store_all_other: "i \<notin> fst ` set l \<Longrightarrow> store_all l errs ! i = errs ! i"
  by (induction l errs rule: store_all.induct) auto

lemma store_all_nth:
  "distinct (map fst l) \<Longrightarrow> (i, e) \<in> set l \<Longrightarrow> i < length errs \<Longrightarrow> store_all l errs ! i = e"
  by (induction l errs rule: store_all.induct) (force simp: store_all_other)+

lemma store_all_length [simp]: "length (store_all l errs) = length errs"
  by (induction l errs rule: store_all.induct) simp_all

lemma mset_flush_record: "mset (flush_record j s) = record_of j (synced s)"
  by (simp add: flush_record_def record_of_def rev_filter[symmetric] rev_map[symmetric])

lemma stored_array:
  assumes "mset l = stored es" "image_mset fst (stored es) = mset [0..<length es]" "length errs = length es"
  shows "es = map Some (store_all l errs)"
proof (rule nth_equalityI)
  fix i assume i: "i < length es"
  have fst: "mset (map fst l) = mset [0..<length es]" using assms(1,2) by simp
  then have "distinct (map fst l)" by (metis distinct_upt mset_eq_imp_distinct_iff)
  moreover have "i \<in> set (map fst l)" using i fst by (metis atLeastLessThan_iff le0 mset_eq_setD set_upt)
  then obtain e where e: "(i, e) \<in> set l" by auto
  ultimately have "store_all l errs ! i = e" using i assms(3) by (simp add: store_all_nth)
  moreover have "es ! i = Some e" using e assms(1) by (metis in_stored set_mset_mset)
  ultimately show "es ! i = map Some (store_all l errs) ! i" using i assms(3) by simp
qed (simp add: assms(3))

text \<open>
  C6. The threads do what one thread would do: when a flush has returned, each of its descriptors was flushed
  exactly once, and the array has the results that storing them one after the other, in the order of the flushes,
  leaves (so each result stands at its own index).
\<close>

theorem pool_refines_one_thread:
  assumes "pool_reach jobs lim sp s" "j < length (results s)"
  shows "mset (map fst (flush_record j s)) = mset [0..<jobs ! j] \<and>
    results s ! j = map Some (store_all (flush_record j s) (replicate (jobs ! j) E0))"
proof -
  have "returned_ok s (jobs ! j) j" using pool_reach_ok[OF assms(1)] assms(2) by (simp add: pool_ok_def jobs_ok_def)
  then have "length (results s ! j) = jobs ! j" "mset (flush_record j s) = stored (results s ! j)"
    "image_mset fst (stored (results s ! j)) = mset [0..<jobs ! j]"
    by (simp_all add: returned_ok_def mset_flush_record)
  then show ?thesis using stored_array[of "flush_record j s" "results s ! j" "replicate (jobs ! j) E0"] by simp
qed

text \<open>
  C10. A worker never touches the arrays of a flush that returned: what it flushes, or has a result for, is an index
  of the flush under way, below its length, and the main thread is waiting in that flush.
\<close>

theorem pool_arrays_live:
  assumes "pool_reach jobs lim sp s" "k < length (workers s)"
    "workers s ! k \<in> {W_sync j i, W_synced j i e, W_store j i e}"
  shows "j = length (results s) \<and> j < length jobs \<and> i < jobs ! j \<and> in_job (main_at s)"
proof -
  have ok: "jobs_ok jobs s" "phase_ok s" using pool_reach_ok[OF assms(1)] by (simp_all add: pool_ok_def)
  have cur: "current_ok s" and main: "in_job (main_at s)" and j: "j = length (results s)"
    using worker_in_job[OF ok(1) assms(2)] assms(3) by auto
  have "i \<in># flying (workers s ! k) + image_mset fst (landed (workers s ! k))" using assms(3) by auto
  then have "i \<in># over_workers flying (workers s) + image_mset fst (over_workers landed (workers s))"
    using in_over_workers[OF assms(2), of _ flying] in_over_workers[OF assms(2), of _ landed] by force
  then have "i \<in># mset [0..<j_next s]" using cur by (auto simp: current_ok_def)
  then have "i < hd (todo s)" using cur by (simp add: current_ok_def)
  moreover have "todo s \<noteq> []" using ok(2) main by (cases "main_at s") (auto simp: phase_ok_def)
  ultimately show ?thesis using ok(1) j main by (auto simp: jobs_ok_def hd_drop_conv_nth)
qed


text \<open>
  Every way on from a state leads to the end of the main thread, with \<open>n\<close> flushes returned, and no state on
  the way is stuck.
\<close>

inductive pool_ends :: "nat \<Rightarrow> pool \<Rightarrow> bool" for n where
  over: "main_at s = M_over \<Longrightarrow> length (results s) = n \<Longrightarrow> pool_ends n s"
| on: "pool_step s t' \<Longrightarrow> (\<And>t. pool_step s t \<Longrightarrow> pool_ends n t) \<Longrightarrow> pool_ends n s"

lemma pool_ok_ends: "pool_ok jobs s \<Longrightarrow> pool_ends (length jobs) s"
proof (induction s rule: wf_induct_rule[OF wf_pool_measure])
  case (1 s)
  show ?case
  proof (cases "main_at s = M_over")
    case True
    then have "length (results s) = length jobs"
      using 1(2) by (auto simp: pool_ok_def phase_ok_def jobs_ok_def)
    then show ?thesis using True pool_ends.over by blast
  next
    case False
    then show ?thesis using pool_not_stuck[OF 1(2)] 1 pool_step_less pool_step_ok by (meson pool_ends.on)
  qed
qed

text \<open>
  C7. Neither \<^verbatim>\<open>flush_fds\<close> nor \<^verbatim>\<open>flush_stop\<close> ever hangs: however the threads interleave, the main thread gets
  through all flushes and joins its workers. In no state on the way is every thread blocked (so no wake-up
  is lost).
\<close>

theorem pool_runs_end: "pool_ends (length jobs) (pool_start jobs lim sp)"
  by (rule pool_ok_ends[OF pool_start_ok])

subsection \<open>A run\<close>

text \<open>One flush of two descriptors with one worker: the second \<^verbatim>\<open>pthread_create\<close> fails.\<close>

lemma reach_main: "pool_reach jobs lim sp s \<Longrightarrow> main_step s t \<Longrightarrow> pool_reach jobs lim sp t"
  by (blast intro: pool_reach.step pool_step.main)

lemma reach_worker:
  "pool_reach jobs lim sp s \<Longrightarrow> k < length (workers s) \<Longrightarrow> worker_step k s t \<Longrightarrow> pool_reach jobs lim sp t"
  by (blast intro: pool_reach.step pool_step.worker)

lemmas run_many = reach_main[OF pool_reach.start[of "[2]" 4 0] main_step.many[where n = 2 and rest = "[]"],
    simplified pool_start_def, simplified]
lemmas run_spawn = reach_main[OF run_many main_step.spawn[where n = 2 and rest = "[]"], simplified wanted_def, simplified]
lemmas run_fails = reach_main[OF run_spawn main_step.spawn_fails[where n = 2 and rest = "[]"], simplified wanted_def, simplified]
lemmas run_grown = reach_main[OF run_fails main_step.grown[where n = 2 and rest = "[]"], simplified]
lemmas run_lock = reach_main[OF run_grown main_step.lock_post, simplified]
lemmas run_post = reach_main[OF run_lock main_step.post[where n = 2 and rest = "[]"], simplified,
    simplified wake_def, simplified]
lemmas run_wait = reach_main[OF run_post main_step.wait, simplified]
lemmas run_enter = reach_worker[OF run_wait _ worker_step.enter[where k = 0], simplified]
lemmas run_take = reach_worker[OF run_enter _ worker_step.take[where k = 0], simplified]

lemmas run_sync = reach_worker[OF run_take _ worker_step.sync[where k = 0 and j = 0 and i = 0 and e = EIO], simplified]
lemmas run_relock = reach_worker[OF run_sync _ worker_step.relock[where k = 0 and j = 0 and i = 0 and e = EIO], simplified]
lemmas run_store = reach_worker[OF run_relock _ worker_step.store[where k = 0 and j = 0 and i = 0 and e = EIO], simplified]

lemmas run_take1 = reach_worker[OF run_store _ worker_step.take[where k = 0], simplified]
lemmas run_sync1 = reach_worker[OF run_take1 _ worker_step.sync[where k = 0 and j = 0 and i = 1 and e = E0], simplified]
lemmas run_relock1 = reach_worker[OF run_sync1 _ worker_step.relock[where k = 0 and j = 0 and i = 1 and e = E0], simplified]
lemmas run_last = reach_worker[OF run_relock1 _ worker_step.store_last[where k = 0 and j = 0 and i = 1 and e = E0], simplified]
lemmas run_idle = reach_worker[OF run_last _ worker_step.idle[where k = 0], simplified]
lemmas run_again = reach_main[OF run_idle main_step.lock_again, simplified]
lemmas run_finish = reach_main[OF run_again main_step.finish[where n = 2 and rest = "[]"], simplified]

theorem pool_refines_one_thread_witness:
  "\<exists>s. pool_reach [2] 4 0 s \<and> results s = [[Some EIO, Some E0]] \<and>
     mset (map fst (flush_record 0 s)) = mset [0..<2] \<and>
     results s ! 0 = map Some (store_all (flush_record 0 s) (replicate 2 E0))"
proof -
  have "length (results s) = Suc 0 \<Longrightarrow> pool_reach [2] 4 0 s \<Longrightarrow> mset (map fst (flush_record 0 s)) = mset [0..<2] \<and>
     results s ! 0 = map Some (store_all (flush_record 0 s) (replicate 2 E0))" for s
    using pool_refines_one_thread[of "[2]" 4 0 s 0] by simp
  from this[OF _ run_finish] show ?thesis
    using run_finish by (intro exI[of _ "_"] conjI) (assumption | simp add: numeral_2_eq_2)+
qed

theorem pool_arrays_live_witness:
  "\<exists>s. pool_reach [2] 4 0 s \<and> workers s = [W_synced 0 0 EIO] \<and>
     (0 = length (results s) \<and> 0 < length [2 :: nat] \<and> 0 < [2 :: nat] ! 0 \<and> in_job (main_at s))"
  using pool_arrays_live[OF run_sync, of 0 0 0 EIO] run_sync by fastforce

end
