(* ===== verification/Content_Laws.thy ===== *)
theory Content_Laws
  imports Gives Bytes
begin

text \<open>
  The calls that fill a new file, by their documented effect on the bytes of two descriptors, the file being
  made and its template; what a copy under way has done; and the whole writes and fills of \<^verbatim>\<open>src/io.c\<close> over
  those laws.
\<close>

subsection \<open>The calls and their effects\<close>

text \<open>Calls that leave bytes and offsets of both descriptors alone, and those that may change them.\<close>

fun steady_call :: "fd \<Rightarrow> call \<Rightarrow> bool" where
  "steady_call src C_memory = True"
| "steady_call src C_pagesize = True"
| "steady_call src (C_getrlimit l) = True"
| "steady_call src (C_fstat f) = True"
| "steady_call src (C_pread f n off) = (f = src)"
| "steady_call src _ = False"

fun moving_call :: "fd \<Rightarrow> fd \<Rightarrow> call \<Rightarrow> bool" where
  "moving_call dst src (C_pwrite f b off) = (f = dst)"
| "moving_call dst src (C_write f b) = (f = dst)"
| "moving_call dst src (C_read f n) = (f = src)"
| "moving_call dst src (C_ftruncate f n) = (f = dst)"
| "moving_call dst src (C_fallocate f off len) = (f = dst)"
| "moving_call dst src (C_copy_file_range f foff g goff len) = (f = src \<and> g = dst)"
| "moving_call dst src (C_sendfile f g off len) = (f = dst \<and> g = src)"
| "moving_call dst src (C_lseek f off wh) = (f = src \<and> (wh = SEEK_DATA \<or> wh = SEEK_HOLE) \<or> f = dst \<and> wh = SEEK_SET)"
| "moving_call dst src _ = False"

subsection \<open>The bytes of a new file\<close>

text \<open>What a template gives: all its bytes, or those from its offset on when it is a stream.\<close>

definition gives_bytes :: "tmpl \<Rightarrow> bytes \<Rightarrow> nat \<Rightarrow> bytes" where
  "gives_bytes t D p = (if tm_kind t = TMPL_STREAM then drop p D else D)"

text \<open>And what the file holds in the end.\<close>

definition file_bytes :: "file_spec \<Rightarrow> bytes \<Rightarrow> nat \<Rightarrow> bytes" where
  "file_bytes spec D p = (let b = (case fs_tmpl spec of None \<Rightarrow> [] | Some t \<Rightarrow> gives_bytes t D p) in
     if size_given spec then resize (nat (fs_size spec)) b else b)"

subsection \<open>A copy under way\<close>

text \<open>
  \<open>d\<close> has the bytes of \<open>D\<close> up to \<open>k\<close> and nothing after that; where \<open>d\<close> stops before \<open>k\<close>, \<open>D\<close> has NUL. And
  it is still to grow to the length of \<open>D\<close> only when \<open>k\<close> is below that.
\<close>

definition agrees :: "bytes \<Rightarrow> nat \<Rightarrow> bytes \<Rightarrow> bool" where
  "agrees D k d \<longleftrightarrow> (\<forall>i < k. byte d i = byte D i) \<and> length d \<le> k"

definition reached :: "bytes \<Rightarrow> nat \<Rightarrow> bytes \<Rightarrow> bool" where
  "reached D k d \<longleftrightarrow> agrees D k d \<and> (k < length D \<or> length d = length D)"

lemma agrees_0: "agrees D 0 []"
  by (simp add: agrees_def)

lemma byte_piece: "k \<le> i \<Longrightarrow> i < k + length (take n (drop k D)) \<Longrightarrow> take n (drop k D) ! (i - k) = byte D i"
  by (auto simp: byte_def)

lemma piece_nth: "b = take (length b) (drop k D) \<Longrightarrow> k \<le> i \<Longrightarrow> i < k + length b \<Longrightarrow> b ! (i - k) = byte D i"
  using byte_piece[of k i "length b" D] by simp

lemma agrees_write:
  "agrees D k d \<Longrightarrow> b = take (length b) (drop k D) \<Longrightarrow> k + length b \<le> length D \<Longrightarrow> agrees D (k + length b) (write_at k b d)"
  using byte_piece[of k _ "length b" D] by (auto simp: agrees_def byte_write_at length_write_at)

lemma reached_write:
  assumes "reached D k d" "0 < n" "k + n \<le> length D"
  shows "reached D (k + n) (write_at k (take n (drop k D)) d)"
proof -
  let ?b = "take n (drop k D)"
  have b: "length ?b = n" using assms(3) by simp
  have "agrees D (k + length ?b) (write_at k ?b d)"
    by (rule agrees_write) (use assms b in \<open>simp_all add: reached_def\<close>)
  moreover have "?b \<noteq> []" using b assms(2) by auto
  then have "length (write_at k ?b d) = k + n"
    using assms(1) b by (auto simp: length_write_at reached_def agrees_def)
  ultimately show ?thesis using assms(3) b by (auto simp: reached_def)
qed

lemma agrees_skip: "agrees D k d \<Longrightarrow> k \<le> j \<Longrightarrow> (\<And>i. k \<le> i \<Longrightarrow> i < j \<Longrightarrow> byte D i = NUL) \<Longrightarrow> agrees D j d"
proof -
  assume *: "agrees D k d" "k \<le> j" "\<And>i. k \<le> i \<Longrightarrow> i < j \<Longrightarrow> byte D i = NUL"
  have "byte d i = byte D i" if "i < j" for i
  proof (cases "i < k")
    case False
    then have "length d \<le> i" using *(1) by (simp add: agrees_def)
    then show ?thesis using *(3)[of i] False that by simp
  qed (use *(1) in \<open>simp add: agrees_def\<close>)
  then show ?thesis using *(1,2) by (auto simp: agrees_def)
qed

lemma agrees_all: "agrees D (length D) d \<Longrightarrow> resize (length D) d = D"
  by (rule bytes_eqI) (auto simp: agrees_def byte_resize)

lemma agrees_full: "agrees D (length D) d \<Longrightarrow> length d = length D \<Longrightarrow> d = D"
  by (metis agrees_all resize_same)

subsection \<open>The laws of the system\<close>

text \<open>
  \<open>data\<close> is the bytes behind a descriptor and \<open>pos\<close> its offset; \<open>ok\<close> says that both descriptors are open,
  for different files. A call that does not fail does at least what it reports: a write of \<open>n\<close> bytes
  has written the first \<open>n\<close>, a read of no bytes is the end of the file, \<^verbatim>\<open>SEEK_DATA\<close> skips only NUL.
\<close>

locale file_kernel =
  fixes E :: "'w env" and ok :: "'w \<Rightarrow> bool" and data :: "'w \<Rightarrow> fd \<Rightarrow> bytes" and pos :: "'w \<Rightarrow> fd \<Rightarrow> nat"
    and dst src :: fd
  assumes steady: "ok w \<Longrightarrow> steady_call src c \<Longrightarrow> kern E c w = (r, w') \<Longrightarrow>
      ok w' \<and> data w' src = data w src \<and> data w' dst = data w dst \<and> pos w' src = pos w src \<and> pos w' dst = pos w dst"
    and moving: "ok w \<Longrightarrow> moving_call dst src c \<Longrightarrow> kern E c w = (r, w') \<Longrightarrow> ok w' \<and> data w' src = data w src"
    and pwrite: "ok w \<Longrightarrow> 0 \<le> off \<Longrightarrow> kern E (C_pwrite dst b off) w = (r, w') \<Longrightarrow> 0 < reply_int r \<Longrightarrow>
      reply_int r \<le> int (length b) \<and> data w' dst = write_at (nat off) (take (nat (reply_int r)) b) (data w dst)"
    and write_end: "ok w \<Longrightarrow> kern E (C_write dst b) w = (r, w') \<Longrightarrow> 0 < reply_int r \<Longrightarrow>
      reply_int r \<le> int (length b) \<and> data w' dst = write_at (pos w dst) (take (nat (reply_int r)) b) (data w dst) \<and>
      pos w' dst = pos w dst + nat (reply_int r) \<and> pos w' src = pos w src"
    and read_next: "ok w \<Longrightarrow> kern E (C_read src n) w = (r, w') \<Longrightarrow> reply_bytes r = Some b \<Longrightarrow>
      b = take (length b) (drop (pos w src) (data w src)) \<and> (b = [] \<longrightarrow> n \<le> 0 \<or> length (data w src) \<le> pos w src) \<and>
      data w' dst = data w dst \<and> pos w' src = pos w src + length b \<and> pos w' dst = pos w dst"
    and pread: "ok w \<Longrightarrow> 0 \<le> off \<Longrightarrow> 0 \<le> n \<Longrightarrow> kern E (C_pread src n off) w = (r, w') \<Longrightarrow> reply_bytes r = Some b \<Longrightarrow>
      b = take (length b) (drop (nat off) (data w src)) \<and> int (length b) \<le> n \<and>
      (b = [] \<longrightarrow> n \<le> 0 \<or> length (data w src) \<le> nat off)"
    and truncate: "ok w \<Longrightarrow> 0 \<le> n \<Longrightarrow> kern E (C_ftruncate dst n) w = (r, w') \<Longrightarrow> \<not> failed r \<Longrightarrow>
      data w' dst = resize (nat n) (data w dst)"
    and allocate: "ok w \<Longrightarrow> 0 \<le> off \<Longrightarrow> 0 < len \<Longrightarrow> kern E (C_fallocate dst off len) w = (r, w') \<Longrightarrow>
      data w' dst = (if failed r then data w dst else resize (max (length (data w dst)) (nat (off + len))) (data w dst))"
    and copy_range: "ok w \<Longrightarrow> 0 \<le> soff \<Longrightarrow> 0 \<le> doff \<Longrightarrow> kern E (C_copy_file_range src soff dst doff len) w = (r, w') \<Longrightarrow>
      (if 0 < reply_int r
       then reply_int r \<le> len \<and> nat soff + nat (reply_int r) \<le> length (data w src) \<and>
         data w' dst = write_at (nat doff) (take (nat (reply_int r)) (drop (nat soff) (data w src))) (data w dst)
       else data w' dst = data w dst)"
    and sendfile: "ok w \<Longrightarrow> 0 \<le> soff \<Longrightarrow> kern E (C_sendfile dst src soff len) w = (r, w') \<Longrightarrow>
      (if 0 < reply_int r
       then reply_int r \<le> len \<and> nat soff + nat (reply_int r) \<le> length (data w src) \<and>
         data w' dst = write_at (pos w dst) (take (nat (reply_int r)) (drop (nat soff) (data w src))) (data w dst) \<and>
         pos w' dst = pos w dst + nat (reply_int r)
       else data w' dst = data w dst)"
    and seek_to: "ok w \<Longrightarrow> 0 \<le> off \<Longrightarrow> kern E (C_lseek dst off SEEK_SET) w = (r, w') \<Longrightarrow>
      data w' dst = data w dst \<and> (reply_int r \<noteq> -1 \<longrightarrow> pos w' dst = nat off)"
    and seek: "ok w \<Longrightarrow> wh = SEEK_DATA \<or> wh = SEEK_HOLE \<Longrightarrow> kern E (C_lseek src off wh) w = (r, w') \<Longrightarrow>
      data w' dst = data w dst"
    and seek_data: "ok w \<Longrightarrow> 0 \<le> from \<Longrightarrow> kern E (C_lseek src from SEEK_DATA) w = (r, w') \<Longrightarrow>
      (if reply_int r = -1
       then failed r \<and> (r = R_fail ENXIO \<longrightarrow> (\<forall>i \<ge> nat from. byte (data w src) i = NUL))
       else from \<le> reply_int r \<and> nat (reply_int r) < length (data w src) \<and>
         (\<forall>i. nat from \<le> i \<and> i < nat (reply_int r) \<longrightarrow> byte (data w src) i = NUL))"
    and seek_hole: "ok w \<Longrightarrow> 0 \<le> from \<Longrightarrow> kern E (C_lseek src from SEEK_HOLE) w = (r, w') \<Longrightarrow> reply_int r \<noteq> -1 \<Longrightarrow>
      from \<le> reply_int r"
    and fstat: "ok w \<Longrightarrow> kern E (C_fstat dst) w = (R_stat st, w') \<Longrightarrow> st_size st = int (length (data w dst))"
begin

text \<open>A condition on the system, unless the run has ended.\<close>

definition on :: "('w \<Rightarrow> bool) \<Rightarrow> 'w pst \<Rightarrow> bool" where
  "on P s \<longleftrightarrow> (run_status s = Running \<longrightarrow> P (world s))"

text \<open>The template holds \<open>D\<close>; and what is known of the bytes and offset of the new file, and the offset of the template.\<close>

definition has :: "bytes \<Rightarrow> (bytes \<Rightarrow> nat \<Rightarrow> nat \<Rightarrow> bool) \<Rightarrow> 'w \<Rightarrow> bool" where
  "has D X w \<longleftrightarrow> ok w \<and> data w src = D \<and> X (data w dst) (pos w dst) (pos w src)"

lemma gives_sys_on:
  "(\<And>w r w'. P w \<Longrightarrow> kern E c w = (r, w') \<Longrightarrow> Q r w') \<Longrightarrow> gives (on P) (sys E c) (\<lambda>r. on (Q r))"
  by (auto simp: gives_def on_def wp_sys)

lemma gives_on_fact:
  assumes "b \<Longrightarrow> gives (on P) m (\<lambda>x. on (Q x))" "\<And>tr. keeps (ended tr) m"
  shows "gives (on (\<lambda>w. b \<and> P w)) m (\<lambda>x. on (Q x))"
  by (rule gives_running[OF _ assms(2)]) (use assms(1) in \<open>auto simp: on_def gives_def\<close>)

lemma gives_on_weaken: "gives (on P) m Q \<Longrightarrow> (\<And>w. P' w \<Longrightarrow> P w) \<Longrightarrow> gives (on P') m Q"
  by (erule gives_weaken) (simp add: on_def)

lemma gives_on_mono: "gives P m (\<lambda>x. on (Q x)) \<Longrightarrow> (\<And>x w. Q x w \<Longrightarrow> Q' x w) \<Longrightarrow> gives P m (\<lambda>x. on (Q' x))"
  by (erule gives_mono) (simp add: on_def)

lemma gives_on_return: "(\<And>w. P w \<Longrightarrow> Q x w) \<Longrightarrow> gives (on P) (return x) (\<lambda>x. on (Q x))"
  by (rule gives_return) (simp add: on_def)

lemma keeps_on_modify:
  "(\<And>s. world (f s) = world s \<and> (run_status (f s) = Running \<longrightarrow> run_status s = Running)) \<Longrightarrow> keeps (on P) (modify f)"
  by (rule keeps_modify) (auto simp: on_def)

lemma keeps_on_errno: "keeps (on P) (set_errno e)"
  unfolding set_errno_def by (rule keeps_on_modify) simp

lemma has_steady: "has D X w \<Longrightarrow> steady_call src c \<Longrightarrow> kern E c w = (r, w') \<Longrightarrow> has D X w'"
  using steady[of w c r w'] by (simp add: has_def)

lemma keeps_steady: "steady_call src c \<Longrightarrow> keeps (on (has D X)) (sys E c)"
  unfolding keeps_gives by (rule gives_sys_on) (rule has_steady)

text \<open>The same for the calls by their C result.\<close>

lemma gives_on_int:
  "(\<And>w r w'. P w \<Longrightarrow> kern E c w = (r, w') \<Longrightarrow> Q (reply_int r) w') \<Longrightarrow> gives (on P) (sys_int E c) (\<lambda>n. on (Q n))"
  unfolding sys_int_def by (rule gives_bind[OF gives_sys_on[where Q = "\<lambda>r. Q (reply_int r)"]]) (auto intro: gives_return)

lemma gives_on_ok:
  "(\<And>w r w'. P w \<Longrightarrow> kern E c w = (r, w') \<Longrightarrow> Q (\<not> failed r) w') \<Longrightarrow> gives (on P) (sys_ok E c) (\<lambda>b. on (Q b))"
  unfolding sys_ok_def by (rule gives_bind[OF gives_sys_on[where Q = "\<lambda>r. Q (\<not> failed r)"]]) (auto intro: gives_return)

lemma gives_on_bytes:
  "(\<And>w r w'. P w \<Longrightarrow> kern E c w = (r, w') \<Longrightarrow> Q (reply_bytes r) w') \<Longrightarrow> gives (on P) (sys_bytes E c) (\<lambda>b. on (Q b))"
  unfolding sys_bytes_def by (rule gives_bind[OF gives_sys_on[where Q = "\<lambda>r. Q (reply_bytes r)"]]) (auto intro: gives_return)

lemma gives_on_stat:
  "(\<And>w r w'. P w \<Longrightarrow> kern E c w = (r, w') \<Longrightarrow> Q (reply_stat r) w') \<Longrightarrow> gives (on P) (sys_stat E c) (\<lambda>b. on (Q b))"
  unfolding sys_stat_def by (rule gives_bind[OF gives_sys_on[where Q = "\<lambda>r. Q (reply_stat r)"]]) (auto intro: gives_return)

lemmas steady_rules = keeps_steady keeps_on_errno keeps_rules

lemma steady_alloc: "keeps (on (has D X)) (alloc E)"
  unfolding alloc_def sys_ok_def by (intro steady_rules) simp

lemma steady_stat: "keeps (on (has D X)) (sys_stat E (C_fstat f))"
  unfolding sys_stat_def by (intro steady_rules) simp

lemma steady_bufsize: "keeps (on (has D X)) (io_bufsize E fd)"
  unfolding io_bufsize_def sys_stat_def by (intro steady_rules) simp

lemma steady_quiet: "steady_call src c \<Longrightarrow> keeps (on (has D X)) (sys_quiet E c)"
  unfolding sys_quiet_def by (intro steady_rules keeps_on_modify) simp_all

lemma steady_bufalloc: "keeps (on (has D X)) (io_bufalloc E sz)"
  unfolding io_bufalloc_def sys_int_def by (intro steady_rules steady_quiet steady_alloc) simp_all

lemma steady_size_limit: "keeps (on (has D X)) (fast_size_limit E)"
  unfolding fast_size_limit_def Let_def by (intro steady_rules keeps_on_modify) simp_all

subsection \<open>Whole writes\<close>

text \<open>The new file holds \<open>d\<close>.\<close>

abbreviation holds :: "bytes \<Rightarrow> bytes \<Rightarrow> 'w \<Rightarrow> bool" where
  "holds D d \<equiv> has D (\<lambda>x _ _. x = d)"

lemma holds_pwrite:
  "holds D d w \<Longrightarrow> 0 \<le> off \<Longrightarrow> kern E (C_pwrite dst b off) w = (r, w') \<Longrightarrow> 0 < reply_int r \<Longrightarrow>
     holds D (write_at (nat off) (take (nat (reply_int r)) b) d) w'"
  using moving[of w "C_pwrite dst b off" r w'] pwrite[of w off b r w'] by (auto simp: has_def)

lemma io_pwrite_on:
  "0 \<le> off \<Longrightarrow> gives (on (holds D d)) (io_pwrite E dst buf off)
     (\<lambda>ret. on (\<lambda>w. ret = 0 \<longrightarrow> holds D (write_at (nat off) buf d) w))"
proof (induction "length buf" arbitrary: buf off d rule: less_induct)
  case less
  show ?case
  proof (cases "buf = []")
    case True
    then show ?thesis by (simp add: io_pwrite.simps gives_return)
  next
    case False
    let ?d = "\<lambda>n. write_at (nat off) (take (nat n) buf) d"
    have call: "gives (on (holds D d)) (sys_int E (C_pwrite dst buf off)) (\<lambda>n. on (\<lambda>w. 0 < n \<longrightarrow> holds D (?d n) w))"
      by (rule gives_on_int) (use holds_pwrite less(2) in blast)
    have rest: "gives (on (\<lambda>w. 0 < n \<longrightarrow> holds D (?d n) w)) (if n < 0 then return (-1)
        else if n = 0 then do { set_errno EIO; return (-1) }
        else io_pwrite E dst (drop (nat n) buf) (off + n))
        (\<lambda>ret. on (\<lambda>w. ret = 0 \<longrightarrow> holds D (write_at (nat off) buf d) w))" for n :: int
    proof -
      have "gives (on (holds D (?d n))) (io_pwrite E dst (drop (nat n) buf) (off + n))
          (\<lambda>ret. on (\<lambda>w. ret = 0 \<longrightarrow> holds D (write_at (nat off) buf d) w))" if "0 < n"
        using less(1)[of "drop (nat n) buf" "off + n" "?d n"] that False less(2)
        by (simp add: nat_add_distrib write_at_pieces)
      then show ?thesis
        by (intro gives_if gives_return gives_skip[where m = "set_errno _"]) (auto simp: on_def elim: gives_weaken)
    qed
    show ?thesis using False by (simp add: io_pwrite.simps[of E dst buf] gives_bind[OF call rest])
  qed
qed

text \<open>At the offset of the descriptor, which stands at the end of the bytes.\<close>

definition at_end :: "bytes \<Rightarrow> nat \<Rightarrow> bytes \<Rightarrow> nat \<Rightarrow> nat \<Rightarrow> bool" where
  "at_end d k = (\<lambda>x p q. x = d \<and> p = length d \<and> q = k)"

lemma has_write:
  "has D (at_end d k) w \<Longrightarrow> kern E (C_write dst b) w = (r, w') \<Longrightarrow> 0 < reply_int r \<Longrightarrow>
     has D (at_end (d @ take (nat (reply_int r)) b) k) w'"
  using moving[of w "C_write dst b" r w'] write_end[of w b r w'] by (auto simp: has_def at_end_def write_at_end)

lemma io_write_on:
  "gives (on (has D (at_end d k))) (io_write E dst buf)
     (\<lambda>ret. on (\<lambda>w. ret = 0 \<longrightarrow> has D (at_end (d @ buf) k) w))"
proof (induction "length buf" arbitrary: buf d rule: less_induct)
  case less
  show ?case
  proof (cases "buf = []")
    case True
    then show ?thesis by (simp add: io_write.simps gives_return)
  next
    case False
    let ?d = "\<lambda>n. d @ take (nat n) buf"
    have call: "gives (on (has D (at_end d k))) (sys_int E (C_write dst buf)) (\<lambda>n. on (\<lambda>w. 0 < n \<longrightarrow> has D (at_end (?d n) k) w))"
      by (rule gives_on_int) (use has_write in blast)
    have rest: "gives (on (\<lambda>w. 0 < n \<longrightarrow> has D (at_end (?d n) k) w)) (if n < 0 then return (-1)
        else if n = 0 then do { set_errno EIO; return (-1) }
        else io_write E dst (drop (nat n) buf))
        (\<lambda>ret. on (\<lambda>w. ret = 0 \<longrightarrow> has D (at_end (d @ buf) k) w))" for n :: int
    proof -
      have "gives (on (has D (at_end (?d n) k))) (io_write E dst (drop (nat n) buf))
          (\<lambda>ret. on (\<lambda>w. ret = 0 \<longrightarrow> has D (at_end (d @ buf) k) w))" if "0 < n"
        using less(1)[of "drop (nat n) buf" "?d n"] that False by simp
      then show ?thesis
        by (intro gives_if gives_return gives_skip[where m = "set_errno _"]) (auto simp: on_def elim: gives_weaken)
    qed
    show ?thesis using False by (simp add: io_write.simps[of E dst buf] gives_bind[OF call rest])
  qed
qed

subsection \<open>Setting the size\<close>

lemma fill_loop_on:
  "gives (on (holds D d)) (fill_loop E dst bufsize (int (length d)) remaining)
     (\<lambda>ret. on (\<lambda>w. 0 < bufsize \<longrightarrow> ret = 0 \<longrightarrow> holds D (d @ replicate (nat remaining) NUL) w))"
proof (induction "nat remaining" arbitrary: remaining d rule: less_induct)
  case less
  show ?case
  proof (cases "remaining \<le> 0 \<or> bufsize \<le> 0")
    case True
    then show ?thesis by (auto simp: fill_loop.simps on_def intro!: gives_return)
  next
    case False
    define c where "c = (if bufsize < remaining then bufsize else remaining)"
    have c: "0 < c" "c \<le> remaining" using False by (auto simp: c_def)
    let ?d = "d @ replicate (nat c) NUL"
    have chunk: "gives (on (holds D d)) (io_pwrite E dst (replicate (nat c) NUL) (int (length d)))
        (\<lambda>ret. on (\<lambda>w. ret = 0 \<longrightarrow> holds D ?d w))"
      using io_pwrite_on[of "int (length d)" D d "replicate (nat c) NUL"] by (simp add: write_at_end)
    have len: "int (length ?d) = int (length d) + c" using c by simp
    have all: "?d @ replicate (nat (remaining - c)) NUL = d @ replicate (nat remaining) NUL"
      using c by (simp add: replicate_add[symmetric] nat_add_distrib[symmetric])
    have "gives (on (holds D ?d)) (fill_loop E dst bufsize (int (length d) + c) (remaining - c))
        (\<lambda>ret. on (\<lambda>w. 0 < bufsize \<longrightarrow> ret = 0 \<longrightarrow> holds D (d @ replicate (nat remaining) NUL) w))"
      using less[of "remaining - c" ?d] c unfolding len all by simp
    then have rest: "gives (on (\<lambda>w. ret = 0 \<longrightarrow> holds D ?d w)) (if ret \<noteq> 0 then return (-1)
        else fill_loop E dst bufsize (int (length d) + c) (remaining - c))
        (\<lambda>ret. on (\<lambda>w. 0 < bufsize \<longrightarrow> ret = 0 \<longrightarrow> holds D (d @ replicate (nat remaining) NUL) w))" for ret :: int
      by (intro gives_if gives_return) (auto simp: on_def)
    show ?thesis
      unfolding fill_loop.simps[of E dst bufsize "int (length d)"] Let_def c_def[symmetric] if_not_P[OF False]
      by (rule gives_bind[OF chunk rest])
  qed
qed

lemma io_bufsize_pos: "gives P (io_bufsize E fd) (\<lambda>sz s. 0 < sz)"
  unfolding io_bufsize_def
  by (rule gives_skip, rule gives_return) (simp add: IO_BUFSIZE_MIN_def IO_BUFSIZE_MAX_def split: option.split)

lemma fast_alloc_on:
  "0 < len \<Longrightarrow> gives (on (holds D d)) (fast_alloc E dst (int (length d)) len)
     (\<lambda>ret. on (\<lambda>w. (ret = 0 \<longrightarrow> holds D (d @ replicate (nat len) NUL) w) \<and> (0 < ret \<longrightarrow> holds D d w)))"
proof -
  assume len: "0 < len"
  have eff: "if failed r then holds D d w' else holds D (d @ replicate (nat len) NUL) w'"
    if "holds D d w" "kern E (C_fallocate dst (int (length d)) len) w = (r, w')" for w r w'
    using moving[of w "C_fallocate dst (int (length d)) len" r w'] allocate[of w "int (length d)" len r w'] len that
    by (auto simp: has_def resize_longer nat_add_distrib)
  have call: "gives (on (holds D d)) (sys_ok E (C_fallocate dst (int (length d)) len))
      (\<lambda>b. on (\<lambda>w. if b then holds D (d @ replicate (nat len) NUL) w else holds D d w))"
    by (rule gives_on_ok) (use eff in \<open>auto split: if_splits\<close>)
  have tail: "gives (on (\<lambda>w. if b then holds D (d @ replicate (nat len) NUL) w else holds D d w))
      (do { e \<leftarrow> get_errno; return (if b then 0 else if e \<in> S then 1 else -1 :: int) })
      (\<lambda>ret. on (\<lambda>w. (ret = 0 \<longrightarrow> holds D (d @ replicate (nat len) NUL) w) \<and> (0 < ret \<longrightarrow> holds D d w)))" for b S
    by (intro gives_keep[OF keeps_get_errno] gives_return) (auto simp: on_def)
  show ?thesis
    unfolding fast_alloc_def if_not_P[OF iffD2[OF not_le len]]
    by (intro gives_keep[OF steady_size_limit] gives_if gives_keep[OF keeps_on_errno] gives_return gives_bind[OF call tail])
      (auto simp: on_def)
qed

lemma io_fill_on:
  "gives (on (holds D d)) (io_fill E dst (int (length d)) len)
     (\<lambda>ret. on (\<lambda>w. ret = 0 \<longrightarrow> holds D (d @ replicate (nat len) NUL) w))"
proof (cases "len \<le> 0")
  case True
  then show ?thesis by (simp add: io_fill_def gives_return)
next
  case False
  let ?Q = "\<lambda>ret. on (\<lambda>w. ret = 0 \<longrightarrow> holds D (d @ replicate (nat len) NUL) w)"
  have size: "gives (on (holds D d)) (io_bufsize E dst) (\<lambda>sz s. 0 < sz \<and> on (holds D d) s)"
    by (intro gives_conj io_bufsize_pos gives_keeps steady_bufsize)
  have loop: "gives (\<lambda>s. 0 < sz \<and> on (holds D d) s) (do {
      got \<leftarrow> alloc E;
      if \<not> got then return (-1) else fill_loop E dst (if len < sz then len else sz) (int (length d)) len }) ?Q" for sz
    using False
    by (intro gives_fact gives_keep[OF steady_alloc] gives_if gives_return gives_mono[OF fill_loop_on]) (auto simp: on_def)
  have rest: "gives (on (\<lambda>w. (ret = 0 \<longrightarrow> holds D (d @ replicate (nat len) NUL) w) \<and> (0 < ret \<longrightarrow> holds D d w)))
      (if ret \<le> 0 then return ret else do {
          sz \<leftarrow> io_bufsize E dst;
          let bufsize = (if len < sz then len else sz);
          got \<leftarrow> alloc E;
          if \<not> got then return (-1) else fill_loop E dst bufsize (int (length d)) len }) ?Q" for ret :: int
    unfolding Let_def
    by (intro gives_if gives_return gives_weaken[OF gives_bind[OF size loop]]) (auto simp: on_def)
  show ?thesis
    unfolding io_fill_def if_not_P[OF False] using fast_alloc_on[of len D d] False by (intro gives_bind[OF _ rest]) simp
qed

lemma apply_size_on:
  assumes "0 \<le> target" "filled \<or> d = []"
  shows "gives (on (holds D d)) (apply_size E dst target sp th filled)
    (\<lambda>ret. on (\<lambda>w. ret = 0 \<longrightarrow> holds D (resize (nat target) d) w))"
proof -
  let ?sz = "\<lambda>st :: stat. if filled then st_size st else 0"
  have stat: "gives (on (holds D d)) (if filled then sys_stat E (C_fstat dst) else return (Some no_stat))
      (\<lambda>r. on (\<lambda>w. (\<forall>st. r = Some st \<longrightarrow> ?sz st = int (length d)) \<and> holds D d w))"
  proof (intro gives_if gives_on_return)
    show "gives (on (holds D d)) (sys_stat E (C_fstat dst))
        (\<lambda>r. on (\<lambda>w. (\<forall>st. r = Some st \<longrightarrow> ?sz st = int (length d)) \<and> holds D d w))" if filled
    proof (rule gives_on_stat)
      fix w r w'
      assume *: "holds D d w" "kern E (C_fstat dst) w = (r, w')"
      then show "(\<forall>st. reply_stat r = Some st \<longrightarrow> ?sz st = int (length d)) \<and> holds D d w'"
        using fstat[of w _ w'] has_steady[OF *(1) _ *(2)] that by (auto simp: reply_stat_Some has_def)
    qed
  qed (use assms(2) in auto)
  have trunc: "gives (on (holds D d)) (do { trunc \<leftarrow> sys_ok E (C_ftruncate dst target); return (if trunc then 0 else -1) })
      (\<lambda>ret. on (\<lambda>w. ret = (0 :: int) \<longrightarrow> holds D (resize (nat target) d) w))"
  proof (rule gives_bind[OF gives_on_ok[where Q = "\<lambda>b w. b \<longrightarrow> holds D (resize (nat target) d) w"]])
    fix w r w'
    assume "holds D d w" "kern E (C_ftruncate dst target) w = (r, w')"
    then show "\<not> failed r \<longrightarrow> holds D (resize (nat target) d) w'"
      using moving[of w "C_ftruncate dst target" r w'] truncate[of w target r w'] assms(1) by (auto simp: has_def)
  qed (auto intro!: gives_on_return)
  have set: "gives (on (holds D d)) (if target \<le> int (length d) \<or> sp \<or> th then do {
           trunc \<leftarrow> sys_ok E (C_ftruncate dst target);
           return (if trunc then 0 else -1) }
         else io_fill E dst (int (length d)) (target - int (length d)))
      (\<lambda>ret. on (\<lambda>w. ret = 0 \<longrightarrow> holds D (resize (nat target) d) w))"
  proof (rule gives_if[OF trunc])
    assume "\<not> (target \<le> int (length d) \<or> sp \<or> th)"
    then have "d @ replicate (nat (target - int (length d))) NUL = resize (nat target) d"
      by (subst resize_longer) (auto simp: nat_diff_distrib')
    then show "gives (on (holds D d)) (io_fill E dst (int (length d)) (target - int (length d)))
        (\<lambda>ret. on (\<lambda>w. ret = 0 \<longrightarrow> holds D (resize (nat target) d) w))"
      using io_fill_on[of D d "target - int (length d)"] by simp
  qed
  show ?thesis
    unfolding apply_size_def Let_def
  proof (rule gives_bind[OF stat], rule gives_case_option)
    fix r :: "stat option" and st
    assume r: "r = Some st"
    show "gives (on (\<lambda>w. (\<forall>st. r = Some st \<longrightarrow> ?sz st = int (length d)) \<and> holds D d w))
        (if target \<le> ?sz st \<or> sp \<or> th then do {
           trunc \<leftarrow> sys_ok E (C_ftruncate dst target);
           return (if trunc then 0 else -1) }
         else io_fill E dst (?sz st) (target - ?sz st))
        (\<lambda>ret. on (\<lambda>w. ret = 0 \<longrightarrow> holds D (resize (nat target) d) w))"
    proof (rule gives_on_fact)
      assume "\<forall>st. r = Some st \<longrightarrow> ?sz st = int (length d)"
      then have sz: "?sz st = int (length d)" using r by simp
      show "gives (on (holds D d)) (if target \<le> ?sz st \<or> sp \<or> th then do {
           trunc \<leftarrow> sys_ok E (C_ftruncate dst target);
           return (if trunc then 0 else -1) }
         else io_fill E dst (?sz st) (target - ?sz st))
        (\<lambda>ret. on (\<lambda>w. ret = 0 \<longrightarrow> holds D (resize (nat target) d) w))"
        unfolding sz by (rule set)
    qed (intro keeps_rules ended.k_io_fill ended.k_sys_ok ended_sys; simp)
  qed (auto intro!: gives_on_return)
qed

end

end
