(* ===== verification/Content.thy ===== *)
theory Content
  imports Content_Laws Safety
begin

text \<open>
  The bytes a new file gets: over the laws of the calls, filling a file that does not fail leaves it with the
  bytes of the template, cut or extended with NUL to the size asked for. Reads and writes may be short, and
  each fast path may turn out unusable at any call.
\<close>

context file_kernel begin

subsection \<open>Copying an extent\<close>

text \<open>The result of a copy from \<open>k\<close> to \<open>j\<close>, both offsets moving together.\<close>

definition copied :: "bytes \<Rightarrow> nat \<Rightarrow> nat \<Rightarrow> int \<times> int \<times> int \<Rightarrow> 'w \<Rightarrow> bool" where
  "copied D k j c w \<longleftrightarrow> (case c of (ret, doff, soff) \<Rightarrow> 0 \<le> ret \<longrightarrow>
     doff = soff \<and> int k \<le> soff \<and> soff \<le> int j \<and> (ret = 0 \<longrightarrow> soff = int j) \<and> has D (\<lambda>x _ _. reached D (nat soff) x) w)"

lemma copied_here: "has D (\<lambda>x _ _. reached D k x) w \<Longrightarrow> k \<le> j \<Longrightarrow> ret \<noteq> 0 \<or> k = j \<Longrightarrow> copied D k j (ret, int k, int k) w"
  by (simp add: copied_def)

lemma copied_on: "copied D (k + n) j c w \<Longrightarrow> copied D k j c w"
  by (auto simp: copied_def)

lemma clamp_len_le: "0 \<le> len \<Longrightarrow> clamp_len len \<le> len"
  using zmod_le_nonneg_dividend[of len "2 ^ 64"] by (auto simp: clamp_len_def)

lemma sendfile_loop_on:
  "j \<le> length D \<Longrightarrow> k \<le> j \<Longrightarrow> gives (on (has D (\<lambda>x p _. reached D k x \<and> p = k)))
     (sendfile_loop E dst src (int k) (int k) (int j - int k)) (\<lambda>c. on (copied D k j c))"
proof (induction "j - k" arbitrary: k rule: less_induct)
  case less
  show ?case
  proof (cases "k = j")
    case True
    then show ?thesis
      by (simp add: sendfile_loop.simps) (rule gives_on_return, auto simp: copied_def has_def)
  next
    case False
    then have more: "\<not> int j - int k \<le> 0" using less(3) by simp
    let ?len = "clamp_len (int j - int k)"
    let ?P = "\<lambda>k w. has D (\<lambda>x p _. reached D k x \<and> p = k) w"
    have len: "?len \<le> int j - int k" by (rule clamp_len_le) (use less(3) in simp)
    have eff: "if 0 < reply_int r then reply_int r \<le> int j - int k \<and> ?P (k + nat (reply_int r)) w' else has D (\<lambda>x _ _. reached D k x) w'"
      if "?P k w" "kern E (C_sendfile dst src (int k) ?len) w = (r, w')" for w r w'
      using moving[of w "C_sendfile dst src (int k) ?len" r w'] sendfile[of w "int k" ?len r w'] that len
        reached_write[of D k "data w dst" "nat (reply_int r)"]
      by (auto simp: has_def split: if_splits)
    have call: "gives (on (?P k)) (sys_int E (C_sendfile dst src (int k) ?len))
        (\<lambda>n. on (\<lambda>w. if 0 < n then n \<le> int j - int k \<and> ?P (k + nat n) w else has D (\<lambda>x _ _. reached D k x) w))"
      by (rule gives_on_int) (rule eff)
    have rest: "gives (on (\<lambda>w. if 0 < n then n \<le> int j - int k \<and> ?P (k + nat n) w else has D (\<lambda>x _ _. reached D k x) w))
        (do { e \<leftarrow> get_errno;
        if n < 0 then
          return (if e \<in> S then 1 else -1, int k, int k)
        else if n = 0 then return (1, int k, int k)
        else sendfile_loop E dst src (int k + n) (int k + n) (int j - int k - n) }) (\<lambda>c. on (copied D k j c))" for n :: int and S
    proof (cases "0 < n")
      case True
      have loop: "gives (on (?P (k + nat n))) (sendfile_loop E dst src (int k + n) (int k + n) (int j - int k - n)) (\<lambda>c. on (copied D k j c))"
        if "n \<le> int j - int k"
        using gives_on_mono[OF less(1)[of "k + nat n"] copied_on] that True less(2,3) False
        by (simp add: algebra_simps)
      have "gives (on (\<lambda>w. n \<le> int j - int k \<and> ?P (k + nat n) w)) (do { e \<leftarrow> get_errno;
        if n < 0 then return (if e \<in> S then 1 else -1, int k, int k)
        else if n = 0 then return (1, int k, int k)
        else sendfile_loop E dst src (int k + n) (int k + n) (int j - int k - n) }) (\<lambda>c. on (copied D k j c))"
        using True by (intro gives_keep[OF keeps_get_errno]) (simp add: gives_on_fact loop ended.k_sendfile_loop)
      then show ?thesis using True by simp
    qed (use less(3) in \<open>intro gives_keep[OF keeps_get_errno] gives_if gives_on_return copied_here; auto split: if_splits\<close>)
    show ?thesis
      unfolding sendfile_loop.simps[of E dst src "int k"] if_not_P[OF more] by (rule gives_bind[OF call rest])
  qed
qed

text \<open>The new file is a copy up to \<open>k\<close>, whatever the offsets are.\<close>

abbreviation copying :: "bytes \<Rightarrow> nat \<Rightarrow> 'w \<Rightarrow> bool" where
  "copying D k \<equiv> has D (\<lambda>x _ _. reached D k x)"

lemma gives_stop: "k \<le> j \<Longrightarrow> ret \<noteq> 0 \<Longrightarrow> gives (on (copying D k)) (return (ret, int k, int k)) (\<lambda>c. on (copied D k j c))"
  by (rule gives_on_return) (simp add: copied_here)

lemma fast_sendfile_on:
  assumes "j \<le> length D" "k \<le> j"
  shows "gives (on (copying D k)) (fast_sendfile E dst (int k) src (int k) (int j - int k)) (\<lambda>c. on (copied D k j c))"
proof -
  let ?P = "\<lambda>w. has D (\<lambda>x p _. reached D k x \<and> p = k) w"
  have eff: "if reply_int r = -1 then copying D k w' else ?P w'"
    if "copying D k w" "kern E (C_lseek dst (int k) SEEK_SET) w = (r, w')" for w r w'
    using moving[of w "C_lseek dst (int k) SEEK_SET" r w'] seek_to[of w "int k" r w'] that by (auto simp: has_def)
  have call: "gives (on (copying D k)) (sys_int E (C_lseek dst (int k) SEEK_SET)) (\<lambda>n. on (\<lambda>w. if n = -1 then copying D k w else ?P w))"
    by (rule gives_on_int) (rule eff)
  have rest: "gives (on (\<lambda>w. if n = -1 then copying D k w else ?P w)) (if n = -1 then return (1, int k, int k)
      else sendfile_loop E dst src (int k) (int k) (int j - int k)) (\<lambda>c. on (copied D k j c))" for n
    using assms by (cases "n = -1") (simp_all add: gives_stop sendfile_loop_on)
  show ?thesis unfolding fast_sendfile_def by (rule gives_bind[OF call rest])
qed

lemma fast_copy_on:
  "j \<le> length D \<Longrightarrow> k \<le> j \<Longrightarrow> gives (on (copying D k))
     (fast_copy E dst (int k) src (int k) (int j - int k)) (\<lambda>c. on (copied D k j c))"
proof (induction "j - k" arbitrary: k rule: less_induct)
  case less
  show ?case
  proof (cases "k = j")
    case True
    then show ?thesis
      by (simp add: fast_copy.simps) (rule gives_on_return, auto simp: copied_def has_def)
  next
    case False
    then have more: "\<not> int j - int k \<le> 0" using less(3) by simp
    let ?len = "clamp_len (int j - int k)"
    have len: "?len \<le> int j - int k" by (rule clamp_len_le) (use less(3) in simp)
    have eff: "if 0 < reply_int r then reply_int r \<le> int j - int k \<and> copying D (k + nat (reply_int r)) w' else copying D k w'"
      if "copying D k w" "kern E (C_copy_file_range src (int k) dst (int k) ?len) w = (r, w')" for w r w'
      using moving[of w "C_copy_file_range src (int k) dst (int k) ?len" r w'] copy_range[of w "int k" "int k" ?len r w'] that len
        reached_write[of D k "data w dst" "nat (reply_int r)"]
      by (auto simp: has_def split: if_splits)
    let ?P = "\<lambda>n w. if 0 < n then n \<le> int j - int k \<and> copying D (k + nat n) w else copying D k w"
    have call: "gives (on (copying D k)) (sys_int E (C_copy_file_range src (int k) dst (int k) ?len)) (\<lambda>n. on (?P n))"
      by (rule gives_on_int) (rule eff)
    have send: "gives (on (copying D k)) (fast_sendfile E dst (int k) src (int k) (int j - int k)) (\<lambda>c. on (copied D k j c))"
      by (rule fast_sendfile_on[OF less(2,3)])
    have rest: "gives (on (?P n)) (do { e \<leftarrow> get_errno;
        if n < 0 then
          (if e \<in> S then fast_sendfile E dst (int k) src (int k) (int j - int k) else return (-1, int k, int k))
        else if n = 0 then fast_sendfile E dst (int k) src (int k) (int j - int k)
        else fast_copy E dst (int k + n) src (int k + n) (int j - int k - n) }) (\<lambda>c. on (copied D k j c))" for n :: int and S
    proof (cases "0 < n")
      case True
      have loop: "gives (on (copying D (k + nat n))) (fast_copy E dst (int k + n) src (int k + n) (int j - int k - n)) (\<lambda>c. on (copied D k j c))"
        if "n \<le> int j - int k"
        using gives_on_mono[OF less(1)[of "k + nat n"] copied_on] that True less(2,3) False
        by (simp add: algebra_simps)
      have "gives (on (\<lambda>w. n \<le> int j - int k \<and> copying D (k + nat n) w)) (do { e \<leftarrow> get_errno;
        if n < 0 then
          (if e \<in> S then fast_sendfile E dst (int k) src (int k) (int j - int k) else return (-1, int k, int k))
        else if n = 0 then fast_sendfile E dst (int k) src (int k) (int j - int k)
        else fast_copy E dst (int k + n) src (int k + n) (int j - int k - n) }) (\<lambda>c. on (copied D k j c))"
        using True by (intro gives_keep[OF keeps_get_errno]) (simp add: gives_on_fact loop ended.k_fast_copy)
      then show ?thesis using True by simp
    next
      case False
      then show ?thesis
        using less(3) by (simp only: if_False) (intro gives_keep[OF keeps_get_errno] gives_if send gives_stop; simp)
    qed
    show ?thesis
      unfolding fast_copy.simps[of E dst "int k"] if_not_P[OF more] by (rule gives_bind[OF call rest])
  qed
qed

lemma slow_buffer_on:
  "(\<And>z. cb = Some z \<Longrightarrow> 0 < z) \<Longrightarrow> gives (on (has D X)) (slow_buffer E dst src cb)
     (\<lambda>r. on (\<lambda>w. (\<forall>z. r = Some z \<longrightarrow> 0 < z) \<and> has D X w))"
proof -
  assume cb: "\<And>z. cb = Some z \<Longrightarrow> 0 < z"
  have "gives (on (has D X)) (io_bufsize E src) (\<lambda>m s. 0 < m \<and> on (has D X) s)"
    by (intro gives_conj io_bufsize_pos gives_keeps steady_bufsize)
  moreover have "gives (\<lambda>s. 0 < m \<and> on (has D X) s) (do {
      n \<leftarrow> io_bufsize E dst;
      let sz = (if m < n then n else m);
      got \<leftarrow> io_bufalloc E sz;
      return (if got then Some sz else None) }) (\<lambda>r. on (\<lambda>w. (\<forall>z. r = Some z \<longrightarrow> 0 < z) \<and> has D X w))" for m
    unfolding Let_def
    by (rule gives_fact) (intro gives_keep[OF steady_bufsize] gives_keep[OF steady_bufalloc] gives_on_return; auto split: if_splits)
  ultimately have "gives (on (has D X)) (do {
      m \<leftarrow> io_bufsize E src;
      n \<leftarrow> io_bufsize E dst;
      let sz = (if m < n then n else m);
      got \<leftarrow> io_bufalloc E sz;
      return (if got then Some sz else None) }) (\<lambda>r. on (\<lambda>w. (\<forall>z. r = Some z \<longrightarrow> 0 < z) \<and> has D X w))"
    by (rule gives_bind)
  then show ?thesis
    unfolding slow_buffer_def using cb by (cases cb) (simp_all, rule gives_on_return, simp)
qed

subsection \<open>Copying by reads and writes\<close>

lemma gives_on_ex: "(\<And>d. gives (on (P d)) m Q) \<Longrightarrow> gives (on (\<lambda>w. \<exists>d. P d w)) m Q"
  by (auto simp: gives_def on_def)

text \<open>A write of bytes that were read from the template at \<open>k\<close>.\<close>

lemma io_pwrite_piece:
  assumes "\<And>d. P d \<Longrightarrow> Q (write_at k b d)"
  shows "gives (on (has D (\<lambda>x _ _. P x))) (io_pwrite E dst b (int k)) (\<lambda>ret. on (\<lambda>w. ret = 0 \<longrightarrow> has D (\<lambda>x _ _. Q x) w))"
proof -
  have one: "gives (on (\<lambda>w. P d \<and> holds D d w)) (io_pwrite E dst b (int k)) (\<lambda>ret. on (\<lambda>w. ret = 0 \<longrightarrow> has D (\<lambda>x _ _. Q x) w))" for d
  proof (rule gives_on_fact)
    assume "P d"
    then show "gives (on (holds D d)) (io_pwrite E dst b (int k)) (\<lambda>ret. on (\<lambda>w. ret = 0 \<longrightarrow> has D (\<lambda>x _ _. Q x) w))"
      using assms gives_on_mono[OF io_pwrite_on[of "int k" D d b]] by (auto simp: has_def)
  qed (rule ended.k_io_pwrite)
  show ?thesis by (rule gives_on_weaken[OF gives_on_ex[OF one]]) (auto simp: has_def)
qed

text \<open>What a read of the template at \<open>k\<close> returns.\<close>

definition piece :: "bytes \<Rightarrow> nat \<Rightarrow> int \<Rightarrow> bytes \<Rightarrow> bool" where
  "piece D k n b \<longleftrightarrow> b = take (length b) (drop k D) \<and> int (length b) \<le> n \<and> (b = [] \<longrightarrow> n \<le> 0 \<or> length D \<le> k)"

lemma pread_on:
  "0 \<le> n \<Longrightarrow> gives (on (has D X)) (sys_bytes E (C_pread src n (int k))) (\<lambda>r. on (\<lambda>w. (\<forall>b. r = Some b \<longrightarrow> piece D k n b) \<and> has D X w))"
proof (rule gives_on_bytes)
  fix w r w'
  assume n: "0 \<le> n" and *: "has D X w" "kern E (C_pread src n (int k)) w = (r, w')"
  then show "(\<forall>b. reply_bytes r = Some b \<longrightarrow> piece D k n b) \<and> has D X w'"
    using n pread[of w "int k" n r w'] has_steady[OF *(1) _ *(2)] by (auto simp: has_def piece_def)
qed

lemma copy_slow_on:
  "j \<le> length D \<Longrightarrow> (\<And>z. cb = Some z \<Longrightarrow> 0 < z) \<Longrightarrow>
   gives (on (copying D k)) (copy_slow E dst src (int k) (int k) (int j) cb)
     (\<lambda>r. on (\<lambda>w. 0 \<le> fst r \<longrightarrow> fst r = 0 \<and> fst (snd r) = int (max k j) \<and> (\<forall>z. snd (snd r) = Some z \<longrightarrow> 0 < z) \<and>
        copying D (max k j) w))"
proof (induction "j - k" arbitrary: k cb rule: less_induct)
  case less
  let ?Q = "\<lambda>k r. on (\<lambda>w. 0 \<le> fst r \<longrightarrow> fst r = (0 :: int) \<and> fst (snd r) = int (max k j) \<and>
      (\<forall>z. snd (snd r) = Some z \<longrightarrow> (0 :: int) < z) \<and> copying D (max k j) w)"
  show ?case
  proof (cases "j \<le> k")
    case True
    then show ?thesis using less(3) by (simp add: copy_slow.simps) (rule gives_on_return, simp)
  next
    case False
    have stop: "gives (on P) (return (ret, doff, cb')) (?Q k)" if "ret < 0" for P ret doff cb'
      using that by (intro gives_on_return) simp
    let ?chunk = "\<lambda>sz. if sz < int j - int k then sz else int j - int k"
    have slow: "gives (on (copying D k)) (do {
          ret \<leftarrow> io_pwrite E dst b (int k);
          if ret \<noteq> 0 then return (-1, int k, Some sz)
          else copy_slow E dst src (int k + int (length b)) (int k + int (length b)) (int j) (Some sz) }) (?Q k)"
      if "0 < sz" "piece D k (?chunk sz) b" "b \<noteq> []" for sz b
    proof -
      have b: "k + length b \<le> j" "b = take (length b) (drop k D)" "0 < length b"
        using that False by (auto simp: piece_def split: if_splits)
      have wrote: "gives (on (copying D k)) (io_pwrite E dst b (int k)) (\<lambda>ret. on (\<lambda>w. ret = 0 \<longrightarrow> copying D (k + length b) w))"
        by (rule io_pwrite_piece) (use reached_write[of D k _ "length b"] b less(2) in auto)
      have rest: "gives (on (copying D (k + length b))) (copy_slow E dst src (int k + int (length b)) (int k + int (length b)) (int j) (Some sz)) (?Q k)"
        using less(1)[of "k + length b" "Some sz"] less(2) b that(1) False by (simp add: max_def diff_less_mono2 split: if_splits)
      show ?thesis
        by (rule gives_bind[OF wrote]) (intro gives_if stop, simp, rule gives_on_weaken[OF rest], simp)
    qed
    have got: "gives (on (\<lambda>w. (\<forall>b. r = Some b \<longrightarrow> piece D k (?chunk sz) b) \<and> copying D k w)) (case r of
              None \<Rightarrow> return (-1, int k, Some sz)
            | Some data \<Rightarrow>
                if data = [] then return (1, int k, Some sz)
                else do {
                  ret \<leftarrow> io_pwrite E dst data (int k);
                  if ret \<noteq> 0 then return (-1, int k, Some sz)
                  else copy_slow E dst src (int k + int (length data)) (int k + int (length data)) (int j) (Some sz) }) (?Q k)"
      if "0 < sz" for r sz
    proof (cases r)
      case (Some b)
      show ?thesis
      proof (cases "b = []")
        case True
        then have "\<not> piece D k (?chunk sz) b" using that False less(2) by (auto simp: piece_def)
        then show ?thesis unfolding Some using True by (simp, intro gives_on_return) simp
      next
        case False
        have "gives (on (\<lambda>w. piece D k (?chunk sz) b \<and> copying D k w)) (do {
          ret \<leftarrow> io_pwrite E dst b (int k);
          if ret \<noteq> 0 then return (-1, int k, Some sz)
          else copy_slow E dst src (int k + int (length b)) (int k + int (length b)) (int j) (Some sz) }) (?Q k)"
          by (intro gives_on_fact slow that False keeps_rules ended.k_io_pwrite ended.k_copy_slow)
        then show ?thesis unfolding Some using False by simp
      qed
    qed (simp, intro stop, simp)
    have buffer: "gives (on (\<lambda>w. (\<forall>z. buf = Some z \<longrightarrow> 0 < z) \<and> copying D k w)) (case buf of
          None \<Rightarrow> return (-1, int k, None)
        | Some sz \<Rightarrow> do {
            let chunk = ?chunk sz;
            got \<leftarrow> sys_bytes E (C_pread src chunk (int k));
            case got of
              None \<Rightarrow> return (-1, int k, buf)
            | Some data \<Rightarrow>
                if data = [] then return (1, int k, buf)
                else do {
                  ret \<leftarrow> io_pwrite E dst data (int k);
                  if ret \<noteq> 0 then return (-1, int k, buf)
                  else copy_slow E dst src (int k + int (length data)) (int k + int (length data)) (int j) buf } }) (?Q k)" for buf
    proof (cases buf)
      case (Some sz)
      have "gives (on (copying D k)) (do {
            got \<leftarrow> sys_bytes E (C_pread src (?chunk sz) (int k));
            case got of
              None \<Rightarrow> return (-1, int k, Some sz)
            | Some data \<Rightarrow>
                if data = [] then return (1, int k, Some sz)
                else do {
                  ret \<leftarrow> io_pwrite E dst data (int k);
                  if ret \<noteq> 0 then return (-1, int k, Some sz)
                  else copy_slow E dst src (int k + int (length data)) (int k + int (length data)) (int j) (Some sz) } }) (?Q k)"
        if "0 < sz" by (rule gives_bind[OF pread_on got[OF that]]) (use that False in auto)
      then have "gives (on (\<lambda>w. 0 < sz \<and> copying D k w)) (do {
            got \<leftarrow> sys_bytes E (C_pread src (?chunk sz) (int k));
            case got of
              None \<Rightarrow> return (-1, int k, Some sz)
            | Some data \<Rightarrow>
                if data = [] then return (1, int k, Some sz)
                else do {
                  ret \<leftarrow> io_pwrite E dst data (int k);
                  if ret \<noteq> 0 then return (-1, int k, Some sz)
                  else copy_slow E dst src (int k + int (length data)) (int k + int (length data)) (int j) (Some sz) } }) (?Q k)"
        by (intro gives_on_fact keeps_rules ended.k_io_pwrite ended.k_copy_slow ended.k_sys_bytes ended_sys)
      then show ?thesis unfolding Some Let_def by simp
    qed (simp, intro stop, simp)
    have "\<not> int j \<le> int k" using False by simp
    then show ?thesis
      unfolding copy_slow.simps[of E dst src "int k"] by (simp only: if_False) (rule gives_bind[OF slow_buffer_on[OF less(3)] buffer])
  qed
qed

subsection \<open>Copying the extents\<close>

text \<open>A condition that also looks at \<^verbatim>\<open>errno\<close>, which holds the error of the call that failed last.\<close>

definition on_errno :: "(errno \<Rightarrow> 'w \<Rightarrow> bool) \<Rightarrow> 'w pst \<Rightarrow> bool" where
  "on_errno P s \<longleftrightarrow> (run_status s = Running \<longrightarrow> P (errno s) (world s))"

lemma gives_int_errno:
  assumes "\<And>w r w' e. P w \<Longrightarrow> kern E c w = (r, w') \<Longrightarrow> (\<And>e'. r = R_fail e' \<Longrightarrow> e = e') \<Longrightarrow> Q (reply_int r) e w'"
  shows "gives (on P) (sys_int E c) (\<lambda>n. on_errno (Q n))"
proof -
  have "gives (on P) (sys E c) (\<lambda>r. on_errno (Q (reply_int r)))"
    using assms by (auto simp: gives_def on_def on_errno_def wp_sys)
  then show ?thesis unfolding sys_int_def by (rule gives_bind) (auto intro: gives_return)
qed

lemma gives_errno: "(\<And>e. gives (on (P e)) (m e) Q) \<Longrightarrow> gives (on_errno P) (do { e \<leftarrow> get_errno; m e }) Q"
  by (auto simp: gives_def on_def on_errno_def get_errno_def)

text \<open>An extent of \<open>D\<close> from \<open>k\<close>, or none: what is skipped is NUL.\<close>

definition extent :: "bytes \<Rightarrow> nat \<Rightarrow> int \<times> int \<times> int \<Rightarrow> bool" where
  "extent D k r \<longleftrightarrow> (case r of (found, a, b) \<Rightarrow>
     if found = 1 then int k \<le> a \<and> a \<le> b \<and> b \<le> int (length D) \<and> nat a < length D \<and> (\<forall>i. k \<le> i \<and> i < nat a \<longrightarrow> byte D i = NUL)
     else found < 0 \<or> found = 0 \<and> (\<forall>i \<ge> k. byte D i = NUL))"

abbreviation bytes_are :: "bytes \<Rightarrow> (bytes \<Rightarrow> bool) \<Rightarrow> 'w \<Rightarrow> bool" where
  "bytes_are D P \<equiv> has D (\<lambda>x _ _. P x)"

lemma seek_data_on:
  "gives (on (bytes_are D P)) (seek_data E src (int k)) (\<lambda>n. on_errno (\<lambda>e w. bytes_are D P w \<and>
     (if n = -1 then e = ENXIO \<longrightarrow> (\<forall>i \<ge> k. byte D i = NUL)
      else int k \<le> n \<and> nat n < length D \<and> (\<forall>i. k \<le> i \<and> i < nat n \<longrightarrow> byte D i = NUL))))"
  unfolding seek_data_def
proof (rule gives_int_errno)
  fix w r w' e
  assume *: "bytes_are D P w" "kern E (C_lseek src (int k) SEEK_DATA) w = (r, w')" "\<And>e'. r = R_fail e' \<Longrightarrow> e = e'"
  have "ok w" "data w src = D" using *(1) by (simp_all add: has_def)
  then show "bytes_are D P w' \<and> (if reply_int r = -1 then e = ENXIO \<longrightarrow> (\<forall>i \<ge> k. byte D i = NUL)
      else int k \<le> reply_int r \<and> nat (reply_int r) < length D \<and> (\<forall>i. k \<le> i \<and> i < nat (reply_int r) \<longrightarrow> byte D i = NUL))"
    using * seek_data[of w "int k" r w'] seek[of w SEEK_DATA "int k" r w'] moving[of w "C_lseek src (int k) SEEK_DATA" r w']
    by (cases r) (auto simp: has_def split: if_splits)
qed

lemma hole_next_data_on:
  "k \<le> length D \<Longrightarrow> gives (on (bytes_are D P)) (hole_next_data E src (int k) (int (length D)))
     (\<lambda>r. on (\<lambda>w. extent D k r \<and> bytes_are D P w))"
proof (cases "k = length D")
  case True
  then show ?thesis by (simp add: hole_next_data_def) (rule gives_on_return, simp add: extent_def)
next
  case False
  assume k: "k \<le> length D"
  let ?Q = "\<lambda>r. on (\<lambda>w. extent D k r \<and> bytes_are D P w)"
  let ?P = "\<lambda>n w. int k \<le> n \<and> nat n < length D \<and> (\<forall>i. k \<le> i \<and> i < nat n \<longrightarrow> byte D i = NUL) \<and> bytes_are D P w"
  have none: "gives (on_errno (\<lambda>e w. bytes_are D P w \<and> (e = ENXIO \<longrightarrow> (\<forall>i \<ge> k. byte D i = NUL)))) (do {
          e \<leftarrow> get_errno;
          return (if e = ENXIO then (0, 0, 0)
                  else if e \<noteq> EINVAL \<and> e \<noteq> ENOTSUP then (-1, 0, 0)
                  else (1, int k, int (length D))) }) ?Q"
    using k False by (intro gives_errno gives_on_return) (auto simp: extent_def)
  have gap: "gives (on (?P n)) (sys_int E (C_lseek src n SEEK_HOLE))
      (\<lambda>gap. on (\<lambda>w. (gap \<noteq> -1 \<longrightarrow> n \<le> gap) \<and> ?P n w))" for n
  proof (rule gives_on_int)
    fix w r w'
    assume *: "?P n w" "kern E (C_lseek src n SEEK_HOLE) w = (r, w')"
    have "ok w" "0 \<le> n" using *(1) by (auto simp: has_def)
    then show "(reply_int r \<noteq> -1 \<longrightarrow> n \<le> reply_int r) \<and> ?P n w'"
      using * seek_hole[of w n r w'] seek[of w SEEK_HOLE n r w'] moving[of w "C_lseek src n SEEK_HOLE" r w']
      by (auto simp: has_def)
  qed
  have found: "gives (on (?P n)) (do {
          gap \<leftarrow> sys_int E (C_lseek src n SEEK_HOLE);
          let gap = (if gap = -1 then int (length D) else gap);
          return (1, n, if int (length D) < gap then int (length D) else gap) }) ?Q" for n
    unfolding Let_def by (rule gives_bind[OF gap], rule gives_on_return) (auto simp: extent_def split: if_splits)
  have rest: "gives (on_errno (\<lambda>e w. bytes_are D P w \<and>
     (if n = -1 then e = ENXIO \<longrightarrow> (\<forall>i \<ge> k. byte D i = NUL)
      else int k \<le> n \<and> nat n < length D \<and> (\<forall>i. k \<le> i \<and> i < nat n \<longrightarrow> byte D i = NUL))))
     (if n = -1 then do {
          e \<leftarrow> get_errno;
          return (if e = ENXIO then (0, 0, 0)
                  else if e \<noteq> EINVAL \<and> e \<noteq> ENOTSUP then (-1, 0, 0)
                  else (1, int k, int (length D))) }
      else do {
          gap \<leftarrow> sys_int E (C_lseek src n SEEK_HOLE);
          let gap = (if gap = -1 then int (length D) else gap);
          return (1, n, if int (length D) < gap then int (length D) else gap) }) ?Q" for n
  proof (cases "n = -1")
    case True
    then show ?thesis using none by simp
  next
    case False
    then show ?thesis by simp (rule gives_weaken[OF found], simp add: on_def on_errno_def)
  qed
  have "\<not> int (length D) \<le> int k" using k False by simp
  then show ?thesis
    unfolding hole_next_data_def by (simp only: if_False) (rule gives_bind[OF seek_data_on rest])
qed

text \<open>One extent, from \<open>a\<close> to \<open>b\<close>, by the fast paths and then by reads and writes.\<close>

definition extent_copied :: "bytes \<Rightarrow> int \<Rightarrow> int \<times> int \<times> int option \<Rightarrow> 'w \<Rightarrow> bool" where
  "extent_copied D b r w \<longleftrightarrow> 0 \<le> fst r \<longrightarrow> fst r = 0 \<and> fst (snd r) = b \<and> (\<forall>z. snd (snd r) = Some z \<longrightarrow> 0 < z) \<and> copying D (nat b) w"

lemma copy_rest_on:
  assumes "b \<le> length D" "\<And>z. cb = Some z \<Longrightarrow> 0 < z"
  shows "gives (on (copied D a b (ret, doff, soff)))
     (if 0 \<le> ret then copy_slow E dst src soff doff (int b) cb else return (ret, doff, cb)) (\<lambda>r. on (extent_copied D (int b) r))"
proof (rule gives_if)
  have slow: "gives (on (copying D k)) (copy_slow E dst src (int k) (int k) (int b) cb) (\<lambda>r. on (extent_copied D (int b) r))"
    if "k \<le> b" for k
    using gives_on_mono[OF copy_slow_on[OF assms, where k = k]] that by (auto simp: extent_copied_def max_def)
  assume "0 \<le> ret"
  have "gives (on (\<lambda>w. (doff = soff \<and> int a \<le> soff \<and> soff \<le> int b) \<and> copying D (nat soff) w))
      (copy_slow E dst src soff doff (int b) cb) (\<lambda>r. on (extent_copied D (int b) r))"
    using slow[of "nat soff"] by (intro gives_on_fact ended.k_copy_slow) auto
  then show "gives (on (copied D a b (ret, doff, soff))) (copy_slow E dst src soff doff (int b) cb) (\<lambda>r. on (extent_copied D (int b) r))"
    by (rule gives_on_weaken) (use \<open>0 \<le> ret\<close> in \<open>simp add: copied_def\<close>)
qed (rule gives_on_return, simp add: extent_copied_def)

text \<open>How the loop over the extents ends: every byte is there, and only the size may be missing.\<close>

definition extents_done :: "bytes \<Rightarrow> int + int \<times> int \<times> bool \<Rightarrow> 'w \<Rightarrow> bool" where
  "extents_done D r w \<longleftrightarrow> (case r of
     Inl ret \<Rightarrow> ret \<noteq> 0
   | Inr (found, written, overstated) \<Rightarrow> 0 \<le> found \<longrightarrow> \<not> overstated \<and>
       bytes_are D (\<lambda>x. agrees D (length D) x \<and> (written < int (length D) \<or> x = D)) w)"

lemma reached_end:
  assumes "reached D k x" "k \<le> length D" "\<forall>i \<ge> k. byte D i = NUL"
  shows "agrees D (length D) x" "k < length D \<or> x = D"
proof -
  show all: "agrees D (length D) x" using assms by (auto simp: reached_def elim!: agrees_skip)
  show "k < length D \<or> x = D" using agrees_full[OF all] assms(1) by (auto simp: reached_def)
qed

lemma extents_loop_on:
  "k \<le> length D \<Longrightarrow> (\<And>z. cb = Some z \<Longrightarrow> 0 < z) \<Longrightarrow>
   gives (on (copying D k)) (extents_loop E n dst src (int (length D)) (int k) (int k) cb) (\<lambda>r. on (extents_done D r))"
proof (induction n arbitrary: k cb)
  case 0
  show ?case by (simp, rule gives_skip, rule gives_return) (simp add: on_def extents_done_def)
next
  case (Suc n)
  let ?Q = "\<lambda>r. on (extents_done D r)"
  have none: "gives (on (copying D k)) (return (Inr (found, int k, False))) ?Q" if "extent D k (found, a, b)" "found \<noteq> 1" for found a b
    using that reached_end[of D k] Suc(2) by (intro gives_on_return) (auto simp: extent_def extents_done_def has_def)
  have after: "gives (on (extent_copied D (int b) (ret, doff, cb'))) (if ret < 0 then return (Inl (-1))
      else if ret = 1 then return (Inr (1, doff, True))
      else extents_loop E n dst src (int (length D)) (int b) doff cb') ?Q" if "b \<le> length D" for b ret doff cb'
  proof (cases "0 \<le> ret")
    case True
    have "gives (on (\<lambda>w. (ret = 0 \<and> doff = int b \<and> (\<forall>z. cb' = Some z \<longrightarrow> 0 < z)) \<and> copying D b w)) (if ret < 0 then return (Inl (-1))
      else if ret = 1 then return (Inr (1, doff, True))
      else extents_loop E n dst src (int (length D)) (int b) doff cb') ?Q"
      by (intro gives_on_fact keeps_rules ended.k_extents_loop; simp add: Suc(1) that)
    then show ?thesis by (rule gives_on_weaken) (use True in \<open>simp add: extent_copied_def\<close>)
  qed (simp, rule gives_on_return, simp add: extents_done_def)
  have some: "gives (on (copying D k)) (do {
         c \<leftarrow> fast_copy E dst (int a) src (int a) (int b - int a);
         case c of (ret, dst_off, src_off) \<Rightarrow> do {
           d \<leftarrow> (if 0 \<le> ret then copy_slow E dst src src_off dst_off (int b) cb
                 else return (ret, dst_off, cb));
           case d of (ret, dst_off, cb) \<Rightarrow>
             if ret < 0 then return (Inl (-1))
             else if ret = 1 then return (Inr (1, dst_off, True))
             else extents_loop E n dst src (int (length D)) (int b) dst_off cb } }) ?Q"
    if "extent D k (1, int a, int b)" for a b
  proof -
    have ab: "k \<le> a" "a \<le> b" "b \<le> length D" "a < length D" "\<forall>i. k \<le> i \<and> i < a \<longrightarrow> byte D i = NUL"
      using that by (auto simp: extent_def)
    have copy: "gives (on (copying D k)) (fast_copy E dst (int a) src (int a) (int b - int a)) (\<lambda>c. on (copied D a b c))"
      by (rule gives_on_weaken[OF fast_copy_on])
        (use ab in \<open>auto simp: has_def reached_def elim!: agrees_skip\<close>)
    show ?thesis
      by (rule gives_bind[OF copy], rule gives_case_prod, rule gives_case_prod, simp only:,
          rule gives_bind[OF copy_rest_on[OF ab(3) Suc(3)]], assumption, rule gives_case_prod, rule gives_case_prod,
          simp only:, rule after[OF ab(3)])
  qed
  show ?case
    unfolding extents_loop.simps
  proof (rule gives_bind[OF hole_next_data_on[OF Suc(2)]], rule gives_case_prod, rule gives_case_prod, simp only:)
    fix found a b
    show "gives (on (\<lambda>w. extent D k (found, a, b) \<and> copying D k w)) (if found \<noteq> 1 then return (Inr (found, int k, False))
       else do {
         c \<leftarrow> fast_copy E dst a src a (b - a);
         case c of (ret, dst_off, src_off) \<Rightarrow> do {
           d \<leftarrow> (if 0 \<le> ret then copy_slow E dst src src_off dst_off b cb
                 else return (ret, dst_off, cb));
           case d of (ret, dst_off, cb) \<Rightarrow>
             if ret < 0 then return (Inl (-1))
             else if ret = 1 then return (Inr (found, dst_off, True))
             else extents_loop E n dst src (int (length D)) b dst_off cb } }) ?Q" (is "gives _ ?m _")
    proof (rule gives_on_fact)
      assume x: "extent D k (found, a, b)"
      show "gives (on (copying D k)) ?m ?Q"
      proof (cases "found = 1")
        case True
        then have "0 \<le> a" "0 \<le> b" using x by (auto simp: extent_def)
        then obtain a' b' where ab: "a = int a'" "b = int b'" by (metis nonneg_int_cases)
        show ?thesis using some[of a' b'] x unfolding ab True by simp
      qed (use none[OF x] in simp)
    qed (intro keeps_rules ended.k_extents_loop ended.k_fast_copy ended.k_copy_slow)
  qed
qed

lemma truncate_on:
  "gives (on (bytes_are D P)) (do { trunc \<leftarrow> sys_ok E (C_ftruncate dst (int n)); return (if trunc then 0 else -1) })
     (\<lambda>ret. on (\<lambda>w. ret = (0 :: int) \<longrightarrow> bytes_are D (\<lambda>x. \<exists>y. P y \<and> x = resize n y) w))"
proof (rule gives_bind[OF gives_on_ok[where Q = "\<lambda>b w. b \<longrightarrow> bytes_are D (\<lambda>x. \<exists>y. P y \<and> x = resize n y) w"]])
  fix w r w'
  assume "bytes_are D P w" "kern E (C_ftruncate dst (int n)) w = (r, w')"
  then show "\<not> failed r \<longrightarrow> bytes_are D (\<lambda>x. \<exists>y. P y \<and> x = resize n y) w'"
    using moving[of w "C_ftruncate dst (int n)" r w'] truncate[of w "int n" r w'] by (auto simp: has_def)
qed (auto intro!: gives_on_return)

lemma copy_extents_on:
  "gives (on (holds D [])) (copy_extents E dst src (int (length D))) (\<lambda>ret. on (\<lambda>w. ret = 0 \<longrightarrow> holds D D w))"
  unfolding copy_extents_def
proof (rule gives_bind)
  show "gives (on (holds D [])) (extents_loop E (fuel E) dst src (int (length D)) 0 0 None) (\<lambda>r. on (extents_done D r))"
    using extents_loop_on[of 0 D None "fuel E"]
    by (auto intro!: gives_on_weaken[OF extents_loop_on[of 0 D None "fuel E", simplified]] simp: has_def reached_def agrees_0)
next
  fix r
  show "gives (on (extents_done D r)) (case r of
       Inl ret \<Rightarrow> return ret
     | Inr (found, written, overstated) \<Rightarrow>
         if found < 0 then return (-1)
         else if written < int (length D) \<and> \<not> overstated then do {
           trunc \<leftarrow> sys_ok E (C_ftruncate dst (int (length D)));
           return (if trunc then 0 else -1) }
         else return 0) (\<lambda>ret. on (\<lambda>w. ret = 0 \<longrightarrow> holds D D w))"
  proof (cases r)
    case (Inr q)
    obtain found written over where q: "q = (found, written, over)" by (cases q) auto
    have trunc: "gives (on (bytes_are D (agrees D (length D)))) (do {
           trunc \<leftarrow> sys_ok E (C_ftruncate dst (int (length D)));
           return (if trunc then 0 else -1) }) (\<lambda>ret. on (\<lambda>w. ret = (0 :: int) \<longrightarrow> holds D D w))"
      by (rule gives_on_mono[OF truncate_on]) (auto simp: has_def agrees_all)
    show ?thesis
      unfolding Inr q
      by (simp only: sum.case prod.case, intro gives_if gives_on_return gives_on_weaken[OF trunc])
        (auto simp: extents_done_def has_def)
  qed (simp, rule gives_on_return, simp add: extents_done_def)
qed

subsection \<open>Copying the blocks that are not zero\<close>

lemma all_zero_NUL: "all_zero b \<Longrightarrow> i < length b \<Longrightarrow> b ! i = NUL"
  using all_zero_iff[of b] by (cases "b = []") (auto simp: all_zero_def, metis nth_replicate)

lemma agrees_longer: "agrees D k d \<Longrightarrow> b = take (length b) (drop k D) \<Longrightarrow> agrees D (k + length b) (write_at k b d)"
proof (cases "b = []")
  case False
  assume *: "agrees D k d" "b = take (length b) (drop k D)"
  have "length b \<le> length D - k" using arg_cong[OF *(2), of length] by simp
  then show ?thesis using False by (intro agrees_write[OF *]) (cases "k \<le> length D"; simp)
qed simp

lemma zero_blocks_on:
  "b = take (length b) (drop k D) \<Longrightarrow> 0 < blksize \<Longrightarrow> gives (on (bytes_are D (agrees D k))) (zero_blocks E dst blksize (int k) b)
     (\<lambda>ret. on (\<lambda>w. ret = 0 \<longrightarrow> bytes_are D (agrees D (k + length b)) w))"
proof (induction "length b" arbitrary: b k rule: less_induct)
  case less
  let ?Q = "\<lambda>ret. on (\<lambda>w. ret = 0 \<longrightarrow> bytes_are D (agrees D (k + length b)) w)"
  show ?case
  proof (cases "b = []")
    case True
    then show ?thesis by (simp add: zero_blocks.simps) (rule gives_on_return, simp)
  next
    case False
    let ?blk = "take (nat blksize) b" and ?tl = "drop (nat blksize) b"
    have blk: "?blk = take (length ?blk) (drop k D)"
      using arg_cong[OF less(2), of "take (nat blksize)"] by (simp add: min_def)
    have "length b \<le> length D - k" using arg_cong[OF less(2), of length] by simp
    then have tl: "?tl = take (length ?tl) (drop (k + length ?blk) D)"
      using arg_cong[OF less(2), of "drop (nat blksize)"] by (cases "nat blksize \<le> length b") (simp_all add: drop_take add.commute min_def)
    have skip: "agrees D (k + length ?blk) d" if z: "all_zero ?blk" and d: "agrees D k d" for d
    proof (rule agrees_skip[OF d])
      fix i
      assume i: "k \<le> i" "i < k + length ?blk"
      then have "?blk ! (i - k) = NUL" by (intro all_zero_NUL[OF z]) (auto simp: less_diff_conv2)
      then show "byte D i = NUL" using piece_nth[OF blk i] by simp
    qed simp
    have one: "gives (on (bytes_are D (agrees D k))) (if all_zero ?blk then return 0 else io_pwrite E dst ?blk (int k))
        (\<lambda>ret. on (\<lambda>w. ret = 0 \<longrightarrow> bytes_are D (agrees D (k + length ?blk)) w))"
      by (intro gives_if gives_on_return io_pwrite_piece) (use skip agrees_longer[OF _ blk] in \<open>auto simp: has_def\<close>)
    have rest: "gives (on (\<lambda>w. ret = 0 \<longrightarrow> bytes_are D (agrees D (k + length ?blk)) w)) (if ret \<noteq> 0 then return (-1)
        else zero_blocks E dst blksize (int k + int (length ?blk)) ?tl) ?Q" for ret :: int
    proof (rule gives_if)
      have "length ?blk + length ?tl = length b" by (metis append_take_drop_id length_append)
      then show "gives (on (\<lambda>w. ret = 0 \<longrightarrow> bytes_are D (agrees D (k + length ?blk)) w))
          (zero_blocks E dst blksize (int k + int (length ?blk)) ?tl) ?Q" if "\<not> ret \<noteq> 0"
        using less(1)[OF _ tl less(3)] False less(3) that by (simp add: add.assoc of_nat_add[symmetric] del: of_nat_add)
    qed (rule gives_on_return, simp)
    have "\<not> (b = [] \<or> blksize \<le> 0)" using False less(3) by simp
    then show ?thesis
      unfolding zero_blocks.simps[of E dst blksize "int k" b] Let_def by (simp only: if_False) (rule gives_bind[OF one rest])
  qed
qed

lemma zeros_loop_on:
  "0 < bufsize \<Longrightarrow> 0 < blksize \<Longrightarrow> k \<le> length D \<Longrightarrow>
   gives (on (bytes_are D (agrees D k))) (zeros_loop E dst src bufsize blksize (int (length D)) (int k))
     (\<lambda>r. on (\<lambda>w. \<forall>off. r = Some off \<longrightarrow> off = int (length D) \<and> bytes_are D (agrees D (length D)) w))"
proof (induction "length D - k" arbitrary: k rule: less_induct)
  case less
  let ?Q = "\<lambda>r. on (\<lambda>w. \<forall>off. r = Some off \<longrightarrow> off = int (length D) \<and> bytes_are D (agrees D (length D)) w)"
  show ?case
  proof (cases "k = length D")
    case True
    then show ?thesis by (simp add: zeros_loop.simps) (rule gives_on_return, simp)
  next
    case False
    let ?chunk = "if bufsize < int (length D) - int k then bufsize else int (length D) - int k"
    have chunk: "0 < ?chunk" using less(2,4) False by auto
    have blocks: "gives (on (bytes_are D (agrees D k))) (do {
              ret \<leftarrow> zero_blocks E dst blksize (int k) b;
              if ret \<noteq> 0 then return None
              else zeros_loop E dst src bufsize blksize (int (length D)) (int k + int (length b)) }) ?Q"
      if "piece D k ?chunk b" "b \<noteq> []" for b
    proof (rule gives_bind[OF zero_blocks_on[OF _ less(3)]])
      show b: "b = take (length b) (drop k D)" using that by (simp add: piece_def)
      have "length b \<le> length D - k" using arg_cong[OF b, of length] by simp
      then have "length D - (k + length b) < length D - k" "k + length b \<le> length D"
        using that(2) less(4) False by (cases b; simp)+
      then have loop: "gives (on (bytes_are D (agrees D (k + length b)))) (zeros_loop E dst src bufsize blksize (int (length D)) (int k + int (length b))) ?Q"
        using less(1)[of "k + length b"] less(2,3) by simp
      show "gives (on (\<lambda>w. ret = 0 \<longrightarrow> bytes_are D (agrees D (k + length b)) w)) (if ret \<noteq> 0 then return None
            else zeros_loop E dst src bufsize blksize (int (length D)) (int k + int (length b))) ?Q" for ret :: int
        by (intro gives_if gives_on_return gives_on_weaken[OF loop]) auto
    qed
    have got: "gives (on (\<lambda>w. (\<forall>b. r = Some b \<longrightarrow> piece D k ?chunk b) \<and> bytes_are D (agrees D k) w)) (case r of
          None \<Rightarrow> return None
        | Some data \<Rightarrow>
            if data = [] then return (Some (int k))
            else do {
              ret \<leftarrow> zero_blocks E dst blksize (int k) data;
              if ret \<noteq> 0 then return None
              else zeros_loop E dst src bufsize blksize (int (length D)) (int k + int (length data)) }) ?Q" for r
    proof (rule gives_on_fact)
      assume p: "\<forall>b. r = Some b \<longrightarrow> piece D k ?chunk b"
      have "b \<noteq> []" if "r = Some b" for b using p that chunk less(4) False by (auto simp: piece_def)
      then show "gives (on (bytes_are D (agrees D k))) (case r of
          None \<Rightarrow> return None
        | Some data \<Rightarrow>
            if data = [] then return (Some (int k))
            else do {
              ret \<leftarrow> zero_blocks E dst blksize (int k) data;
              if ret \<noteq> 0 then return None
              else zeros_loop E dst src bufsize blksize (int (length D)) (int k + int (length data)) }) ?Q"
        using blocks p by (cases r) (simp_all, rule gives_on_return, simp)
    qed (intro keeps_rules ended.k_zero_blocks ended.k_zeros_loop)
    have "\<not> int (length D) \<le> int k" using less(4) False by simp
    then show ?thesis
      unfolding zeros_loop.simps[of E dst src bufsize blksize "int (length D)" "int k"] Let_def
      by (simp only: if_False) (rule gives_bind[OF pread_on[OF less_imp_le[OF chunk]] got])
  qed
qed

lemma copy_zeros_on:
  "gives (on (holds D [])) (copy_zeros E dst src (int (length D))) (\<lambda>ret. on (\<lambda>w. ret = 0 \<longrightarrow> holds D D w))"
proof -
  let ?P = "bytes_are D (agrees D 0)" and ?Q = "\<lambda>ret. on (\<lambda>w. ret = (0 :: int) \<longrightarrow> holds D D w)"
  have start: "gives (on (holds D [])) (io_bufsize E src) (\<lambda>sz s. 0 < sz \<and> on ?P s)"
    by (intro gives_conj io_bufsize_pos gives_weaken[OF gives_keeps[OF steady_bufsize]]) (auto simp: on_def has_def agrees_0)
  have cut: "gives (on (\<lambda>w. \<forall>off. r = Some off \<longrightarrow> off = int (length D) \<and> bytes_are D (agrees D (length D)) w)) (case r of
         None \<Rightarrow> return (-1)
       | Some off \<Rightarrow> do {
           trunc \<leftarrow> sys_ok E (C_ftruncate dst off);
           return (if trunc then 0 else -1) }) ?Q" for r
  proof (cases r)
    case (Some off)
    have "gives (on (\<lambda>w. off = int (length D) \<and> bytes_are D (agrees D (length D)) w)) (do {
           trunc \<leftarrow> sys_ok E (C_ftruncate dst off);
           return (if trunc then 0 else -1) }) ?Q"
    proof (rule gives_on_fact)
      assume off: "off = int (length D)"
      show "gives (on (bytes_are D (agrees D (length D)))) (do {
           trunc \<leftarrow> sys_ok E (C_ftruncate dst off);
           return (if trunc then 0 else -1) }) ?Q"
        unfolding off by (rule gives_on_mono[OF truncate_on]) (auto simp: has_def agrees_all)
    qed (intro keeps_rules ended.k_sys_ok ended_sys)
    then show ?thesis by (simp add: Some)
  qed (simp, rule gives_on_return, simp)
  have loop: "gives (on ?P) (do {
       r \<leftarrow> zeros_loop E dst src bufsize blksize (int (length D)) 0;
       case r of
         None \<Rightarrow> return (-1)
       | Some off \<Rightarrow> do {
           trunc \<leftarrow> sys_ok E (C_ftruncate dst off);
           return (if trunc then 0 else -1) } }) ?Q" if "0 < bufsize" "0 < blksize" for bufsize blksize
    using gives_bind[OF zeros_loop_on[OF that, of 0 D] cut] by simp
  have rest: "gives (\<lambda>s. 0 < bufsize \<and> on ?P s) (do {
     st \<leftarrow> sys_stat E (C_fstat dst);
     got \<leftarrow> io_bufalloc E bufsize;
     if \<not> got then return (-1)
     else do {
       r \<leftarrow> zeros_loop E dst src bufsize (case st of
           None \<Rightarrow> ZERO_BLOCK
         | Some st \<Rightarrow> if 0 < st_blksize st \<and> st_blksize st \<le> bufsize then st_blksize st else ZERO_BLOCK) (int (length D)) 0;
       case r of
         None \<Rightarrow> return (-1)
       | Some off \<Rightarrow> do {
           trunc \<leftarrow> sys_ok E (C_ftruncate dst off);
           return (if trunc then 0 else -1) } } }) ?Q" for bufsize
  proof (rule gives_fact, rule gives_keep[OF steady_stat], rule gives_keep[OF steady_bufalloc], rule gives_if)
    show "gives (on ?P) (return (-1)) ?Q" by (rule gives_on_return) simp
  qed (rule loop, simp_all add: ZERO_BLOCK_def split: option.split)
  show ?thesis
    unfolding copy_zeros_def Let_def by (rule gives_bind[OF start rest])
qed

subsection \<open>Copying a stream\<close>

text \<open>The template has been read from \<open>p\<close> up to \<open>k\<close>, and the new file holds what was read.\<close>

abbreviation streamed :: "bytes \<Rightarrow> nat \<Rightarrow> nat \<Rightarrow> 'w \<Rightarrow> bool" where
  "streamed D p k \<equiv> has D (at_end (take (k - p) (drop p D)) k)"

lemma read_on:
  "gives (on (has D (at_end d k))) (sys_bytes E (C_read src n))
     (\<lambda>r. on (\<lambda>w. \<forall>b. r = Some b \<longrightarrow> b = take (length b) (drop k D) \<and> (b = [] \<longrightarrow> n \<le> 0 \<or> length D \<le> k) \<and>
        has D (at_end d (k + length b)) w))"
proof (rule gives_on_bytes)
  fix w r w'
  assume *: "has D (at_end d k) w" "kern E (C_read src n) w = (r, w')"
  then show "\<forall>b. reply_bytes r = Some b \<longrightarrow> b = take (length b) (drop k D) \<and> (b = [] \<longrightarrow> n \<le> 0 \<or> length D \<le> k) \<and>
        has D (at_end d (k + length b)) w'"
    using read_next[of w n r w'] moving[of w "C_read src n" r w'] by (auto simp: has_def at_end_def)
qed

lemma stream_loop_on:
  "0 < bufsize \<Longrightarrow> p \<le> k \<Longrightarrow>
   gives (on (streamed D p k)) (stream_loop E n dst src bufsize) (\<lambda>ret. on (\<lambda>w. ret = 0 \<longrightarrow> holds D (drop p D) w))"
proof (induction n arbitrary: k)
  case 0
  show ?case by (simp, rule gives_skip, rule gives_return) (simp add: on_def)
next
  case (Suc n)
  let ?Q = "\<lambda>ret. on (\<lambda>w. ret = 0 \<longrightarrow> holds D (drop p D) w)" and ?d = "take (k - p) (drop p D)"
  have loop: "gives (on (has D (at_end (?d @ b) (k + length b)))) (stream_loop E n dst src bufsize) ?Q"
    if "b = take (length b) (drop k D)" for b
  proof -
    have "?d @ b = take (k + length b - p) (drop p D)"
      using that Suc(3) take_add[of "k - p" "length b" "drop p D"] by (simp add: add.commute)
    then show ?thesis using Suc(1)[of "k + length b"] Suc(2,3) by simp
  qed
  have next_b: "gives (on (\<lambda>w. (b = take (length b) (drop k D) \<and> (b = [] \<longrightarrow> length D \<le> k)) \<and> has D (at_end ?d (k + length b)) w))
     (if b = [] then return 0
      else do {
        ret \<leftarrow> io_write E dst b;
        if ret \<noteq> 0 then return (-1) else stream_loop E n dst src bufsize }) ?Q" for b
  proof (rule gives_on_fact)
    assume b: "b = take (length b) (drop k D) \<and> (b = [] \<longrightarrow> length D \<le> k)"
    have rest: "gives (on (\<lambda>w. ret = 0 \<longrightarrow> has D (at_end (?d @ b) (k + length b)) w))
        (if ret \<noteq> 0 then return (-1) else stream_loop E n dst src bufsize) ?Q" for ret :: int
      by (intro gives_if gives_on_return gives_on_weaken[OF loop]) (use b in auto)
    show "gives (on (has D (at_end ?d (k + length b)))) (if b = [] then return 0
      else do {
        ret \<leftarrow> io_write E dst b;
        if ret \<noteq> 0 then return (-1) else stream_loop E n dst src bufsize }) ?Q"
    proof (rule gives_if[OF gives_on_return gives_bind[OF io_write_on rest]])
      show "0 = 0 \<longrightarrow> holds D (drop p D) w" if "b = []" "has D (at_end ?d (k + length b)) w" for w
        using b that Suc(3) by (auto simp: has_def at_end_def)
    qed
  qed (intro keeps_rules ended.k_io_write ended.k_stream_loop)
  have got: "gives (on (\<lambda>w. \<forall>b. r = Some b \<longrightarrow> b = take (length b) (drop k D) \<and> (b = [] \<longrightarrow> bufsize \<le> 0 \<or> length D \<le> k) \<and>
        has D (at_end ?d (k + length b)) w)) (case r of
       None \<Rightarrow> return (-1)
     | Some data \<Rightarrow>
         if data = [] then return 0
         else do {
           ret \<leftarrow> io_write E dst data;
           if ret \<noteq> 0 then return (-1) else stream_loop E n dst src bufsize }) ?Q" for r
  proof (cases r)
    case (Some b)
    show ?thesis
      using gives_on_weaken[OF next_b[of b]] Suc(2) by (simp add: Some)
  qed (simp, rule gives_on_return, simp)
  show ?case unfolding stream_loop.simps by (rule gives_bind[OF read_on got])
qed

lemma copy_stream_on:
  "gives (on (has D (at_end [] p))) (copy_stream E dst src) (\<lambda>ret. on (\<lambda>w. ret = 0 \<longrightarrow> holds D (drop p D) w))"
proof -
  let ?Q = "\<lambda>ret. on (\<lambda>w. ret = (0 :: int) \<longrightarrow> holds D (drop p D) w)"
  have start: "gives (on (has D (at_end [] p))) (io_bufsize E dst) (\<lambda>sz s. 0 < sz \<and> on (has D (at_end [] p)) s)"
    by (intro gives_conj io_bufsize_pos gives_keeps steady_bufsize)
  have rest: "gives (\<lambda>s. 0 < bufsize \<and> on (has D (at_end [] p)) s) (do {
     got \<leftarrow> io_bufalloc E bufsize;
     if \<not> got then return (-1) else stream_loop E (fuel E) dst src bufsize }) ?Q" for bufsize
  proof (rule gives_fact, rule gives_keep[OF steady_bufalloc], rule gives_if)
    show "gives (on (has D (at_end [] p))) (stream_loop E (fuel E) dst src bufsize) ?Q" if "0 < bufsize"
      using stream_loop_on[OF that, of p p D "fuel E"] by simp
  qed (rule gives_on_return, simp)
  show ?thesis unfolding copy_stream_def by (rule gives_bind[OF start rest])
qed

subsection \<open>Filling a file\<close>

lemma tmpl_apply_on:
  assumes "tm_fd t = src" "tm_kind t \<noteq> TMPL_STREAM \<Longrightarrow> tm_size t = int (length D)"
  shows "gives (on (has D (at_end [] p))) (tmpl_apply E t dst) (\<lambda>ret. on (\<lambda>w. ret = 0 \<longrightarrow> holds D (gives_bytes t D p) w))"
proof -
  have *: "gives (on (has D (at_end [] p))) m Q" if "gives (on (holds D [])) m Q" for m :: "('w, int) prog" and Q
    by (rule gives_on_weaken[OF that]) (simp add: has_def at_end_def)
  show ?thesis
    unfolding tmpl_apply_def gives_bytes_def
    by (cases "tm_kind t") (simp_all add: assms * copy_extents_on copy_zeros_on copy_stream_on)
qed

lemma fill_one_on:
  assumes "\<And>t. fs_tmpl spec = Some t \<Longrightarrow> tm_fd t = src \<and> (tm_kind t \<noteq> TMPL_STREAM \<longrightarrow> tm_size t = int (length D))"
    and "size_given spec \<Longrightarrow> 0 \<le> fs_size spec"
  shows "gives (on (has D (at_end [] p))) (fill_one E dst spec) (\<lambda>ret. on (\<lambda>w. ret = 0 \<longrightarrow> holds D (file_bytes spec D p) w))"
proof -
  define b where "b = (case fs_tmpl spec of None \<Rightarrow> [] | Some t \<Rightarrow> gives_bytes t D p)"
  let ?Q = "\<lambda>ret. on (\<lambda>w. ret = (0 :: int) \<longrightarrow> holds D (file_bytes spec D p) w)"
  have copy: "gives (on (has D (at_end [] p))) (case fs_tmpl spec of None \<Rightarrow> return 0 | Some t \<Rightarrow> tmpl_apply E t dst)
      (\<lambda>ret. on (\<lambda>w. ret = 0 \<longrightarrow> holds D b w))"
  proof (cases "fs_tmpl spec")
    case None
    then show ?thesis by (simp add: b_def) (rule gives_on_return, simp add: has_def at_end_def)
  next
    case (Some t)
    then show ?thesis using tmpl_apply_on[of t D p] assms(1)[OF Some] by (simp add: b_def)
  qed
  have sized: "gives (on (holds D b)) (if size_given spec
         then apply_size E dst (fs_size spec) (sparse_mode spec) (tmpl_tail_hole (fs_tmpl spec)) (fs_tmpl spec \<noteq> None)
         else return 0) ?Q"
  proof (rule gives_if)
    assume g: "size_given spec"
    show "gives (on (holds D b)) (apply_size E dst (fs_size spec) (sparse_mode spec) (tmpl_tail_hole (fs_tmpl spec)) (fs_tmpl spec \<noteq> None)) ?Q"
      by (rule gives_on_mono[OF apply_size_on]) (use g assms(2) in \<open>auto simp: file_bytes_def b_def split: option.splits\<close>)
  qed (rule gives_on_return, simp add: file_bytes_def b_def)
  show ?thesis
    unfolding fill_one_def
    by (rule gives_bind[OF copy], rule gives_if, rule gives_on_return, simp,
        rule gives_bind[OF gives_on_weaken[OF sized]], simp, rule gives_on_return) (auto split: if_splits)
qed

lemma fill_one_done:
  assumes "ok (world s)" "data (world s) dst = [] \<and> pos (world s) dst = 0"
    and "\<And>t. fs_tmpl spec = Some t \<Longrightarrow> tm_fd t = src \<and> (tm_kind t \<noteq> TMPL_STREAM \<longrightarrow> tm_size t = int (length (data (world s) src)))"
    and "size_given spec \<Longrightarrow> 0 \<le> fs_size spec"
    and "run_state (fill_one E dst spec) s = (0, s')" "run_status s' = Running"
  shows "data (world s') dst = file_bytes spec (data (world s) src) (pos (world s) src) \<and>
    data (world s') src = data (world s) src"
proof -
  let ?D = "data (world s) src"
  have "on (has ?D (at_end [] (pos (world s) src))) s"
    using assms(1,2) by (simp add: on_def has_def at_end_def)
  then have "wp (fill_one E dst spec) (\<lambda>ret. on (\<lambda>w. ret = 0 \<longrightarrow> holds ?D (file_bytes spec ?D (pos (world s) src)) w)) s"
    using fill_one_on[where D = ?D, OF assms(3,4)] unfolding gives_def by blast
  from wp_run[OF this assms(5)] show ?thesis using assms(6) by (simp add: on_def has_def)
qed

end

subsection \<open>The small system keeps the laws\<close>

definition sim_bytes :: "fs \<Rightarrow> fd \<Rightarrow> bytes" where
  "sim_bytes w f = (case map_of (fs_fds w) f of None \<Rightarrow> [] | Some i \<Rightarrow> in_data (inode_of w i))"

text \<open>Both descriptors are open, for different files.\<close>

definition sim_two :: "fd \<Rightarrow> fd \<Rightarrow> fs \<Rightarrow> bool" where
  "sim_two d s w \<longleftrightarrow> d < 1000 \<and> (case (map_of (fs_fds w) d, map_of (fs_fds w) s) of
     (Some i, Some j) \<Rightarrow> i \<noteq> j | _ \<Rightarrow> False)"

lemma sim_twoE: "sim_two d s w \<Longrightarrow> (\<And>i j. map_of (fs_fds w) d = Some i \<Longrightarrow> map_of (fs_fds w) s = Some j \<Longrightarrow> i \<noteq> j \<Longrightarrow> d < 1000 \<Longrightarrow> P) \<Longrightarrow> P"
  by (auto simp: sim_two_def split: option.splits)

lemma sim_two_not: "sim_two d s w \<Longrightarrow> d \<noteq> s"
  by (auto elim: sim_twoE)

lemma map_of_other: "map_of (filter (\<lambda>y. fst y \<noteq> i) xs) j = (if j = i then None else map_of xs j)"
  by (induction xs) auto

lemma inode_of_set: "inode_of (set_inode i x w) j = (if j = i then x else inode_of w j)"
  by (auto simp: inode_of_def set_inode_def map_of_other)

lemma pos_of_set: "pos_of (set_pos f k w) g = (if g = f then k else pos_of w g)"
  by (auto simp: pos_of_def set_pos_def map_of_other)

lemma sim_parts:
  "fs_fds (set_inode i x w) = fs_fds w" "fs_fds (set_pos f k w) = fs_fds w" "fs_inodes (set_pos f k w) = fs_inodes w"
  "inode_of (set_pos f k w) = inode_of w" "pos_of (set_inode i x w) = pos_of w"
  by (auto simp: set_inode_def set_pos_def inode_of_def pos_of_def fun_eq_iff)

lemmas sim_laws = sim_env_def sim_two_def sim_bytes_def sim_parts inode_of_set pos_of_set change_def on_fd_def Let_def

lemma run_NUL: "k \<le> i \<Longrightarrow> i < k + length (takeWhile (\<lambda>c. c = NUL) (drop k d)) \<Longrightarrow> byte d i = NUL"
proof (cases "i < length d")
  case True
  assume i: "k \<le> i" "i < k + length (takeWhile (\<lambda>c. c = NUL) (drop k d))"
  then have "i - k < length (takeWhile (\<lambda>c. c = NUL) (drop k d))" by simp
  then have "takeWhile (\<lambda>c. c = NUL) (drop k d) ! (i - k) = NUL" by (blast dest: nth_mem set_takeWhileD)
  then have "drop k d ! (i - k) = NUL" using \<open>i - k < _\<close> by (simp add: takeWhile_nth)
  then show ?thesis using i True by simp
qed simp

lemma run_end: "\<not> k + length (takeWhile (\<lambda>c. c = NUL) (drop k d)) < length d \<Longrightarrow> k \<le> i \<Longrightarrow> byte d i = NUL"
  using run_NUL[of k i d] by (cases "i < length d") auto

lemma sim_steady: "steady_call s c \<Longrightarrow> snd (sim c w) = w"
  by (cases c) (auto simp: on_fd_def split: option.split)

lemma sim_seek_world: "snd (sim_seek f off wh w) = w \<or> (\<exists>k. snd (sim_seek f off wh w) = set_pos f k w)"
  by (auto simp: sim_seek_def on_fd_def Let_def split: option.split whence.split)

lemma sim_set_pos: "sim_bytes (set_pos f k w) = sim_bytes w" "sim_two d s (set_pos f k w) = sim_two d s w"
  by (auto simp: sim_bytes_def sim_two_def sim_parts fun_eq_iff split: option.split)

lemma sim_seek_same: "sim_bytes (snd (sim_seek f off wh w)) = sim_bytes w" "sim_two d s (snd (sim_seek f off wh w)) = sim_two d s w"
  using sim_seek_world[of f off wh w] by (auto simp: sim_set_pos)

lemma sim_moving: "sim_two d s w \<Longrightarrow> moving_call d s c \<Longrightarrow> sim_two d s (snd (sim c w)) \<and> sim_bytes (snd (sim c w)) s = sim_bytes w s"
  by (erule sim_twoE, cases c) (simp_all add: sim_seek_same, simp_all add: sim_laws)

interpretation sim_kernel: file_kernel sim_env "sim_two d s" sim_bytes pos_of d s for d s
proof
  fix w c r w'
  assume "sim_two d s w" "steady_call s c" "kern sim_env c w = (r, w')"
  then show "sim_two d s w' \<and> sim_bytes w' s = sim_bytes w s \<and> sim_bytes w' d = sim_bytes w d \<and>
      pos_of w' s = pos_of w s \<and> pos_of w' d = pos_of w d"
    using sim_steady[of s c w] by (simp add: sim_env_def)
next
  fix w c r w'
  assume "sim_two d s w" "moving_call d s c" "kern sim_env c w = (r, w')"
  then show "sim_two d s w' \<and> sim_bytes w' s = sim_bytes w s"
    using sim_moving[of d s w c] by (simp add: sim_env_def)
next
  fix w off b r w'
  assume "sim_two d s w" "0 \<le> off" "kern sim_env (C_pwrite d b off) w = (r, w')" "0 < reply_int r"
  then show "reply_int r \<le> int (length b) \<and> sim_bytes w' d = write_at (nat off) (take (nat (reply_int r)) b) (sim_bytes w d)"
    by (elim sim_twoE) (auto simp: sim_laws)
next
  fix w b r w'
  assume "sim_two d s w" "kern sim_env (C_write d b) w = (r, w')" "0 < reply_int r"
  then show "reply_int r \<le> int (length b) \<and> sim_bytes w' d = write_at (pos_of w d) (take (nat (reply_int r)) b) (sim_bytes w d) \<and>
      pos_of w' d = pos_of w d + nat (reply_int r) \<and> pos_of w' s = pos_of w s"
    by (elim sim_twoE) (auto simp: sim_laws sim_two_not)
next
  fix w n r w' b
  assume "sim_two d s w" "kern sim_env (C_read s n) w = (r, w')" "reply_bytes r = Some b"
  then show "b = take (length b) (drop (pos_of w s) (sim_bytes w s)) \<and> (b = [] \<longrightarrow> n \<le> 0 \<or> length (sim_bytes w s) \<le> pos_of w s) \<and>
      sim_bytes w' d = sim_bytes w d \<and> pos_of w' s = pos_of w s + length b \<and> pos_of w' d = pos_of w d"
    by (elim sim_twoE) (auto simp: sim_laws min_def split: if_splits)
next
  fix w off n r w' b
  assume "sim_two d s w" "0 \<le> off" "0 \<le> n" "kern sim_env (C_pread s n off) w = (r, w')" "reply_bytes r = Some b"
  then show "b = take (length b) (drop (nat off) (sim_bytes w s)) \<and> int (length b) \<le> n \<and>
      (b = [] \<longrightarrow> n \<le> 0 \<or> length (sim_bytes w s) \<le> nat off)"
    by (elim sim_twoE) (auto simp: sim_laws min_def le_nat_iff)
next
  fix w n r w'
  assume "sim_two d s w" "0 \<le> n" "kern sim_env (C_ftruncate d n) w = (r, w')" "\<not> failed r"
  then show "sim_bytes w' d = resize (nat n) (sim_bytes w d)"
    by (elim sim_twoE) (auto simp: sim_laws)
next
  fix w off len r w'
  assume "sim_two d s w" "0 \<le> off" "0 < len" "kern sim_env (C_fallocate d off len) w = (r, w')"
  then show "sim_bytes w' d = (if failed r then sim_bytes w d else resize (max (length (sim_bytes w d)) (nat (off + len))) (sim_bytes w d))"
    by (auto simp: sim_env_def)
next
  fix w soff doff len r w'
  assume "sim_two d s w" "0 \<le> soff" "0 \<le> doff" "kern sim_env (C_copy_file_range s soff d doff len) w = (r, w')"
  then show "if 0 < reply_int r
       then reply_int r \<le> len \<and> nat soff + nat (reply_int r) \<le> length (sim_bytes w s) \<and>
         sim_bytes w' d = write_at (nat doff) (take (nat (reply_int r)) (drop (nat soff) (sim_bytes w s))) (sim_bytes w d)
       else sim_bytes w' d = sim_bytes w d"
    by (auto simp: sim_env_def)
next
  fix w soff len r w'
  assume "sim_two d s w" "0 \<le> soff" "kern sim_env (C_sendfile d s soff len) w = (r, w')"
  then show "if 0 < reply_int r
       then reply_int r \<le> len \<and> nat soff + nat (reply_int r) \<le> length (sim_bytes w s) \<and>
         sim_bytes w' d = write_at (pos_of w d) (take (nat (reply_int r)) (drop (nat soff) (sim_bytes w s))) (sim_bytes w d) \<and>
         pos_of w' d = pos_of w d + nat (reply_int r)
       else sim_bytes w' d = sim_bytes w d"
    by (auto simp: sim_env_def)
next
  fix w off r w'
  assume "sim_two d s w" "0 \<le> off" "kern sim_env (C_lseek d off SEEK_SET) w = (r, w')"
  then show "sim_bytes w' d = sim_bytes w d \<and> (reply_int r \<noteq> -1 \<longrightarrow> pos_of w' d = nat off)"
    by (elim sim_twoE) (auto simp: sim_laws sim_seek_def)
next
  fix w wh off r w'
  assume "kern sim_env (C_lseek s off wh) w = (r, w')"
  then show "sim_bytes w' d = sim_bytes w d"
    using sim_seek_same(1)[of s off wh w] by (simp add: sim_env_def)
next
  fix w off r w'
  assume *: "sim_two d s w" "0 \<le> off" "kern sim_env (C_lseek s off SEEK_DATA) w = (r, w')"
  then show "if reply_int r = -1
       then failed r \<and> (r = R_fail ENXIO \<longrightarrow> (\<forall>i \<ge> nat off. byte (sim_bytes w s) i = NUL))
       else off \<le> reply_int r \<and> nat (reply_int r) < length (sim_bytes w s) \<and>
         (\<forall>i. nat off \<le> i \<and> i < nat (reply_int r) \<longrightarrow> byte (sim_bytes w s) i = NUL)"
    using run_NUL[of "nat off" _ "sim_bytes w s"] run_end[of "nat off" "sim_bytes w s"] by (elim sim_twoE) (auto simp: sim_laws sim_seek_def split: if_splits)
next
  fix w off r w'
  assume "sim_two d s w" "0 \<le> off" "kern sim_env (C_lseek s off SEEK_HOLE) w = (r, w')" "reply_int r \<noteq> -1"
  then show "off \<le> reply_int r"
    by (elim sim_twoE) (auto simp: sim_laws sim_seek_def split: if_splits)
next
  fix w st w'
  assume "sim_two d s w" "kern sim_env (C_fstat d) w = (R_stat st, w')"
  then show "st_size st = int (length (sim_bytes w d))"
    by (elim sim_twoE) (auto simp: sim_laws stat_of_def)
qed

subsection \<open>The property\<close>

text \<open>
  C8. A file that is filled without an error holds the bytes of its template, all of them or those the
  stream still had, cut or extended with NUL to the size asked for when one is; and the template is as it
  was. This holds of each way to copy, whatever mix of fast paths, short reads and short writes the
  system answers with.
\<close>

theorem fill_one_content:
  assumes "file_kernel E ok data pos dst src" "ok (world s)" "data (world s) dst = [] \<and> pos (world s) dst = 0"
    and "\<And>t. fs_tmpl spec = Some t \<Longrightarrow> tm_fd t = src \<and> (tm_kind t \<noteq> TMPL_STREAM \<longrightarrow> tm_size t = int (length (data (world s) src)))"
    and "size_given spec \<Longrightarrow> 0 \<le> fs_size spec"
    and "run_state (fill_one E dst spec) s = (0, s')" "run_status s' = Running"
  shows "data (world s') dst = file_bytes spec (data (world s) src) (pos (world s) src) \<and>
    data (world s') src = data (world s) src"
  by (rule file_kernel.fill_one_done[OF assms])

text \<open>A new file on descriptor 3 and its template on 4, copied in each of the three ways.\<close>

definition two_files :: "bytes \<Rightarrow> fs" where
  "two_files d = (empty_fs True True)
     \<lparr>fs_inodes := [(3, \<lparr>in_mode = 0x180, in_data = [], in_owner = (0, 0), in_synced = False\<rparr>),
                    (4, \<lparr>in_mode = 0x1A4, in_data = d, in_owner = (0, 0), in_synced = True\<rparr>)],
      fs_fds := [(3, 3), (4, 4)], fs_pos := [(4, 1)]\<rparr>"

definition two_spec :: "tmpl_kind \<Rightarrow> file_spec" where
  "two_spec k = (fst spec_reset)\<lparr>fs_size := 7, size_given := True,
     fs_tmpl := Some \<lparr>tm_size = 5, tm_kind = k, tm_fd = 4, tm_own_fd = True, tm_tail_hole = False\<rparr>\<rparr>"

definition two_data :: bytes where
  "two_data = [NUL, NUL, CHR ''b'', NUL, CHR ''c'']"

theorem fill_one_content_witness:
  "\<forall>k. fst (run_state (fill_one sim_env 3 (two_spec k)) (start (two_files two_data))) = 0 \<and>
     sim_bytes (world (snd (run_state (fill_one sim_env 3 (two_spec k)) (start (two_files two_data))))) 3 =
       (if k = TMPL_STREAM then [NUL, CHR ''b'', NUL, CHR ''c'', NUL, NUL, NUL]
        else [NUL, NUL, CHR ''b'', NUL, CHR ''c'', NUL, NUL])"
proof
  fix k
  let ?m = "run_state (fill_one sim_env 3 (two_spec k)) (start (two_files two_data))"
  have all: "fst ?m = 0 \<and> run_status (snd ?m) = Running" by (cases k; simp only:; code_simp)
  have begin_ok: "sim_two 3 4 (two_files two_data)" "sim_bytes (two_files two_data) 3 = []" "pos_of (two_files two_data) 3 = 0"
    "sim_bytes (two_files two_data) 4 = two_data" "pos_of (two_files two_data) 4 = 1" by code_simp+
  have bytes: "file_bytes (two_spec k) two_data 1 = (if k = TMPL_STREAM then [NUL, CHR ''b'', NUL, CHR ''c'', NUL, NUL, NUL]
        else [NUL, NUL, CHR ''b'', NUL, CHR ''c'', NUL, NUL])" by (cases k; simp only:; code_simp)
  have "?m = (0, snd ?m)" using all by (metis prod.collapse)
  from fill_one_content[OF sim_kernel.file_kernel_axioms[of 3 4] _ _ _ _ this] all begin_ok bytes
  show "fst ?m = 0 \<and> sim_bytes (world (snd ?m)) 3 = (if k = TMPL_STREAM then [NUL, CHR ''b'', NUL, CHR ''c'', NUL, NUL, NUL]
        else [NUL, NUL, CHR ''b'', NUL, CHR ''c'', NUL, NUL])"
    by (simp add: start_def two_spec_def two_data_def)
qed

end
