(* ===== verification/Spec2Isabelle.thy ===== *)
theory Spec2Isabelle
  imports Bounds Durable Flush_Pool Content
begin

text \<open>
  A verification of \<^verbatim>\<open>newfile\<close>, a program that makes new files: of a given mode, owner and size, with the
  contents of a template and durable, replacing a file only when asked (\<^verbatim>\<open>-f\<close>) and
  then with a backup of it when asked (\<^verbatim>\<open>-b\<close>).

  \<^bold>\<open>The program.\<close> \<^verbatim>\<open>main\<close> (\<^verbatim>\<open>src/src/main.c\<close>) turns the command line into a request (\<^verbatim>\<open>spec.c\<close>, over the
  scanner \<^verbatim>\<open>optparse.c\<close>, the table \<^verbatim>\<open>options.c\<close> and the readers \<^verbatim>\<open>parse.c\<close>), installs the signal handler
  (\<^verbatim>\<open>pending.c\<close>), opens the template (\<^verbatim>\<open>template.c\<close>) and hands the operands to \<^verbatim>\<open>batch_run\<close> (\<^verbatim>\<open>batch.c\<close>). That
  works in batches of at most 64: each file is built under its name or a temporary one (\<^verbatim>\<open>place.c\<close>,
  \<^verbatim>\<open>template.c\<close>, \<^verbatim>\<open>io.c\<close>, \<^verbatim>\<open>holes.c\<close>, \<^verbatim>\<open>fastio.c\<close>), the batch is flushed by a pool of threads (\<^verbatim>\<open>flush.c\<close>), the names
  are given (\<^verbatim>\<open>place.c\<close>, \<^verbatim>\<open>backup.c\<close>), the directories are flushed and each operand is reported. Names that
  must not survive a signal stand in the table of \<^verbatim>\<open>pending.c\<close> meanwhile.

  \<^bold>\<open>How it is modelled.\<close> The part up to the request is pure: HOL functions on strings, words and
  records, where an exit of the program is a value. The rest runs in a state monad (theory \<open>Sys\<close>)
  over \<open>pst\<close>, a record with one field for each static variable of the C files (the table of
  pending names, the probes, the set of directories, the cache of backups, the pool, \<open>errno\<close>, the
  signal mask), the two outputs and a trace. Every system call is a \<open>call\<close>, answered with a \<open>reply\<close>
  by a parameter, the field \<open>kern\<close> of the environment; the call, its reply, the mask and the pending names at that
  moment are put in the trace. Theorems about runs hold for every kernel: every sequence of answers, errors
  included. Failing allocation is the call \<open>C_memory\<close>. A call of \<^verbatim>\<open>exit\<close> sets \<open>run_status\<close>, after which
  nothing is called or printed. Loops whose end the system decides (a signal that interrupts
  again and again, a read that never ends) run on fuel, the field \<open>fuel\<close> of the environment; when
  it is used up \<open>run_status\<close> becomes \<open>Unfinished\<close>. Safety theorems hold for every fuel.

  \<^bold>\<open>Theories and sources.\<close> (files under \<^verbatim>\<open>src/src\<close>)

  \<^item> \<open>Prelude\<close>: shared lemmas on lists, words and options; \<open>Cstd\<close>: what the code uses of C's strings,
    \<^verbatim>\<open>strtol\<close>, \<^verbatim>\<open>strtoull\<close> and characters.
  \<^item> \<open>Parse\<close>: \<^verbatim>\<open>parse.c\<close>; \<open>Optparse\<close>: \<^verbatim>\<open>optparse.c\<close>; \<open>Options\<close>: \<^verbatim>\<open>options.c\<close>; \<open>Spec\<close>: \<^verbatim>\<open>spec.c\<close>.
  \<^item> \<open>Sys\<close>: the state, the calls, \<^verbatim>\<open>error.c\<close> and \<^verbatim>\<open>newfile.h\<close>; \<open>Pending\<close>: \<^verbatim>\<open>pending.c\<close>; \<open>Fastio\<close>: \<^verbatim>\<open>fastio.c\<close>;
    \<open>Io\<close>: \<^verbatim>\<open>io.c\<close> and \<^verbatim>\<open>holes.c\<close>; \<open>Template\<close>: \<^verbatim>\<open>template.c\<close>; \<open>Flush\<close>: \<^verbatim>\<open>flush.c\<close>, and
    \<open>Flush_Pool\<close>: its threads; \<open>Paths\<close>: \<^verbatim>\<open>paths.c\<close>; \<open>Place\<close>:
    \<^verbatim>\<open>place.c\<close>; \<open>Backup\<close>: \<^verbatim>\<open>backup.c\<close>; \<open>Batch\<close>: \<^verbatim>\<open>batch.c\<close>; \<open>Main_Prog\<close>: \<^verbatim>\<open>main.c\<close>.
  \<^item> \<open>Keeps\<close>: weakest preconditions and invariants of programs; \<open>Kept\<close>: the locales that carry an
    invariant from the calls through every function up to \<^verbatim>\<open>main\<close>; \<open>Sim\<close>: a small file system that
    serves as kernel in witnesses.

  \<^bold>\<open>What is proved.\<close>

  \<^item> Command line (\<open>Parse\<close>, \<open>Optparse\<close>, \<open>Options\<close>, \<open>Spec\<close>): each reader accepts exactly the documented
    arguments and returns what they denote without wrap-around; the in-place permutation equals a
    reference split; the request has the fields the options ask for and is well formed; every exit
    has its status and message; the help fits the terminal and the synopsis is complete.
  \<^item> \<open>Safety\<close>: a name is unlinked only when the call before saw it hold a file of this run; without
    \<^verbatim>\<open>-f\<close> nothing is ever replaced.
  \<^item> \<open>Backup_Order\<close>, \<open>Backup_Cache\<close>: the digit strings order and count as the numbers they write,
    the sorted listing of a directory holds the highest number of each base, the lookup finds it,
    and the number of a new backup is above every one listed.
  \<^item> \<open>Bounds\<close>: no table of the program is overrun.
  \<^item> \<open>Outcome\<close>, \<open>Durable\<close>: a file a batch does not report as failed was created, given its owner and its
    mode, flushed and named, in this order; when the program ends with success, that holds of every operand, and its
    directory was flushed after that.
  \<^item> \<open>Bytes\<close>, \<open>Content_Laws\<close>, \<open>Content\<close>: over the documented effect of reads, writes, seeks and copies on two
    descriptors, a locale that the system of \<open>Sim\<close> interprets, a file filled without an error holds the bytes of its
    template, cut or extended to the size asked for, by each of the three ways to copy.
  \<^item> \<open>Flush_Pool\<close>: the pool as a step relation on a state with the lock, the job and the positions of
    all threads. Every interleaving flushes each descriptor once and leaves what one thread would; no run is
    stuck or goes on for ever; no worker touches the arrays of a flush that returned. This is
    what lets \<open>Flush\<close> run the threads of a flush one after the other, in an order the environment chooses.

  \<^bold>\<open>Not modelled.\<close> The stubs that stand for \<^verbatim>\<open>fastio.c\<close>, \<^verbatim>\<open>holes.c\<close> and the pool on systems without the calls. The
  delivery of a signal: the handler is a function of the model and the mask is part of the state,
  but no step of a run is an interruption. In \<open>Flush_Pool\<close> the answers of \<^verbatim>\<open>fsync\<close> are
  left open, and a wait returns unsignalled a given number of times, which may be any. The output of \<^verbatim>\<open>printf\<close> is its text, and what \<^verbatim>\<open>error_close_std\<close>
  prints after \<^verbatim>\<open>--help\<close> or \<^verbatim>\<open>--version\<close> is left out. The tests, benchmarks and build files.
\<close>

end
